(* ===== verification/Go_Prelude.thy ===== *)
theory Go_Prelude
  imports Main "HOL-Library.AList" "HOL-Library.Sublist" "HOL-Library.Word"
    "HOL-Library.Signed_Division" "HOL-Library.List_Lexorder" "HOL-Library.Char_ord"
begin

text \<open>
  Shared base of the development: Go's 64-bit integers and durations, nil-able slices, the
  monotonic-free view of \<open>time.Time\<close>, and association lists as Go maps with an iteration
  order. It also declares the theorem collections the component theories fill:
  \<^item> \<open>frame\<close>: which parts of a state an operation leaves alone;
  \<^item> \<open>keeps\<close>: operations that preserve a well-formedness invariant.
\<close>

named_theorems frame \<open>what an operation leaves unchanged\<close>
named_theorems keeps \<open>operations preserve the invariant of their component\<close>

subsection \<open>64-bit integers\<close>

text \<open>
  Go's \<open>int\<close>, \<open>int64\<close> and \<open>time.Duration\<close> are two's complement 64-bit values. A value is an
  \<open>int\<close> and every operation of the source that can leave the range is followed by \<open>wrap64\<close>.
\<close>

definition wrap64 :: "int \<Rightarrow> int" where
  "wrap64 i = (i + 2 ^ 63) mod 2 ^ 64 - 2 ^ 63"

definition in_int64 :: "int \<Rightarrow> bool" where
  "in_int64 i \<longleftrightarrow> - (2 ^ 63) \<le> i \<and> i < 2 ^ 63"

lemma wrap64_sint: "wrap64 i = sint (word_of_int i :: 64 word)"
  by (simp add: wrap64_def signed_take_bit_eq_take_bit_shift take_bit_eq_mod
      sint_sbintrunc' flip: power_Suc)

lemma wrap64_id [simp]: "in_int64 i \<Longrightarrow> wrap64 i = i"
  by (simp add: wrap64_def in_int64_def)

lemma in_int64_wrap64 [simp]: "in_int64 (wrap64 i)"
  by (simp add: wrap64_def in_int64_def)

lemma wrap64_idem: "wrap64 (wrap64 i) = wrap64 i"
  by simp

lemma wrap64_mod: "wrap64 i = wrap64 j \<longleftrightarrow> i mod 2 ^ 64 = j mod 2 ^ 64"
proof
  assume "wrap64 i = wrap64 j"
  then have "(i + 2 ^ 63) mod 2 ^ 64 = (j + 2 ^ 63) mod 2 ^ 64" by (simp add: wrap64_def)
  then have "(i + 2 ^ 63 - 2 ^ 63) mod 2 ^ 64 = (j + 2 ^ 63 - 2 ^ 63) mod 2 ^ 64"
    by (rule mod_diff_cong) simp
  then show "i mod 2 ^ 64 = j mod 2 ^ 64" by simp
next
  assume "i mod 2 ^ 64 = j mod 2 ^ 64"
  then have "(i + 2 ^ 63) mod 2 ^ 64 = (j + 2 ^ 63) mod 2 ^ 64" by (rule mod_add_cong) simp
  then show "wrap64 i = wrap64 j" by (simp add: wrap64_def)
qed

lemma wrap64_mod_self: "wrap64 i mod 2 ^ 64 = i mod 2 ^ 64"
  using wrap64_mod [of "wrap64 i" i] by simp

lemma wrap64_add_left [simp]: "wrap64 (wrap64 a + b) = wrap64 (a + b)"
  unfolding wrap64_mod by (rule mod_add_cong) (simp_all only: wrap64_mod_self)

lemma wrap64_add_right [simp]: "wrap64 (a + wrap64 b) = wrap64 (a + b)"
  unfolding wrap64_mod by (rule mod_add_cong) (simp_all only: wrap64_mod_self)

text \<open>Go's \<open>int32\<close>, which the connection gauges have.\<close>

definition wrap32 :: "int \<Rightarrow> int" where
  "wrap32 i = (i + 2 ^ 31) mod 2 ^ 32 - 2 ^ 31"

lemma wrap32_id [simp]: "- (2 ^ 31) \<le> i \<Longrightarrow> i < 2 ^ 31 \<Longrightarrow> wrap32 i = i"
  by (simp add: wrap32_def)

lemma wrap32_mod: "wrap32 i = wrap32 j \<longleftrightarrow> i mod 2 ^ 32 = j mod 2 ^ 32"
proof
  assume "wrap32 i = wrap32 j"
  then have "(i + 2 ^ 31) mod 2 ^ 32 = (j + 2 ^ 31) mod 2 ^ 32" by (simp add: wrap32_def)
  then have "(i + 2 ^ 31 - 2 ^ 31) mod 2 ^ 32 = (j + 2 ^ 31 - 2 ^ 31) mod 2 ^ 32"
    by (rule mod_diff_cong) simp
  then show "i mod 2 ^ 32 = j mod 2 ^ 32" by simp
next
  assume "i mod 2 ^ 32 = j mod 2 ^ 32"
  then have "(i + 2 ^ 31) mod 2 ^ 32 = (j + 2 ^ 31) mod 2 ^ 32" by (rule mod_add_cong) simp
  then show "wrap32 i = wrap32 j" by (simp add: wrap32_def)
qed

lemma wrap32_add [simp]: "wrap32 (wrap32 i + j) = wrap32 (i + j)"
proof -
  have "wrap32 (wrap32 i) = wrap32 i" by (simp add: wrap32_def)
  then have "wrap32 i mod 2 ^ 32 = i mod 2 ^ 32" by (simp only: wrap32_mod)
  then show ?thesis unfolding wrap32_mod by (rule mod_add_cong) simp
qed

lemma wrap32_diff [simp]: "wrap32 (wrap32 i - j) = wrap32 (i - j)"
  using wrap32_add [of i "- j"] by simp

subsection \<open>Slices\<close>

text \<open>
  A Go slice is nil or a sequence; \<open>reflect.DeepEqual\<close> distinguishes nil from an empty
  slice, everything else the code does with a slice does not.
\<close>

type_synonym 'a slice = "'a list option"

definition elems :: "'a slice \<Rightarrow> 'a list" where
  "elems s = (case s of None \<Rightarrow> [] | Some xs \<Rightarrow> xs)"

lemma elems_simps [simp]: "elems None = []" "elems (Some xs) = xs"
  by (simp_all add: elems_def)

text \<open>\<open>var out []T\<close> followed by appends: nil when nothing was appended.\<close>

definition appended :: "'a list \<Rightarrow> 'a slice" where
  "appended xs = (if xs = [] then None else Some xs)"

lemma elems_appended [simp]: "elems (appended xs) = xs"
  by (simp add: appended_def)

lemma appended_None [simp]: "appended xs = None \<longleftrightarrow> xs = []"
  by (simp add: appended_def)

text \<open>\<open>append(s, xs...)\<close>: appending nothing returns the slice itself, nil included.\<close>

definition append_slice :: "'a slice \<Rightarrow> 'a list \<Rightarrow> 'a slice" where
  "append_slice s xs = (if xs = [] then s else Some (elems s @ xs))"

lemma elems_append_slice [simp]: "elems (append_slice s xs) = elems s @ xs"
  by (simp add: append_slice_def)

subsection \<open>Time\<close>

text \<open>
  An instant is a number of nanoseconds since Go's zero time, so \<open>IsZero\<close> is equality with 0.
  \<open>Time.Sub\<close> saturates at the range of \<open>time.Duration\<close>.
\<close>

type_synonym instant = int
type_synonym duration = int

definition max_duration :: duration where "max_duration = 2 ^ 63 - 1"
definition min_duration :: duration where "min_duration = - (2 ^ 63)"

definition time_sub :: "instant \<Rightarrow> instant \<Rightarrow> duration" where
  "time_sub t u = max min_duration (min max_duration (t - u))"

definition is_zero_time :: "instant \<Rightarrow> bool" where
  "is_zero_time t \<longleftrightarrow> t = 0"

abbreviation second :: duration where "second \<equiv> 1000000000"
abbreviation minute :: duration where "minute \<equiv> 60 * second"
abbreviation hour :: duration where "hour \<equiv> 60 * minute"
abbreviation millisecond :: duration where "millisecond \<equiv> 1000000"

text \<open>\<open>time.Duration(n) * time.Second\<close>, which wraps.\<close>

definition secs :: "int \<Rightarrow> duration" where
  "secs n = wrap64 (n * second)"

text \<open>\<open>Duration.Milliseconds\<close> truncates towards zero.\<close>

definition millis :: "duration \<Rightarrow> int" where
  "millis d = d sdiv millisecond"

lemma time_sub_in_int64 [simp]: "in_int64 (time_sub t u)"
  by (auto simp: time_sub_def in_int64_def max_duration_def min_duration_def)

lemma time_sub_exact:
  "in_int64 (t - u) \<Longrightarrow> time_sub t u = t - u"
  by (auto simp: time_sub_def in_int64_def max_duration_def min_duration_def)

lemma sdiv_pos: "0 \<le> a \<Longrightarrow> 0 < b \<Longrightarrow> (a :: int) sdiv b = a div b"
  by (cases "a = 0") (simp_all add: signed_divide_int_def)

lemma millis_nonneg: "0 \<le> d \<Longrightarrow> millis d = d div millisecond"
  by (simp add: millis_def sdiv_pos)

text \<open>
  The retry budget the code computes in four places:
  \<open>int((timeout + interval - 1) / interval)\<close>, at least 1. The sum wraps.
\<close>

definition retry_budget :: "duration \<Rightarrow> duration \<Rightarrow> int" where
  "retry_budget timeout interval =
     (let n = wrap64 (timeout + interval - 1) sdiv interval in if n < 1 then 1 else n)"

lemma retry_budget_pos: "1 \<le> retry_budget t i"
  by (simp add: retry_budget_def Let_def)

lemma retry_budget_ceil:
  assumes "0 < t" and "0 < i" and "in_int64 (t + i - 1)"
  shows "(retry_budget t i - 1) * i < t \<and> t \<le> retry_budget t i * i"
proof -
  define q r where "q = (t + i - 1) div i" and "r = (t + i - 1) mod i"
  have eq: "i * q + r = t + i - 1" unfolding q_def r_def by (rule mult_div_mod_eq)
  have lo: "0 \<le> r" and hi: "r < i" using assms(2) by (simp_all add: r_def)
  have "i div i \<le> q" unfolding q_def using assms(1,2) by (intro zdiv_mono1) auto
  then have "1 \<le> q" using assms(2) by simp
  with assms have "retry_budget t i = q"
    by (simp add: retry_budget_def Let_def sdiv_pos q_def)
  with eq lo hi show ?thesis by (simp add: algebra_simps)
qed

subsection \<open>Maps with an iteration order\<close>

text \<open>
  A Go map that the code iterates over is an association list with distinct keys; its order
  stands for the order one iteration picks, and the theorems hold for every order.
\<close>

definition keys_distinct :: "('k \<times> 'v) list \<Rightarrow> bool" where
  "keys_distinct m \<longleftrightarrow> distinct (map fst m)"

definition map_values :: "('k \<Rightarrow> 'v \<Rightarrow> 'v) \<Rightarrow> ('k \<times> 'v) list \<Rightarrow> ('k \<times> 'v) list" where
  "map_values f m = map (\<lambda>(k, v). (k, f k v)) m"

lemma map_values_simps [simp]:
  "map_values f [] = []"
  "map_values f ((k, v) # m) = (k, f k v) # map_values f m"
  by (simp_all add: map_values_def)

lemma map_of_map_values [simp]:
  "map_of (map_values f m) k = map_option (f k) (map_of m k)"
  by (induction m) auto

lemma keys_map_values [simp]: "map fst (map_values f m) = map fst m"
  by (induction m) auto

lemma set_map_values: "set (map_values f m) = (\<lambda>(k, v). (k, f k v)) ` set m"
  by (simp add: map_values_def)

lemma keys_distinct_map_values [simp, keeps]:
  "keys_distinct (map_values f m) = keys_distinct m"
  by (simp add: keys_distinct_def)

lemma keys_distinct_update [simp, keeps]:
  "keys_distinct m \<Longrightarrow> keys_distinct (AList.update k v m)"
  by (simp add: keys_distinct_def distinct_update)

lemma keys_distinct_delete [simp, keeps]:
  "keys_distinct m \<Longrightarrow> keys_distinct (AList.delete k m)"
  by (simp add: keys_distinct_def distinct_delete)

lemma keys_distinct_filter [simp, keeps]:
  "keys_distinct m \<Longrightarrow> keys_distinct (filter P m)"
  by (auto simp: keys_distinct_def intro: distinct_map_filter)

lemma keys_distinct_Nil [simp, keeps]: "keys_distinct []"
  by (simp add: keys_distinct_def)

lemma in_alist_iff:
  "keys_distinct m \<Longrightarrow> (k, v) \<in> set m \<longleftrightarrow> map_of m k = Some v"
  by (simp add: keys_distinct_def)

lemma map_of_filter_value:
  "keys_distinct m \<Longrightarrow>
   map_of (filter (\<lambda>(k, v). P v) m) k = (case map_of m k of None \<Rightarrow> None | Some v \<Rightarrow> if P v then Some v else None)"
  by (induction m) (auto simp: keys_distinct_def split: option.splits dest: map_of_SomeD
      intro!: map_of_eq_None_iff [THEN iffD2] simp: image_iff)

lemma map_le_Some: "m \<subseteq>\<^sub>m m' \<Longrightarrow> m k = Some v \<Longrightarrow> m' k = Some v"
  by (metis domI map_le_def)

text \<open>A sum over the values of a map.\<close>

definition map_total :: "('v \<Rightarrow> nat) \<Rightarrow> ('k \<times> 'v) list \<Rightarrow> nat" where
  "map_total f m = sum_list (map (\<lambda>x. f (snd x)) m)"

lemma map_total_simps [simp]: "map_total f [] = 0" "map_total f ((k, v) # m) = f v + map_total f m"
  by (simp_all add: map_total_def)

lemma map_total_map_values [simp]: "map_total f (map_values (\<lambda>_. g) m) = map_total (\<lambda>v. f (g v)) m"
  by (induction m) auto

lemma map_total_update:
  "map_of m k = Some v \<Longrightarrow> map_total f (AList.update k w m) + f v = map_total f m + f w"
  by (induction m) auto

lemma map_total_insert: "map_of m k = None \<Longrightarrow> map_total f (AList.update k w m) = map_total f m + f w"
  by (induction m) auto

lemma map_total_delete:
  "keys_distinct m \<Longrightarrow> map_of m k = Some v \<Longrightarrow> map_total f (AList.delete k m) + f v = map_total f m"
  by (induction m) (auto simp: keys_distinct_def)

lemma map_total_le: "(\<And>v. f v \<le> g v) \<Longrightarrow> map_total f m \<le> map_total g m"
  unfolding map_total_def by (rule sum_list_mono) simp

lemma map_total_member: "map_of m k = Some v \<Longrightarrow> f v \<le> map_total f m"
  by (induction m) (auto split: if_splits intro: trans_le_add2)

lemma map_total_zero: "map_total f m = 0 \<longleftrightarrow> (\<forall>x \<in> set m. f (snd x) = 0)"
  by (auto simp: map_total_def)

subsection \<open>Loops\<close>

lemma foldl_invariant:
  assumes "P s" and "\<And>s x. x \<in> set xs \<Longrightarrow> P s \<Longrightarrow> P (f s x)"
  shows "P (foldl f s xs)"
  using assms by (induction xs arbitrary: s) auto

lemma foldl_unchanged:
  assumes "\<And>s x. x \<in> set xs \<Longrightarrow> g (f s x) = g s"
  shows "g (foldl f s xs) = g s"
  using assms by (induction xs arbitrary: s) auto

end
