(* ===== verification/Go_Strings.thy ===== *)
theory Go_Strings
  imports Go_Prelude
begin

text \<open>
  The functions of Go's \<open>strings\<close>, \<open>strconv\<close> and \<open>fmt\<close> packages that the program calls.
  A Go string is a sequence of bytes, here a \<open>string\<close> whose characters are bytes. The second
  half proves the facts the round trips need: integers survive printing and parsing, and
  splitting undoes joining.
\<close>

subsection \<open>strings.TrimSpace\<close>

text \<open>
  \<open>TrimSpace\<close> removes Unicode white space at both ends. White space beyond ASCII is given by
  its UTF-8 encodings: U+0085, U+00A0, U+1680, U+2000 to U+200A, U+2028, U+2029, U+202F,
  U+205F and U+3000. A string starts (ends) with such a rune exactly when the encoding is
  a prefix (suffix).
\<close>

definition ascii_spaces :: string where
  "ascii_spaces = [CHR 0x09, CHR 0x0A, CHR 0x0B, CHR 0x0C, CHR 0x0D, CHR 0x20]"

definition space_encodings :: "string list" where
  "space_encodings = map (\<lambda>c. [c]) ascii_spaces
     @ [[CHR 0xC2, CHR 0x85], [CHR 0xC2, CHR 0xA0], [CHR 0xE1, CHR 0x9A, CHR 0x80]]
     @ map (\<lambda>c. [CHR 0xE2, CHR 0x80, c])
         [CHR 0x80, CHR 0x81, CHR 0x82, CHR 0x83, CHR 0x84, CHR 0x85, CHR 0x86, CHR 0x87,
          CHR 0x88, CHR 0x89, CHR 0x8A, CHR 0xA8, CHR 0xA9, CHR 0xAF]
     @ [[CHR 0xE2, CHR 0x81, CHR 0x9F], [CHR 0xE3, CHR 0x80, CHR 0x80]]"

definition strip_prefix :: "string list \<Rightarrow> string \<Rightarrow> string option" where
  "strip_prefix encs s =
     (case find (\<lambda>e. prefix e s) encs of None \<Rightarrow> None | Some e \<Rightarrow> Some (drop (length e) s))"

text \<open>The loop of the trim functions; the fuel is the length, as every round drops a byte.\<close>

fun strip_prefixes :: "nat \<Rightarrow> string list \<Rightarrow> string \<Rightarrow> string" where
  "strip_prefixes 0 encs s = s"
| "strip_prefixes (Suc n) encs s =
     (case strip_prefix encs s of None \<Rightarrow> s | Some t \<Rightarrow> strip_prefixes n encs t)"

definition trim_left_space :: "string \<Rightarrow> string" where
  "trim_left_space s = strip_prefixes (length s) space_encodings s"

definition trim_right_space :: "string \<Rightarrow> string" where
  "trim_right_space s = rev (strip_prefixes (length s) (map rev space_encodings) (rev s))"

definition trim_space :: "string \<Rightarrow> string" where
  "trim_space s = trim_right_space (trim_left_space s)"

subsection \<open>Splitting, joining, searching\<close>

text \<open>\<open>strings.Split(s, sep)\<close> for a one-byte separator: never empty.\<close>

fun split_on :: "char \<Rightarrow> string \<Rightarrow> string list" where
  "split_on c [] = [[]]"
| "split_on c (x # xs) =
     (if x = c then [] # split_on c xs
      else (case split_on c xs of [] \<Rightarrow> [[x]] | y # ys \<Rightarrow> (x # y) # ys))"

text \<open>\<open>strings.SplitN(s, sep, 2)\<close> for a one-byte separator.\<close>

definition split2 :: "char \<Rightarrow> string \<Rightarrow> string list" where
  "split2 c s =
     (if c \<in> set s then [takeWhile (\<lambda>x. x \<noteq> c) s, tl (dropWhile (\<lambda>x. x \<noteq> c) s)] else [s])"

fun join :: "string \<Rightarrow> string list \<Rightarrow> string" where
  "join sep [] = []"
| "join sep [s] = s"
| "join sep (s # t # ss) = s @ sep @ join sep (t # ss)"

text \<open>\<open>strings.IndexByte\<close> and \<open>strings.LastIndex\<close> for one byte: -1 when absent.\<close>

definition index_byte :: "string \<Rightarrow> char \<Rightarrow> int" where
  "index_byte s c =
     (if c \<in> set s then int (length (takeWhile (\<lambda>x. x \<noteq> c) s)) else -1)"

definition last_index :: "string \<Rightarrow> char \<Rightarrow> int" where
  "last_index s c =
     (if c \<in> set s then int (length s) - 1 - int (length (takeWhile (\<lambda>x. x \<noteq> c) (rev s)))
      else -1)"

text \<open>\<open>s[:i]\<close> and \<open>s[i:]\<close> for an index within the string.\<close>

abbreviation slice_to :: "string \<Rightarrow> int \<Rightarrow> string" where "slice_to s i \<equiv> take (nat i) s"
abbreviation slice_from :: "string \<Rightarrow> int \<Rightarrow> string" where "slice_from s i \<equiv> drop (nat i) s"

fun contains :: "string \<Rightarrow> string \<Rightarrow> bool" where
  "contains [] sub = (sub = [])"
| "contains (x # xs) sub = (prefix sub (x # xs) \<or> contains xs sub)"

text \<open>
  \<open>strings.ReplaceAll\<close> for a non-empty \<open>old\<close>, the only use in the program: leftmost
  occurrences, not overlapping. The first argument bounds the number of rounds.
\<close>

fun replace_rounds :: "nat \<Rightarrow> string \<Rightarrow> string \<Rightarrow> string \<Rightarrow> string" where
  "replace_rounds 0 s old new = s"
| "replace_rounds (Suc n) s old new =
     (case s of [] \<Rightarrow> []
      | x # xs \<Rightarrow> if prefix old s then new @ replace_rounds n (drop (length old) s) old new
                  else x # replace_rounds n xs old new)"

definition replace_all :: "string \<Rightarrow> string \<Rightarrow> string \<Rightarrow> string" where
  "replace_all s old new = replace_rounds (length s) s old new"

definition trim_prefix :: "string \<Rightarrow> string \<Rightarrow> string" where
  "trim_prefix s p = (if prefix p s then drop (length p) s else s)"

definition trim_suffix :: "string \<Rightarrow> string \<Rightarrow> string" where
  "trim_suffix s p = (if suffix p s then take (length s - length p) s else s)"

subsection \<open>Integers and strings\<close>

definition digit_char :: "nat \<Rightarrow> char" where
  "digit_char d = char_of (48 + d)"

definition digit_val :: "char \<Rightarrow> nat option" where
  "digit_val c = (let n = of_char c :: nat in if 48 \<le> n \<and> n \<le> 57 then Some (n - 48) else None)"

fun show_nat :: "nat \<Rightarrow> string" where
  "show_nat n = (if n < 10 then [digit_char n] else show_nat (n div 10) @ [digit_char (n mod 10)])"

declare show_nat.simps [simp del]

definition show_int :: "int \<Rightarrow> string" where
  "show_int i = (if i < 0 then ''-'' @ show_nat (nat (- i)) else show_nat (nat i))"

text \<open>Evaluation of printed numbers by the simplifier.\<close>

lemmas show_eval = show_int_def show_nat.simps digit_char_def char_of_def bit_0

fun parse_digits :: "nat \<Rightarrow> string \<Rightarrow> nat option" where
  "parse_digits acc [] = Some acc"
| "parse_digits acc (c # cs) =
     (case digit_val c of None \<Rightarrow> None | Some d \<Rightarrow> parse_digits (10 * acc + d) cs)"

text \<open>\<open>strconv.Atoi\<close>: an optional sign, at least one digit, within 64 bits.\<close>

definition atoi :: "string \<Rightarrow> int option" where
  "atoi s =
     (let (neg, ds) = (case s of [] \<Rightarrow> (False, [])
                       | c # cs \<Rightarrow> if c = CHR ''-'' then (True, cs)
                                   else if c = CHR ''+'' then (False, cs) else (False, s))
      in if ds = [] then None
         else case parse_digits 0 ds of None \<Rightarrow> None
              | Some n \<Rightarrow> if neg then (if n \<le> 2 ^ 63 then Some (- int n) else None)
                          else (if n < 2 ^ 63 then Some (int n) else None))"

subsection \<open>Facts about splitting and joining\<close>

lemma split_on_nonempty [simp]: "split_on c s \<noteq> []"
  by (cases s) (auto split: list.splits)

lemma split_on_no_sep: "c \<notin> set s \<Longrightarrow> split_on c s = [s]"
  by (induction s) auto

lemma split_on_append_sep:
  "c \<notin> set s \<Longrightarrow> split_on c (s @ c # t) = s # split_on c t"
  by (induction s) auto

lemma join_Cons: "ss \<noteq> [] \<Longrightarrow> join sep (s # ss) = s @ sep @ join sep ss"
  by (cases ss) auto

lemma split_on_join:
  "ss \<noteq> [] \<Longrightarrow> (\<And>s. s \<in> set ss \<Longrightarrow> c \<notin> set s) \<Longrightarrow> split_on c (join [c] ss) = ss"
proof (induction ss)
  case (Cons s ss)
  then show ?case
    by (cases "ss = []") (simp_all add: join_Cons split_on_append_sep split_on_no_sep)
qed simp

lemma join_split_on: "join [c] (split_on c s) = s"
proof (induction s)
  case (Cons x xs)
  show ?case
  proof (cases "split_on c xs")
    case (Cons y ys)
    with Cons.IH show ?thesis by (cases ys) auto
  qed simp
qed simp

lemma split_on_pieces: "p \<in> set (split_on c s) \<Longrightarrow> c \<notin> set p"
proof (induction s arbitrary: p)
  case (Cons x xs)
  show ?case
  proof (cases "split_on c xs")
    case (Cons y ys)
    with Cons.prems Cons.IH show ?thesis by (auto split: if_splits)
  qed simp
qed simp

lemma split2_sep:
  "c \<notin> set a \<Longrightarrow> split2 c (a @ c # b) = [a, b]"
  by (induction a) (auto simp: split2_def)

subsection \<open>Facts about trimming\<close>

text \<open>Printable ASCII bytes other than the blank are never part of white space.\<close>

definition plain_char :: "char \<Rightarrow> bool" where
  "plain_char c \<longleftrightarrow> 33 \<le> (of_char c :: nat) \<and> (of_char c :: nat) \<le> 126"

lemma space_not_plain:
  "e \<in> set space_encodings \<Longrightarrow> e \<noteq> [] \<and> \<not> plain_char (hd e) \<and> \<not> plain_char (last e)"
  by (auto simp: space_encodings_def ascii_spaces_def plain_char_def)

lemma strip_prefix_plain:
  assumes "\<And>e. e \<in> set encs \<Longrightarrow> e \<noteq> [] \<and> \<not> plain_char (hd e)"
    and "s = [] \<or> plain_char (hd s)"
  shows "strip_prefix encs s = None"
proof -
  have "\<not> prefix e s" if "e \<in> set encs" for e
    using assms(1) [OF that] assms(2) by (cases e; cases s) auto
  then have "find (\<lambda>e. prefix e s) encs = None" by (simp add: find_None_iff)
  then show ?thesis by (simp add: strip_prefix_def)
qed

lemma strip_prefixes_plain:
  assumes "\<And>e. e \<in> set encs \<Longrightarrow> e \<noteq> [] \<and> \<not> plain_char (hd e)"
    and "s = [] \<or> plain_char (hd s)"
  shows "strip_prefixes n encs s = s"
  using strip_prefix_plain [OF assms] by (cases n) simp_all

lemma trim_space_plain:
  assumes "s = [] \<or> plain_char (hd s) \<and> plain_char (last s)"
  shows "trim_space s = s"
proof -
  have "trim_left_space s = s"
    using assms space_not_plain by (auto simp: trim_left_space_def intro!: strip_prefixes_plain)
  moreover have "trim_right_space s = s"
  proof -
    have "strip_prefixes (length s) (map rev space_encodings) (rev s) = rev s"
      using assms space_not_plain
      by (intro strip_prefixes_plain) (auto simp: hd_rev)
    then show ?thesis by (simp add: trim_right_space_def)
  qed
  ultimately show ?thesis by (simp add: trim_space_def)
qed

lemma trim_space_all_plain: "list_all plain_char s \<Longrightarrow> trim_space s = s"
  by (rule trim_space_plain) (cases s; auto simp: list_all_iff)

lemma trim_space_Nil [simp]: "trim_space [] = []"
  by (rule trim_space_plain) simp

text \<open>The fuel of the trim loop is enough: nothing is left to strip, and trimming is idempotent.\<close>

lemma strip_prefix_shorter:
  "strip_prefix encs s = Some t \<Longrightarrow> [] \<notin> set encs \<Longrightarrow> length t < length s"
  by (auto simp: strip_prefix_def find_Some_iff prefix_def split: option.splits)
    (metis nth_mem)

lemma strip_prefixes_done:
  "[] \<notin> set encs \<Longrightarrow> length s \<le> n \<Longrightarrow> strip_prefix encs (strip_prefixes n encs s) = None"
proof (induction n arbitrary: s)
  case 0
  then show ?case
    by (cases "strip_prefix encs s") (auto dest: strip_prefix_shorter)
next
  case (Suc n)
  show ?case
  proof (cases "strip_prefix encs s")
    case (Some t)
    with Suc.prems have "length t \<le> n" by (auto dest: strip_prefix_shorter)
    with Suc Some show ?thesis by simp
  qed simp
qed

lemma strip_prefixes_suffix: "suffix (strip_prefixes n encs s) s"
proof (induction n arbitrary: s)
  case (Suc n)
  then show ?case
    by (auto simp: strip_prefix_def split: option.splits intro: suffix_order.trans [OF _ suffix_drop])
qed simp

lemma strip_prefixes_None: "strip_prefix encs s = None \<Longrightarrow> strip_prefixes n encs s = s"
  by (cases n) simp_all

lemma strip_prefix_None_prefix:
  "strip_prefix encs s = None \<Longrightarrow> prefix t s \<Longrightarrow> strip_prefix encs t = None"
  by (auto simp: strip_prefix_def find_None_iff split: option.splits intro: prefix_order.trans)

lemma space_encodings_nonempty: "[] \<notin> set space_encodings" "[] \<notin> set (map rev space_encodings)"
  by (simp_all add: space_encodings_def ascii_spaces_def)

lemma trim_space_idem [simp]: "trim_space (trim_space s) = trim_space s"
proof -
  define l where "l = trim_left_space s"
  define r where "r = strip_prefixes (length l) (map rev space_encodings) (rev l)"
  have ts: "trim_space s = rev r" by (simp add: trim_space_def trim_right_space_def l_def r_def)
  have "strip_prefix space_encodings l = None"
    by (simp add: l_def trim_left_space_def strip_prefixes_done space_encodings_nonempty)
  moreover have "prefix (rev r) l"
    using strip_prefixes_suffix [of "length l" "map rev space_encodings" "rev l"]
    by (simp add: r_def suffix_to_prefix)
  ultimately have "strip_prefix space_encodings (rev r) = None"
    by (rule strip_prefix_None_prefix)
  then have "trim_left_space (rev r) = rev r"
    by (simp add: trim_left_space_def strip_prefixes_None)
  moreover have "strip_prefix (map rev space_encodings) r = None"
    unfolding r_def using space_encodings_nonempty(2) by (rule strip_prefixes_done) simp
  ultimately show ?thesis
    unfolding ts by (simp add: trim_space_def trim_right_space_def strip_prefixes_None)
qed

subsection \<open>Printing and parsing integers\<close>

lemma digit_val_char [simp]: "d < 10 \<Longrightarrow> digit_val (digit_char d) = Some d"
  by (simp add: digit_val_def digit_char_def Let_def)

lemma plain_digit [simp]: "d < 10 \<Longrightarrow> plain_char (digit_char d)"
  by (simp add: plain_char_def digit_char_def)

lemma parse_digits_append:
  "parse_digits acc (xs @ ys) =
     (case parse_digits acc xs of None \<Rightarrow> None | Some n \<Rightarrow> parse_digits n ys)"
  by (induction xs arbitrary: acc) (auto split: option.splits)

lemma parse_show_nat: "parse_digits 0 (show_nat n) = Some n"
proof (induction n rule: show_nat.induct)
  case (1 n)
  show ?case
  proof (cases "n < 10")
    case True
    then show ?thesis by (subst show_nat.simps) simp
  next
    case False
    with 1 show ?thesis by (subst show_nat.simps) (simp add: parse_digits_append)
  qed
qed

lemma show_nat_digits:
  "show_nat n \<noteq> [] \<and> (\<forall>c \<in> set (show_nat n). \<exists>d < 10. c = digit_char d)"
proof (induction n rule: show_nat.induct)
  case (1 n)
  show ?case
  proof (cases "n < 10")
    case True
    then show ?thesis by (subst (1 2) show_nat.simps) auto
  next
    case False
    have "\<exists>d < 10. digit_char (n mod 10) = digit_char d"
      by (rule exI [of _ "n mod 10"]) simp
    with 1 False show ?thesis by (subst (1 2) show_nat.simps) auto
  qed
qed

lemma show_nat_nonempty [simp]: "show_nat n \<noteq> []"
  using show_nat_digits by blast

lemma digit_char_neq [simp]:
  "d < 10 \<Longrightarrow> (of_char c :: nat) < 48 \<or> 57 < (of_char c :: nat) \<Longrightarrow> digit_char d \<noteq> c"
  by (auto simp: digit_char_def)

lemma show_nat_no_char:
  "(of_char c :: nat) < 48 \<or> 57 < (of_char c :: nat) \<Longrightarrow> c \<notin> set (show_nat n)"
  using show_nat_digits [of n] by (metis digit_char_neq)

lemma show_nat_plain: "list_all plain_char (show_nat n)"
  using show_nat_digits [of n] by (auto simp: list_all_iff)

lemma show_int_plain: "list_all plain_char (show_int i)"
  using show_nat_plain by (simp add: show_int_def plain_char_def)

lemma show_int_nonempty [simp]: "show_int i \<noteq> []"
  by (simp add: show_int_def)

lemma show_int_no_char:
  "c \<noteq> CHR ''-'' \<Longrightarrow> (of_char c :: nat) < 48 \<or> 57 < (of_char c :: nat) \<Longrightarrow> c \<notin> set (show_int i)"
  using show_nat_no_char [of c] by (auto simp: show_int_def)

lemma atoi_show_int:
  assumes "in_int64 i"
  shows "atoi (show_int i) = Some i"
proof (cases "i < 0")
  case True
  with assms show ?thesis
    by (simp add: atoi_def show_int_def in_int64_def parse_show_nat nat_le_iff)
next
  case False
  obtain c cs where s: "show_nat (nat i) = c # cs" by (cases "show_nat (nat i)") auto
  then have "c \<noteq> CHR ''-''" "c \<noteq> CHR ''+''"
    using show_nat_no_char [of "CHR ''-''" "nat i"] show_nat_no_char [of "CHR ''+''" "nat i"] by auto
  with s False assms parse_show_nat [of "nat i"] show ?thesis
    by (simp add: atoi_def show_int_def in_int64_def nat_less_iff)
qed

lemma atoi_in_int64: "atoi s = Some i \<Longrightarrow> in_int64 i"
  by (auto simp: atoi_def in_int64_def Let_def split: prod.splits option.splits if_splits)

lemma show_nat_inj: "show_nat m = show_nat n \<Longrightarrow> m = n"
  using parse_show_nat by (metis option.inject)

subsection \<open>Searching\<close>

lemma last_index_append:
  assumes "c \<notin> set b"
  shows "last_index (a @ c # b) c = int (length a)"
proof -
  have "takeWhile (\<lambda>x. x \<noteq> c) (rev b @ c # rev a) = rev b"
    using assms by (induction b rule: rev_induct) auto
  then show ?thesis by (simp add: last_index_def)
qed

lemma last_index_absent: "c \<notin> set s \<Longrightarrow> last_index s c = -1"
  by (simp add: last_index_def)

lemma contains_prefix: "prefix sub s \<Longrightarrow> contains s sub"
  by (cases s) auto

lemma contains_append: "contains (a @ sub @ b) sub"
  by (induction a) (simp_all add: contains_prefix)

end
