(* ===== verification/Go_Net.thy ===== *)
theory Go_Net
  imports Go_Strings
begin

text \<open>
  The parts of Go's \<open>net\<close> and \<open>net/netip\<close> packages the access lists rest on: parsing
  addresses and CIDR blocks, membership in a block, and splitting \<open>host:port\<close>. An address is
  a list of 4 or 16 bytes, as \<open>net.IP\<close> is.
\<close>

unbundle bit_operations_syntax

type_synonym byte = "8 word"
type_synonym ip = "byte list"

record ipnet =
  net_ip :: ip
  net_mask :: "byte list"

subsection \<open>Addresses\<close>

definition v4_in_v6_prefix :: ip where
  "v4_in_v6_prefix = replicate 10 0 @ [255, 255]"

text \<open>\<open>IP.To4\<close>: \<open>None\<close> is nil.\<close>

definition to4 :: "ip \<Rightarrow> ip option" where
  "to4 a = (if length a = 4 then Some a
            else if length a = 16 \<and> take 12 a = v4_in_v6_prefix then Some (drop 12 a)
            else None)"

text \<open>\<open>parseIPv4Fields\<close>: four decimal fields of at most 255 without leading zeros.\<close>

definition ipv4_field :: "string \<Rightarrow> byte option" where
  "ipv4_field f =
     (if f = [] \<or> (1 < length f \<and> hd f = CHR ''0'') then None
      else case parse_digits 0 f of None \<Rightarrow> None
           | Some n \<Rightarrow> if n \<le> 255 then Some (of_nat n) else None)"

definition parse_ipv4 :: "string \<Rightarrow> ip option" where
  "parse_ipv4 s =
     (case map ipv4_field (split_on (CHR ''.'') s) of
        [Some a, Some b, Some c, Some d] \<Rightarrow> Some [a, b, c, d]
      | _ \<Rightarrow> None)"

definition hex_val :: "char \<Rightarrow> nat option" where
  "hex_val c =
     (let n = of_char c :: nat in
      if 48 \<le> n \<and> n \<le> 57 then Some (n - 48)
      else if 97 \<le> n \<and> n \<le> 102 then Some (n - 87)
      else if 65 \<le> n \<and> n \<le> 70 then Some (n - 55) else None)"

definition hex_digits :: "string \<Rightarrow> string" where
  "hex_digits s = takeWhile (\<lambda>c. hex_val c \<noteq> None) s"

definition hex_number :: "string \<Rightarrow> nat" where
  "hex_number ds = foldl (\<lambda>acc c. acc * 16 + the (hex_val c)) 0 ds"

text \<open>
  The group loop of \<open>parseIPv6\<close>: the bytes so far, the ellipsis position if seen, the
  rest of the string. It returns the bytes, the ellipsis and the unread rest. The first
  argument is the number of groups still allowed (8 at the start, so \<open>i < 16\<close> is its being
  positive), \<open>whole\<close> the address without its zone for the embedded IPv4 tail.
\<close>

fun ipv6_groups :: "nat \<Rightarrow> ip \<Rightarrow> nat option \<Rightarrow> string \<Rightarrow> (ip \<times> nat option \<times> string) option" where
  "ipv6_groups 0 bs ell s = Some (bs, ell, s)"
| "ipv6_groups (Suc n) bs ell s =
     (let ds = hex_digits s; rest = drop (length ds) s in
      if ds = [] \<or> 4 < length ds then None
      else if rest \<noteq> [] \<and> hd rest = CHR ''.'' then
        (if ell = None \<and> length bs \<noteq> 12 then None
         else if 16 < length bs + 4 then None
         else case parse_ipv4 s of None \<Rightarrow> None | Some v4 \<Rightarrow> Some (bs @ v4, ell, []))
      else let v = hex_number ds; bs' = bs @ [of_nat (v div 256), of_nat v] in
        (case rest of
           [] \<Rightarrow> Some (bs', ell, [])
         | c # r1 \<Rightarrow>
             if c \<noteq> CHR '':'' \<or> r1 = [] then None
             else if hd r1 = CHR '':'' then
               (if ell \<noteq> None then None
                else if tl r1 = [] then Some (bs', Some (length bs'), [])
                else ipv6_groups n bs' (Some (length bs')) (tl r1))
             else ipv6_groups n bs' ell r1))"

definition expand_ellipsis :: "ip \<times> nat option \<times> string \<Rightarrow> ip option" where
  "expand_ellipsis r =
     (case r of (bs, ell, rest) \<Rightarrow>
        if rest \<noteq> [] then None
        else if length bs < 16 then
          (case ell of None \<Rightarrow> None
           | Some e \<Rightarrow> Some (take e bs @ replicate (16 - length bs) 0 @ drop e bs))
        else if ell \<noteq> None then None else Some bs)"

text \<open>\<open>parseIPv6\<close> without a zone (an address with a zone is refused by both callers).\<close>

definition parse_ipv6 :: "string \<Rightarrow> ip option" where
  "parse_ipv6 s =
     (if s = ''::'' then Some (replicate 16 0)
      else if prefix ''::'' s then Option.bind (ipv6_groups 8 [] (Some 0) (drop 2 s)) expand_ellipsis
      else Option.bind (ipv6_groups 8 [] None s) expand_ellipsis)"

text \<open>
  \<open>netip.ParseAddr\<close> restricted to addresses without a zone: the first of '.', ':' and '%'
  decides the family. IPv4 gives 4 bytes here, IPv6 16.
\<close>

definition parse_addr :: "string \<Rightarrow> ip option" where
  "parse_addr s =
     (case find (\<lambda>c. c \<in> {CHR ''.'', CHR '':'', CHR 0x25}) s of
        None \<Rightarrow> None
      | Some c \<Rightarrow> if c = CHR ''.'' then parse_ipv4 s
                  else if c = CHR '':'' then (if CHR 0x25 \<in> set s then None else parse_ipv6 s)
                  else None)"

text \<open>\<open>net.ParseIP\<close> returns the 16-byte form.\<close>

definition as16 :: "ip \<Rightarrow> ip" where
  "as16 a = (if length a = 4 then v4_in_v6_prefix @ a else a)"

definition parse_ip :: "string \<Rightarrow> ip option" where
  "parse_ip s = map_option as16 (parse_addr s)"

subsection \<open>CIDR blocks\<close>

text \<open>\<open>net.CIDRMask(ones, bits)\<close> for \<open>0 \<le> ones \<le> bits\<close> and \<open>bits\<close> 32 or 128.\<close>

fun mask_bytes :: "nat \<Rightarrow> nat \<Rightarrow> byte list" where
  "mask_bytes 0 n = []"
| "mask_bytes (Suc l) n =
     (if 8 \<le> n then 255 # mask_bytes l (n - 8) else NOT (drop_bit n 255) # mask_bytes l 0)"

definition cidr_mask :: "nat \<Rightarrow> nat \<Rightarrow> byte list" where
  "cidr_mask ones bits = mask_bytes (bits div 8) ones"

definition apply_mask :: "ip \<Rightarrow> byte list \<Rightarrow> ip" where
  "apply_mask a m = map2 (AND) a m"

text \<open>\<open>net.ParseCIDR\<close> (its second result): an IPv4 block keeps 4 bytes.\<close>

definition parse_cidr :: "string \<Rightarrow> ipnet option" where
  "parse_cidr s =
     (case split2 (CHR ''/'') s of
        [host, len] \<Rightarrow>
          (case parse_addr host of None \<Rightarrow> None
           | Some a \<Rightarrow>
               (if len = [] then None
                else case parse_digits 0 len of None \<Rightarrow> None
                | Some n \<Rightarrow>
                    (let bits = 8 * length a in
                     if bits < n then None
                     else Some \<lparr>net_ip = apply_mask a (cidr_mask n bits), net_mask = cidr_mask n bits\<rparr>)))
      | _ \<Rightarrow> None)"

text \<open>\<open>networkNumberAndMask\<close> and \<open>IPNet.Contains\<close>; \<open>None\<close> stands for the nil number.\<close>

definition network_number_and_mask :: "ipnet \<Rightarrow> (ip \<times> byte list) option" where
  "network_number_and_mask n =
     (case (case to4 (net_ip n) of Some a \<Rightarrow> Some a
            | None \<Rightarrow> if length (net_ip n) = 16 then Some (net_ip n) else None) of
        None \<Rightarrow> None
      | Some a \<Rightarrow>
          (if length (net_mask n) = 4 then (if length a = 4 then Some (a, net_mask n) else None)
           else if length (net_mask n) = 16 then
             Some (a, if length a = 4 then drop 12 (net_mask n) else net_mask n)
           else None))"

definition ipnet_contains :: "ipnet \<Rightarrow> ip \<Rightarrow> bool" where
  "ipnet_contains n a =
     (let x = (case to4 a of Some b \<Rightarrow> b | None \<Rightarrow> a) in
      case network_number_and_mask n of
        None \<Rightarrow> x = []
      | Some (nn, m) \<Rightarrow> length x = length nn \<and> list_all2 (=) (map2 (AND) nn m) (map2 (AND) x m))"

subsection \<open>net.SplitHostPort\<close>

definition split_host_port :: "string \<Rightarrow> (string \<times> string) option" where
  "split_host_port hp =
     (let i = last_index hp (CHR '':'') in
      if i < 0 then None
      else if hd hp = CHR ''['' then
        (let e = index_byte hp (CHR '']'') in
         if e < 0 \<or> e + 1 \<noteq> i then None
         else if CHR ''['' \<in> set (drop 1 hp) \<or> CHR '']'' \<in> set (slice_from hp (e + 1)) then None
         else Some (drop 1 (slice_to hp e), slice_from hp (i + 1)))
      else if CHR '':'' \<in> set (slice_to hp i) then None
      else if CHR ''['' \<in> set hp \<or> CHR '']'' \<in> set hp then None
      else Some (slice_to hp i, slice_from hp (i + 1)))"

subsection \<open>Facts\<close>

lemma length_mask_bytes [simp]: "length (mask_bytes l n) = l"
  by (induction l n rule: mask_bytes.induct) auto

lemma mask_bytes_full: "mask_bytes l (8 * l) = replicate l 255"
  by (induction l) auto

lemma cidr_mask_full [simp]:
  "cidr_mask 32 32 = replicate 4 255" "cidr_mask 128 128 = replicate 16 255"
  using mask_bytes_full [of 4] mask_bytes_full [of 16] by (simp_all add: cidr_mask_def)

lemma and_255 [simp]: "(x :: byte) AND 255 = x"
proof -
  have "(255 :: byte) = -1" by simp
  then show ?thesis by (simp only: and.right_neutral)
qed

lemma map2_and_full: "length a = n \<Longrightarrow> map2 (AND) a (replicate n (255 :: byte)) = a"
  by (induction a arbitrary: n) auto

lemma apply_mask_idem: "apply_mask (apply_mask a m) m = apply_mask a m"
proof (induction a arbitrary: m)
  case (Cons x a)
  then show ?case by (cases m) (auto simp: apply_mask_def ac_simps)
qed (simp add: apply_mask_def)

lemma length_parse_ipv4: "parse_ipv4 s = Some a \<Longrightarrow> length a = 4"
  by (auto simp: parse_ipv4_def split: list.splits option.splits)

lemma ipv6_groups_Suc:
  assumes "ipv6_groups (Suc n) bs ell s = Some r"
  obtains v4 where "length v4 = 4" "length bs + 4 \<le> 16" "fst r = bs @ v4"
  | a b where "fst r = bs @ [a, b]"
  | a b ell' s' where "ipv6_groups n (bs @ [a, b]) ell' s' = Some r"
proof -
  define ds where "ds = hex_digits s"
  define rest where "rest = drop (length ds) s"
  note assms' = assms [unfolded ipv6_groups.simps Let_def, folded ds_def, folded rest_def]
  show thesis
  proof (cases "rest \<noteq> [] \<and> hd rest = CHR ''.''")
    case True
    with assms' show thesis
      by (auto split: if_splits option.splits dest: length_parse_ipv4 intro: that(1))
  next
    case False
    with assms' show thesis
      by (cases rest) (auto split: if_splits intro: that(2,3))
  qed
qed

lemma ipv6_groups_length:
  "ipv6_groups n bs ell s = Some r \<Longrightarrow> length bs + 2 * n = 16 \<Longrightarrow> length (fst r) \<le> 16"
proof (induction n arbitrary: bs ell s)
  case (Suc n)
  from Suc.prems(1) show ?case
  proof (cases rule: ipv6_groups_Suc)
    case (3 a b ell' s')
    then show ?thesis using Suc.prems(2) by (intro Suc.IH) auto
  qed (use Suc.prems(2) in auto)
qed auto

lemma expand_ellipsis_length:
  "expand_ellipsis r = Some a \<Longrightarrow> length (fst r) \<le> 16 \<Longrightarrow> length a = 16"
  by (cases r) (auto simp: expand_ellipsis_def split: if_splits option.splits)

lemma ipv6_groups_expand_length:
  assumes "Option.bind (ipv6_groups 8 [] e s) expand_ellipsis = Some a"
  shows "length a = 16"
proof -
  from assms obtain r where "ipv6_groups 8 [] e s = Some r" "expand_ellipsis r = Some a"
    by (auto simp: bind_eq_Some_conv)
  then show ?thesis
    using ipv6_groups_length [of 8 "[]" e s r] expand_ellipsis_length [of r a] by simp
qed

lemma length_parse_ipv6: "parse_ipv6 s = Some a \<Longrightarrow> length a = 16"
  using ipv6_groups_expand_length
  by (cases "s = ''::''"; cases "prefix ''::'' s") (auto simp: parse_ipv6_def)

lemma length_parse_addr: "parse_addr s = Some a \<Longrightarrow> length a = 4 \<or> length a = 16"
  by (auto simp: parse_addr_def dest: length_parse_ipv4 length_parse_ipv6 split: option.splits if_splits)

lemma length_v4_in_v6_prefix [simp]: "length v4_in_v6_prefix = 12"
  by (simp add: v4_in_v6_prefix_def)

lemma length_parse_ip: "parse_ip s = Some a \<Longrightarrow> length a = 16"
  unfolding parse_ip_def using length_parse_addr [of s] by (auto simp: as16_def)

lemma parse_ip_zone:
  assumes "CHR 0x25 \<in> set s" and "CHR ''.'' \<notin> set s"
  shows "parse_ip s = None"
proof (cases "find (\<lambda>c. c \<in> {CHR ''.'', CHR '':'', CHR 0x25}) s")
  case (Some c)
  then have "c \<in> set s" by (metis find_Some_iff nth_mem)
  with assms have "c \<noteq> CHR ''.''" by blast
  with assms(1) Some show ?thesis by (simp add: parse_ip_def parse_addr_def)
qed (simp add: parse_ip_def parse_addr_def)

subsection \<open>UDP addresses\<close>

text \<open>\<open>net.UDPAddr\<close> with its IP in printed form, and \<open>String\<close>, which is \<open>net.JoinHostPort\<close>.\<close>

record UDPAddr =
  IP :: string
  Zone :: string
  Port :: int

definition join_host_port :: "string \<Rightarrow> string \<Rightarrow> string" where
  "join_host_port host port =
     (if CHR '':'' \<in> set host \<or> CHR 0x25 \<in> set host then ''['' @ host @ '']:'' @ port else host @ '':'' @ port)"

definition UDPAddr_String :: "UDPAddr \<Rightarrow> string" where
  "UDPAddr_String a =
     join_host_port (if Zone a = '''' then IP a else IP a @ [CHR 0x25] @ Zone a) (show_int (Port a))"


end
