(* ===== verification/Target_Types.thy ===== *)
theory Target_Types
  imports Go_Net
begin

text \<open>
  \<open>internal/types/types.go\<close>: the target description shared by every component and the parsers
  of label, annotation and config values. Log lines are not modelled; a parser that skips an
  entry with a warning just skips it.
\<close>

subsection \<open>Data\<close>

record PortMapping =
  ListenPort :: int
  TargetPort :: int

abbreviation "AvailabilityOnDemand \<equiv> ''ondemand''"
abbreviation "AvailabilityCron \<equiv> ''cron''"
abbreviation "AvailabilityManual \<equiv> ''manual''"

record TargetInfo =
  ContainerID :: string
  ContainerName :: string
  Ports :: "PortMapping slice"
  UDPPorts :: "PortMapping slice"
  NetworkIDs :: "string slice"
  AllowList :: "ipnet slice"
  BlockList :: "ipnet slice"
  IdleTimeout :: "duration option"
  StartTimeout :: "duration option"
  Running :: bool
  Missing :: bool
  WebhookURL :: string
  Dependants :: "string slice"
  CronStart :: string
  CronStop :: string
  HTTPHealthCheck :: string
  HasHealthCheck :: bool
  TLS :: bool
  APIKey :: "string slice"
  BasicAuth :: "string slice"
  DesiredReplicas :: int
  TraefikHosts :: "string slice"
  TraefikTCPHosts :: "string slice"
  Availability :: string
  ALPNProtocols :: "string slice"
  MinTLSVersion :: string

text \<open>The zero value \<open>types.TargetInfo{}\<close>.\<close>

definition zero_info :: TargetInfo where
  "zero_info =
     \<lparr>ContainerID = '''', ContainerName = '''', Ports = None, UDPPorts = None, NetworkIDs = None,
      AllowList = None, BlockList = None, IdleTimeout = None, StartTimeout = None,
      Running = False, Missing = False, WebhookURL = '''', Dependants = None, CronStart = '''',
      CronStop = '''', HTTPHealthCheck = '''', HasHealthCheck = False, TLS = False, APIKey = None,
      BasicAuth = None, DesiredReplicas = 0, TraefikHosts = None, TraefikTCPHosts = None,
      Availability = '''', ALPNProtocols = None, MinTLSVersion = ''''\<rparr>"

subsection \<open>Operations\<close>

definition EffectiveAvailability :: "TargetInfo \<Rightarrow> string" where
  "EffectiveAvailability info =
     (if Availability info \<noteq> '''' then Availability info
      else if CronStart info \<noteq> '''' \<or> CronStop info \<noteq> '''' then AvailabilityCron
      else AvailabilityOnDemand)"

definition ParseAvailabilityLabel :: "string \<Rightarrow> string" where
  "ParseAvailabilityLabel raw =
     (let v = trim_space raw in
      if v \<in> {'''', AvailabilityOnDemand, AvailabilityCron, AvailabilityManual} then v else '''')"

fun add_protocols :: "string list \<Rightarrow> string list \<Rightarrow> string list" where
  "add_protocols out [] = out"
| "add_protocols out (p # ps) =
     (let q = trim_space p in
      if q = '''' \<or> q \<in> set out then add_protocols out ps else add_protocols (out @ [q]) ps)"

definition ParseALPNProtocols :: "string list \<Rightarrow> string slice" where
  "ParseALPNProtocols raw =
     appended (foldl (\<lambda>out r. add_protocols out (split_on (CHR '','') r)) [] raw)"

definition ParseMinTLSVersion :: "string \<Rightarrow> string" where
  "ParseMinTLSVersion raw =
     (let v = trim_space raw in
      if v \<in> {'''', ''1.0'', ''1.1'', ''1.2'', ''1.3''} then v else '''')"

definition parse_mapping_token :: "string \<Rightarrow> PortMapping option" where
  "parse_mapping_token token =
     (case split2 (CHR '':'') (trim_space token) of
        [l, t] \<Rightarrow>
          (case (atoi (trim_space l), atoi (trim_space t)) of
             (Some lp, Some tp) \<Rightarrow> Some \<lparr>ListenPort = lp, TargetPort = tp\<rparr>
           | _ \<Rightarrow> None)
      | _ \<Rightarrow> None)"

definition ParsePortMappings :: "string \<Rightarrow> PortMapping slice" where
  "ParsePortMappings s = appended (List.map_filter parse_mapping_token (split_on (CHR '','') s))"

definition parse_ip_entry :: "string \<Rightarrow> ipnet option" where
  "parse_ip_entry raw =
     (let entry = trim_space raw in
      if entry = '''' then None
      else case parse_cidr entry of Some n \<Rightarrow> Some n
      | None \<Rightarrow>
          (case parse_ip entry of None \<Rightarrow> None
           | Some a \<Rightarrow> (let bits = (if to4 a = None then 128 else 32) in
                       Some \<lparr>net_ip = a, net_mask = cidr_mask bits bits\<rparr>)))"

definition ParseIPList :: "string \<Rightarrow> ipnet slice" where
  "ParseIPList s = appended (List.map_filter parse_ip_entry (split_on (CHR '','') s))"

definition non_blank :: "string \<Rightarrow> string option" where
  "non_blank token = (let v = trim_space token in if v = '''' then None else Some v)"

definition ParseDependants :: "string \<Rightarrow> string slice" where
  "ParseDependants s = appended (List.map_filter non_blank (split_on (CHR '','') s))"

definition ParseAuthList :: "string \<Rightarrow> string slice" where
  "ParseAuthList s = appended (List.map_filter non_blank (split_on (CHR '','') s))"

definition ParseStartTimeoutLabel :: "string \<Rightarrow> duration option" where
  "ParseStartTimeoutLabel raw =
     (let v = trim_space raw in
      if v = '''' then None
      else case atoi v of None \<Rightarrow> None | Some n \<Rightarrow> if n < 0 then None else Some (secs n))"

definition ParseIdleTimeoutLabel :: "string \<Rightarrow> duration option" where
  "ParseIdleTimeoutLabel raw =
     (let v = trim_space raw in
      if v = '''' then None
      else case atoi v of None \<Rightarrow> None | Some n \<Rightarrow> if n < 0 then None else Some (secs n))"

record TraefikHostSpec =
  SpecDomain :: string
  SpecTargetPort :: int

definition parse_host_spec :: "string \<Rightarrow> TraefikHostSpec option" where
  "parse_host_spec token =
     (let entry = trim_space token in
      if entry = '''' then None
      else let idx = last_index entry (CHR '':'') in
        if idx < 1 then None
        else let domain = trim_space (slice_to entry idx) in
          if domain = '''' then None
          else case atoi (trim_space (slice_from entry (idx + 1))) of
                 None \<Rightarrow> None
               | Some tp \<Rightarrow> Some \<lparr>SpecDomain = domain, SpecTargetPort = tp\<rparr>)"

definition ParseTraefikHostSpecs :: "string \<Rightarrow> TraefikHostSpec list" where
  "ParseTraefikHostSpecs s = List.map_filter parse_host_spec (split_on (CHR '','') s)"

definition container_placeholder :: string where
  "container_placeholder = ''{{container}}''"

text \<open>\<open>uri_ok\<close> is \<open>url.ParseRequestURI\<close> succeeding.\<close>

definition ParseHTTPHealthCheckLabel :: "(string \<Rightarrow> bool) \<Rightarrow> string \<Rightarrow> string" where
  "ParseHTTPHealthCheckLabel uri_ok raw =
     (let v = trim_space raw in
      if v = '''' then ''''
      else if uri_ok (replace_all v container_placeholder ''placeholder'') then v else '''')"

subsection \<open>Port mappings\<close>

definition show_mapping :: "PortMapping \<Rightarrow> string" where
  "show_mapping m = show_int (ListenPort m) @ '':'' @ show_int (TargetPort m)"

definition mapping_in_range :: "PortMapping \<Rightarrow> bool" where
  "mapping_in_range m \<longleftrightarrow> in_int64 (ListenPort m) \<and> in_int64 (TargetPort m)"

lemma show_mapping_plain: "list_all plain_char (show_mapping m)"
  using show_int_plain by (simp add: show_mapping_def plain_char_def)

lemma parse_show_mapping:
  assumes "mapping_in_range m"
  shows "parse_mapping_token (show_mapping m) = Some m"
proof -
  have "split2 (CHR '':'') (show_mapping m) = [show_int (ListenPort m), show_int (TargetPort m)]"
    unfolding show_mapping_def append_Cons append_Nil
    by (rule split2_sep) (rule show_int_no_char, simp_all)
  with assms show ?thesis
    by (simp add: parse_mapping_token_def trim_space_all_plain show_mapping_plain show_int_plain
        atoi_show_int mapping_in_range_def)
qed

lemma map_filter_all_Some:
  "(\<And>x. x \<in> set xs \<Longrightarrow> f (g x) = Some x) \<Longrightarrow> List.map_filter f (map g xs) = xs"
  by (induction xs) (auto simp: List.map_filter_def)

lemma show_mapping_no_comma: "CHR '','' \<notin> set (show_mapping m)"
  by (auto simp: show_mapping_def show_int_no_char)

lemma map_filter_eq_concat:
  "List.map_filter f xs = concat (map (\<lambda>x. case f x of None \<Rightarrow> [] | Some y \<Rightarrow> [y]) xs)"
  by (induction xs) (auto simp: List.map_filter_def split: option.splits)

lemma parse_mapping_token_in_range:
  "parse_mapping_token t = Some m \<Longrightarrow> mapping_in_range m"
  by (auto simp: parse_mapping_token_def mapping_in_range_def dest: atoi_in_int64
      split: list.splits option.splits prod.splits)

subsection \<open>Protocol lists\<close>

definition first_seen :: "'a list \<Rightarrow> 'a list" where
  "first_seen xs = rev (remdups (rev xs))"

lemma first_seen_snoc:
  "first_seen (xs @ [x]) = (if x \<in> set xs then first_seen xs else first_seen xs @ [x])"
  by (simp add: first_seen_def)

lemma set_first_seen [simp]: "set (first_seen xs) = set xs"
  by (simp add: first_seen_def)

lemma distinct_first_seen [simp]: "distinct (first_seen xs)"
  by (simp add: first_seen_def)

lemma first_seen_distinct: "distinct xs \<Longrightarrow> first_seen xs = xs"
  by (simp add: first_seen_def distinct_remdups_id)

definition protocol_tokens :: "string list \<Rightarrow> string list" where
  "protocol_tokens ps = filter (\<lambda>q. q \<noteq> '''') (map trim_space ps)"

lemma add_protocols_first_seen:
  "add_protocols (first_seen xs) ps = first_seen (xs @ protocol_tokens ps)"
proof (induction ps arbitrary: xs)
  case (Cons p ps)
  show ?case
    using Cons.IH [of xs] Cons.IH [of "xs @ [trim_space p]"]
    by (auto simp: Let_def protocol_tokens_def first_seen_snoc)
qed (simp add: protocol_tokens_def)

lemma foldl_add_protocols:
  "foldl (\<lambda>out r. add_protocols out (split_on c r)) (first_seen xs) raw
   = first_seen (xs @ protocol_tokens (concat (map (split_on c) raw)))"
proof (induction raw arbitrary: xs)
  case (Cons r raw)
  then show ?case by (simp add: add_protocols_first_seen protocol_tokens_def)
qed (simp add: protocol_tokens_def)

lemma ParseALPN_elems:
  "elems (ParseALPNProtocols raw)
   = first_seen (protocol_tokens (concat (map (split_on (CHR '','')) raw)))"
  using foldl_add_protocols [of "CHR '',''" "[]" raw]
  by (simp add: ParseALPNProtocols_def first_seen_def)

subsection \<open>Single addresses\<close>

lemma trim_space_subset: "set (trim_space s) \<subseteq> set s"
proof -
  have "set (strip_prefixes n e t) \<subseteq> set t" for n e t
    using strip_prefixes_suffix by (rule set_mono_suffix)
  then show ?thesis
    unfolding trim_space_def trim_right_space_def trim_left_space_def
    by (metis (no_types, lifting) set_rev subset_trans)
qed

lemma parse_cidr_no_slash: "CHR ''/'' \<notin> set s \<Longrightarrow> parse_cidr s = None"
  by (simp add: parse_cidr_def split2_def)

lemma to4_cases:
  assumes "length a = 16"
  shows "to4 a = (if take 12 a = v4_in_v6_prefix then Some (drop 12 a) else None)"
  using assms by (simp add: to4_def)

lemma single_net_contains:
  assumes "length a = 16" and "length b = 16"
    and "n = \<lparr>net_ip = a, net_mask = (let l = (if to4 a = None then 128 else 32) in cidr_mask l l)\<rparr>"
  shows "ipnet_contains n b \<longleftrightarrow> b = a"
proof (cases "take 12 a = v4_in_v6_prefix")
  case True
  have "ipnet_contains n b \<longleftrightarrow> take 12 b = v4_in_v6_prefix \<and> drop 12 b = drop 12 a"
    using assms True
    by (auto simp: ipnet_contains_def network_number_and_mask_def to4_cases Let_def
        list_all2_eq [symmetric] map2_and_full)
  also have "\<dots> \<longleftrightarrow> b = a" using True by (metis append_take_drop_id)
  finally show ?thesis .
next
  case False
  then show ?thesis
    using assms
    by (auto simp: ipnet_contains_def network_number_and_mask_def to4_cases Let_def
        list_all2_eq [symmetric] map2_and_full)
qed

subsection \<open>Properties\<close>

text \<open>
  Printing a list of port mappings as \<open>listen:target\<close> pairs joined by commas and parsing it
  with \<open>ParsePortMappings\<close> gives the list back, for ports in the range of a Go \<open>int\<close>.
\<close>

theorem port_mappings_roundtrip:
  assumes "list_all mapping_in_range ms"
  shows "ParsePortMappings (join '','' (map show_mapping ms)) = appended ms"
proof (cases "ms = []")
  case True
  then show ?thesis by (simp add: ParsePortMappings_def parse_mapping_token_def split2_def
        List.map_filter_def)
next
  case False
  then have "split_on (CHR '','') (join '','' (map show_mapping ms)) = map show_mapping ms"
    by (intro split_on_join) (auto simp: show_mapping_no_comma)
  moreover have "List.map_filter parse_mapping_token (map show_mapping ms) = ms"
    using assms by (intro map_filter_all_Some) (simp add: parse_show_mapping list_all_iff)
  ultimately show ?thesis by (simp add: ParsePortMappings_def)
qed

theorem port_mappings_roundtrip_witness:
  "ParsePortMappings (join '','' (map show_mapping
      [\<lparr>ListenPort = 9000, TargetPort = 80\<rparr>, \<lparr>ListenPort = 53, TargetPort = -1\<rparr>]))
   = Some [\<lparr>ListenPort = 9000, TargetPort = 80\<rparr>, \<lparr>ListenPort = 53, TargetPort = -1\<rparr>]"
  by (subst port_mappings_roundtrip) (simp_all add: mapping_in_range_def in_int64_def appended_def)

text \<open>
  \<open>ParseALPNProtocols\<close> returns exactly the trimmed, non-empty comma-separated entries of
  all its arguments, each once, in the order they are first seen.
\<close>

theorem alpn_protocols_first_seen:
  "elems (ParseALPNProtocols raw)
     = first_seen (filter (\<lambda>q. q \<noteq> '''') (map trim_space (concat (map (split_on (CHR '','')) raw))))
   \<and> distinct (elems (ParseALPNProtocols raw))"
  by (simp add: ParseALPN_elems protocol_tokens_def)

text \<open>
  An access-list entry that is a plain address (no comma, no slash) becomes one block, and
  the block contains exactly that address: an IPv4 entry matches only its IPv4 address (also
  in its 16-byte form), an IPv6 entry only its IPv6 address.
\<close>

theorem plain_address_matches_itself:
  assumes "CHR '','' \<notin> set s" and "CHR ''/'' \<notin> set s" and "parse_ip (trim_space s) = Some a"
  shows "\<exists>n. elems (ParseIPList s) = [n] \<and> (\<forall>b. length b = 16 \<longrightarrow> ipnet_contains n b = (b = a))"
proof -
  define n where "n = \<lparr>net_ip = a,
    net_mask = (let l = (if to4 a = None then 128 else 32) in cidr_mask l l)\<rparr>"
  have "trim_space s \<noteq> ''''"
    using assms(3) by (auto simp: parse_ip_def parse_addr_def)
  moreover have "parse_cidr (trim_space s) = None"
    using assms(2) trim_space_subset by (intro parse_cidr_no_slash) blast
  ultimately have "parse_ip_entry s = Some n"
    using assms(3) by (simp add: parse_ip_entry_def n_def Let_def)
  then have "elems (ParseIPList s) = [n]"
    using assms(1) by (simp add: ParseIPList_def split_on_no_sep List.map_filter_def)
  moreover have "ipnet_contains n b = (b = a)" if "length b = 16" for b
    using length_parse_ip [OF assms(3)] that n_def by (rule single_net_contains)
  ultimately show ?thesis by blast
qed

theorem plain_address_matches_itself_witness:
  "\<exists>n. elems (ParseIPList '' 10.0.0.1'') = [n]
     \<and> (\<forall>b. length b = 16 \<longrightarrow> ipnet_contains n b = (b = v4_in_v6_prefix @ [10, 0, 0, 1]))"
proof (rule plain_address_matches_itself)
  have "trim_space '' 10.0.0.1'' = ''10.0.0.1''" by code_simp
  moreover have "parse_ip ''10.0.0.1'' = Some (v4_in_v6_prefix @ [10, 0, 0, 1])" by code_simp
  ultimately show "parse_ip (trim_space '' 10.0.0.1'') = Some (v4_in_v6_prefix @ [10, 0, 0, 1])"
    by simp
qed simp_all

text \<open>
  \<open>ParseIdleTimeoutLabel\<close> and \<open>ParseStartTimeoutLabel\<close> of a printed integer: negative values
  are refused, a value up to 9223372036 gives that many seconds, but the product with
  \<open>time.Second\<close> is not checked, so 9223372037 is accepted and gives a negative duration.
\<close>

theorem timeout_label_values:
  "(in_int64 n \<longrightarrow>
      ParseIdleTimeoutLabel (show_int n)
        = (if n < 0 then None else if n \<le> 9223372036 then Some (n * second) else Some (secs n))
      \<and> ParseStartTimeoutLabel (show_int n) = ParseIdleTimeoutLabel (show_int n))
   \<and> ParseIdleTimeoutLabel ''9223372037'' = Some (- 9223372036709551616)"
proof -
  have "ParseIdleTimeoutLabel (show_int n)
      = (if n < 0 then None else if n \<le> 9223372036 then Some (n * second) else Some (secs n))"
    if "in_int64 n"
    using that by (simp add: ParseIdleTimeoutLabel_def trim_space_all_plain show_int_plain
        atoi_show_int secs_def in_int64_def)
  moreover have "ParseIdleTimeoutLabel (show_int 9223372037) = Some (- 9223372036709551616)"
    by (simp add: ParseIdleTimeoutLabel_def trim_space_all_plain show_int_plain
        atoi_show_int in_int64_def secs_def wrap64_def)
  moreover have "show_int 9223372037 = ''9223372037''" by (simp add: show_eval)
  ultimately show ?thesis
    by (simp add: ParseStartTimeoutLabel_def ParseIdleTimeoutLabel_def)
qed

theorem timeout_label_values_witness:
  "in_int64 30 \<and> ParseIdleTimeoutLabel (show_int 30) = Some (30 * second)"
  using timeout_label_values [of 30] by (simp add: in_int64_def)

end
