(* ===== verification/Access_List.thy ===== *)
theory Access_List
  imports Target_Types
begin

text \<open>
  \<open>ipBlocked\<close> of \<open>internal/proxy/server.go\<close>: the allow-list and block-list check on the remote
  address of every TCP connection and UDP datagram.
\<close>

definition in_some_net :: "ip \<Rightarrow> ipnet list \<Rightarrow> bool" where
  "in_some_net a ns \<longleftrightarrow> list_ex (\<lambda>n. ipnet_contains n a) ns"

definition ipBlocked :: "string \<Rightarrow> TargetInfo \<Rightarrow> bool" where
  "ipBlocked remoteAddr info =
     (case split_host_port remoteAddr of None \<Rightarrow> False
      | Some (host, _) \<Rightarrow>
          (case parse_ip host of None \<Rightarrow> False
           | Some a \<Rightarrow>
               if elems (AllowList info) \<noteq> [] \<and> \<not> in_some_net a (elems (AllowList info)) then True
               else in_some_net a (elems (BlockList info))))"

lemma in_some_net_iff: "in_some_net a ns \<longleftrightarrow> (\<exists>n \<in> set ns. ipnet_contains n a)"
  by (simp add: in_some_net_def list_ex_iff)

lemma ipBlocked_open: "elems (AllowList info) = [] \<Longrightarrow> elems (BlockList info) = [] \<Longrightarrow> \<not> ipBlocked r info"
  by (auto simp: ipBlocked_def in_some_net_def split: option.splits)

lemma ipBlocked_parsed:
  assumes "split_host_port r = Some (h, p)" and "parse_ip h = Some a"
  shows "ipBlocked r info \<longleftrightarrow>
     (elems (AllowList info) \<noteq> [] \<and> (\<forall>n \<in> set (elems (AllowList info)). \<not> ipnet_contains n a))
     \<or> (\<exists>n \<in> set (elems (BlockList info)). ipnet_contains n a)"
  using assms by (auto simp: ipBlocked_def in_some_net_iff)

text \<open>
  With an allow-list label holding one plain address and an empty block-list, exactly the
  client with that address gets through: for a remote address that splits and parses, the
  connection is blocked if and only if the client's address differs.
\<close>

theorem single_allowed_client:
  assumes "CHR '','' \<notin> set s" and "CHR ''/'' \<notin> set s" and "parse_ip (trim_space s) = Some a"
    and "AllowList info = ParseIPList s" and "elems (BlockList info) = []"
    and "split_host_port r = Some (h, p)" and "parse_ip h = Some b"
  shows "ipBlocked r info \<longleftrightarrow> b \<noteq> a"
proof -
  define n where "n = \<lparr>net_ip = a,
    net_mask = (let l = (if to4 a = None then 128 else 32) in cidr_mask l l)\<rparr>"
  have "trim_space s \<noteq> ''''" using assms(3) by (auto simp: parse_ip_def parse_addr_def)
  moreover have "parse_cidr (trim_space s) = None"
    using assms(2) trim_space_subset by (intro parse_cidr_no_slash) blast
  ultimately have "elems (ParseIPList s) = [n]"
    using assms(1,3)
    by (simp add: ParseIPList_def split_on_no_sep List.map_filter_def parse_ip_entry_def n_def Let_def)
  moreover have "ipnet_contains n b \<longleftrightarrow> b = a"
    using length_parse_ip [OF assms(3)] length_parse_ip [OF assms(7)] n_def
    by (rule single_net_contains)
  ultimately show ?thesis
    using assms(4,5) by (simp add: ipBlocked_parsed [OF assms(6,7)])
qed

theorem single_allowed_client_witness:
  "ipBlocked ''10.0.0.2:40000'' (zero_info\<lparr>AllowList := ParseIPList ''10.0.0.1''\<rparr>)"
proof -
  have "parse_ip (trim_space ''10.0.0.1'') = Some (v4_in_v6_prefix @ [10, 0, 0, 1])"
    and "split_host_port ''10.0.0.2:40000'' = Some (''10.0.0.2'', ''40000'')"
    and "parse_ip ''10.0.0.2'' = Some (v4_in_v6_prefix @ [10, 0, 0, 2])"
    by code_simp+
  then show ?thesis
    by (subst single_allowed_client [of "''10.0.0.1''" "v4_in_v6_prefix @ [10, 0, 0, 1]" _
          _ "''10.0.0.2''" "''40000''" "v4_in_v6_prefix @ [10, 0, 0, 2]"])
      (simp_all add: zero_info_def)
qed



text \<open>
  The check fails open for scoped IPv6 peers. When the host part of the remote address
  carries a zone (as Go prints link-local peers, \<open>fe80::1%eth0\<close>), \<open>net.ParseIP\<close> refuses it and
  \<open>ipBlocked\<close> lets the connection through, whatever the allow-list and block-list are.
\<close>

theorem scoped_peer_never_blocked:
  assumes "split_host_port r = Some (h, p)" and "CHR 0x25 \<in> set h" and "CHR ''.'' \<notin> set h"
  shows "\<not> ipBlocked r info"
  using assms by (simp add: ipBlocked_def parse_ip_zone)

theorem scoped_peer_never_blocked_witness:
  "\<not> ipBlocked (''[fe80::1'' @ [CHR 0x25] @ ''eth0]:40000'')
       (zero_info\<lparr>AllowList := ParseIPList ''10.0.0.1''\<rparr>)"
proof (rule scoped_peer_never_blocked)
  show "split_host_port (''[fe80::1'' @ [CHR 0x25] @ ''eth0]:40000'')
          = Some (''fe80::1'' @ [CHR 0x25] @ ''eth0'', ''40000'')"
    by code_simp
qed simp_all

end
