(* ===== verification/Port_Alloc.thy ===== *)
theory Port_Alloc
  imports Target_Types
begin

text \<open>
  \<open>internal/types/portalloc.go\<close>: the allocator that gives each Traefik domain a listen port.
  The mutex makes every operation atomic, so an operation is a function on the state. The
  locale \<open>port_source\<close> is the interface the three users (Docker labels, Kubernetes
  annotations, config entries) rely on; it is interpreted on this allocator.
\<close>

subsection \<open>State and operations\<close>

record PortAllocator =
  base :: int
  claimed :: "int list"              \<comment> \<open>a set: order and repetition do not matter\<close>
  assigned :: "(string \<times> int) list"  \<comment> \<open>domain to listen port\<close>

definition NewPortAllocator :: "int \<Rightarrow> PortAllocator" where
  "NewPortAllocator b = \<lparr>base = b, claimed = [], assigned = []\<rparr>"

definition ClaimPorts :: "PortAllocator \<Rightarrow> PortMapping list \<Rightarrow> PortAllocator" where
  "ClaimPorts a ms = foldl (\<lambda>a m. a\<lparr>claimed := List.insert (ListenPort m) (claimed a)\<rparr>) a ms"

text \<open>The loop of \<open>nextFree\<close>: it ends because only finitely many ports are claimed.\<close>

function next_free_from :: "int list \<Rightarrow> int \<Rightarrow> int" where
  "next_free_from cl p = (if p \<in> set cl then next_free_from cl (p + 1) else p)"
  by pat_completeness auto
termination
proof (relation "measure (\<lambda>(cl, p). card {c \<in> set cl. p \<le> c})", goal_cases)
  case (2 cl p)
  then have "{c \<in> set cl. p + 1 \<le> c} \<subset> {c \<in> set cl. p \<le> c}" by force
  then show ?case by (simp add: psubset_card_mono)
qed simp

declare next_free_from.simps [simp del]

definition nextFree :: "PortAllocator \<Rightarrow> int" where
  "nextFree a = next_free_from (claimed a) (base a)"

definition assign_domain :: "PortAllocator \<Rightarrow> string \<Rightarrow> PortAllocator \<times> int" where
  "assign_domain a d =
     (case map_of (assigned a) d of
        Some p \<Rightarrow> (a, p)
      | None \<Rightarrow> let p = nextFree a in
          (a\<lparr>assigned := AList.update d p (assigned a), claimed := List.insert p (claimed a)\<rparr>, p))"

fun AllocatePortMappings ::
  "PortAllocator \<Rightarrow> TraefikHostSpec list \<Rightarrow> PortAllocator \<times> string list \<times> PortMapping list" where
  "AllocatePortMappings a [] = (a, [], [])"
| "AllocatePortMappings a (spec # specs) =
     (if SpecDomain spec = '''' then AllocatePortMappings a specs
      else let (a1, p) = assign_domain a (SpecDomain spec);
               (a2, hosts, mappings) = AllocatePortMappings a1 specs
           in (a2, (SpecDomain spec @ '':'' @ show_int p) # hosts,
               \<lparr>ListenPort = p, TargetPort = SpecTargetPort spec\<rparr> # mappings))"

definition AllocateForHosts ::
  "PortAllocator \<Rightarrow> TraefikHostSpec list \<Rightarrow> PortAllocator \<times> string list" where
  "AllocateForHosts a specs = (case AllocatePortMappings a specs of (a', hosts, _) \<Rightarrow> (a', hosts))"

text \<open>
  What the three converters do with the allocator: claim the explicit TCP and UDP ports, then
  allocate for the HTTP hosts and the TCP hosts, and append the new mappings to the ports.
\<close>

definition allocate_target ::
  "PortAllocator \<Rightarrow> PortMapping slice \<Rightarrow> PortMapping slice \<Rightarrow> TraefikHostSpec list
     \<Rightarrow> TraefikHostSpec list \<Rightarrow> PortAllocator \<times> PortMapping slice \<times> string list \<times> string list" where
  "allocate_target a ports udp hs ths =
     (let a1 = ClaimPorts (ClaimPorts a (elems ports)) (elems udp);
          (a2, hosts, hp) = AllocatePortMappings a1 hs;
          (a3, thosts, tp) = AllocatePortMappings a2 ths
      in (a3, append_slice (append_slice ports hp) tp, hosts, thosts))"

text \<open>The block of the converters around it, run when an allocator is wired.\<close>

definition alloc_hosts ::
  "PortAllocator option \<Rightarrow> PortMapping slice \<Rightarrow> PortMapping slice \<Rightarrow> TraefikHostSpec list \<Rightarrow> TraefikHostSpec list
     \<Rightarrow> PortAllocator option \<times> PortMapping slice \<times> string slice \<times> string slice" where
  "alloc_hosts alloc ports udp hs ths =
     (case alloc of None \<Rightarrow> (None, ports, None, None)
      | Some a \<Rightarrow> (case allocate_target a ports udp hs ths of (a', ports', hosts, thosts) \<Rightarrow>
          (Some a', ports', Some hosts, Some thosts)))"

subsection \<open>The invariant\<close>

definition alloc_ok :: "PortAllocator \<Rightarrow> bool" where
  "alloc_ok a \<longleftrightarrow>
     keys_distinct (assigned a) \<and> inj_on snd (set (assigned a)) \<and>
     snd ` set (assigned a) \<subseteq> set (claimed a) \<and>
     (\<forall>p \<in> snd ` set (assigned a). base a \<le> p)"

definition port_of :: "PortAllocator \<Rightarrow> string \<Rightarrow> int option" where
  "port_of a d = map_of (assigned a) d"

lemma next_free_from_free: "next_free_from cl p \<notin> set cl \<and> p \<le> next_free_from cl p"
proof (induction cl p rule: next_free_from.induct)
  case (1 cl p)
  then show ?case by (subst (1 2) next_free_from.simps) auto
qed

lemma next_free_from_least: "p \<le> q \<Longrightarrow> q < next_free_from cl p \<Longrightarrow> q \<in> set cl"
proof (induction cl p rule: next_free_from.induct)
  case (1 cl p)
  show ?case
  proof (cases "p \<in> set cl")
    case True
    with 1 show ?thesis by (cases "q = p") (auto simp: next_free_from.simps [of cl p])
  next
    case False
    with "1.prems" show ?thesis by (simp add: next_free_from.simps [of cl p])
  qed
qed

lemma nextFree_bound: "nextFree a \<le> base a + int (card (set (claimed a)))"
proof -
  have "{base a ..< nextFree a} \<subseteq> set (claimed a)"
    unfolding nextFree_def using next_free_from_least by fastforce
  then have "card {base a ..< nextFree a} \<le> card (set (claimed a))" by (intro card_mono) auto
  then show ?thesis by simp
qed

lemma ClaimPorts_fields [simp, frame]:
  "base (ClaimPorts a ms) = base a" "assigned (ClaimPorts a ms) = assigned a"
  "set (claimed (ClaimPorts a ms)) = set (claimed a) \<union> ListenPort ` set ms"
  unfolding ClaimPorts_def by (induction ms arbitrary: a) auto

lemma ClaimPorts_port_of [simp, frame]: "port_of (ClaimPorts a ms) = port_of a"
  by (simp add: port_of_def fun_eq_iff)

lemma ClaimPorts_ok [keeps]: "alloc_ok a \<Longrightarrow> alloc_ok (ClaimPorts a ms)"
  by (auto simp: alloc_ok_def)

lemma set_update_fresh:
  "map_of m k = None \<Longrightarrow> set (AList.update k v m) = insert (k, v) (set m)"
  by (induction m) (auto split: if_splits)

lemma assign_domain_spec:
  assumes "assign_domain a d = (a', p)"
  shows "port_of a' = (port_of a)(d \<mapsto> p)"
    and "base a' = base a"
    and "set (claimed a) \<subseteq> set (claimed a')"
    and "port_of a d = None \<Longrightarrow> p = nextFree a \<and> p \<notin> set (claimed a)"
    and "alloc_ok a \<Longrightarrow> alloc_ok a'"
    and "alloc_ok a \<Longrightarrow> p \<in> set (claimed a')"
proof -
  have free: "nextFree a \<notin> set (claimed a)" "base a \<le> nextFree a"
    using next_free_from_free by (auto simp: nextFree_def)
  show "port_of a' = (port_of a)(d \<mapsto> p)"
    using assms by (auto simp: assign_domain_def port_of_def update_conv' fun_eq_iff Let_def
        split: option.splits)
  show "base a' = base a" and "set (claimed a) \<subseteq> set (claimed a')"
    using assms by (auto simp: assign_domain_def Let_def split: option.splits)
  show "p = nextFree a \<and> p \<notin> set (claimed a)" if "port_of a d = None"
    using assms that free by (auto simp: assign_domain_def port_of_def Let_def)
  show "alloc_ok a'" if ok: "alloc_ok a"
  proof (cases "map_of (assigned a) d")
    case None
    with assms have a': "a' = a\<lparr>assigned := AList.update d (nextFree a) (assigned a),
        claimed := List.insert (nextFree a) (claimed a)\<rparr>"
      by (auto simp: assign_domain_def Let_def)
    have "nextFree a \<notin> snd ` set (assigned a)" using ok free by (auto simp: alloc_ok_def)
    with ok free None show ?thesis
      by (auto simp: a' alloc_ok_def set_update_fresh inj_on_insert image_iff)
  qed (use assms ok in \<open>simp add: assign_domain_def\<close>)
  show "p \<in> set (claimed a')" if "alloc_ok a"
    using assms that
    by (auto simp: assign_domain_def alloc_ok_def Let_def split: option.splits dest!: map_of_SomeD)
qed

lemma Allocate_mono:
  assumes "AllocatePortMappings a specs = (a', hosts, ms)"
  shows "port_of a \<subseteq>\<^sub>m port_of a' \<and> base a' = base a \<and> set (claimed a) \<subseteq> set (claimed a')"
  using assms
proof (induction specs arbitrary: a a' hosts ms)
  case (Cons spec specs)
  show ?case
  proof (cases "SpecDomain spec = ''''")
    case False
    obtain a1 p where s: "assign_domain a (SpecDomain spec) = (a1, p)" by fastforce
    obtain a2 hs ps where r: "AllocatePortMappings a1 specs = (a2, hs, ps)" by (metis prod_cases3)
    have "port_of a \<subseteq>\<^sub>m port_of a1"
      using assign_domain_spec(1) [OF s] s
      by (auto simp: map_le_def assign_domain_def port_of_def split: option.splits)
    with Cons.IH [OF r] assign_domain_spec(2,3) [OF s] Cons.prems s r False show ?thesis
      by (auto intro: map_le_trans)
  qed (use Cons in auto)
qed simp

lemma Allocate_ok:
  assumes "AllocatePortMappings a specs = (a', hosts, ms)" and "alloc_ok a"
  shows "alloc_ok a'"
  using assms
proof (induction specs arbitrary: a a' hosts ms)
  case (Cons spec specs)
  show ?case
  proof (cases "SpecDomain spec = []")
    case False
    obtain a1 p where s: "assign_domain a (SpecDomain spec) = (a1, p)" by fastforce
    obtain a2 hs ps where r: "AllocatePortMappings a1 specs = (a2, hs, ps)" by (metis prod_cases3)
    have "alloc_ok a2" using assign_domain_spec(5) [OF s] Cons.prems(2) Cons.IH [OF r] by blast
    with Cons.prems(1) s r False show ?thesis by simp
  qed (use Cons in auto)
qed simp

text \<open>The result of an allocation is determined by the final assignment.\<close>

definition served :: "TraefikHostSpec list \<Rightarrow> TraefikHostSpec list" where
  "served specs = filter (\<lambda>s. SpecDomain s \<noteq> '''') specs"

lemma Allocate_result:
  assumes "AllocatePortMappings a specs = (a', hosts, ms)"
  shows "hosts = map (\<lambda>s. SpecDomain s @ '':'' @ show_int (the (port_of a' (SpecDomain s)))) (served specs)
     \<and> ms = map (\<lambda>s. \<lparr>ListenPort = the (port_of a' (SpecDomain s)), TargetPort = SpecTargetPort s\<rparr>) (served specs)
     \<and> (\<forall>s \<in> set (served specs). port_of a' (SpecDomain s) \<noteq> None)"
  using assms
proof (induction specs arbitrary: a a' hosts ms)
  case (Cons spec specs)
  show ?case
  proof (cases "SpecDomain spec = ''''")
    case False
    obtain a1 p where s: "assign_domain a (SpecDomain spec) = (a1, p)" by fastforce
    obtain a2 hs ps where r: "AllocatePortMappings a1 specs = (a2, hs, ps)" by (metis prod_cases3)
    have "port_of a1 (SpecDomain spec) = Some p" using assign_domain_spec(1) [OF s] by simp
    then have "port_of a2 (SpecDomain spec) = Some p"
      using Allocate_mono [OF r] map_le_Some by fast
    with Cons.IH [OF r] Cons.prems s r False show ?thesis by (auto simp: served_def)
  qed (use Cons in \<open>auto simp: served_def\<close>)
qed (simp add: served_def)

lemma Allocate_fresh:
  assumes "AllocatePortMappings a specs = (a', hosts, ms)"
    and "port_of a d = None" and "port_of a' d = Some p"
  shows "p \<notin> set (claimed a)"
  using assms
proof (induction specs arbitrary: a a' hosts ms)
  case (Cons spec specs)
  show ?case
  proof (cases "SpecDomain spec = []")
    case False
    obtain a1 q where s: "assign_domain a (SpecDomain spec) = (a1, q)" by fastforce
    obtain a2 hs ps where r: "AllocatePortMappings a1 specs = (a2, hs, ps)" by (metis prod_cases3)
    have a2: "a2 = a'" using Cons.prems(1) s r False by simp
    show ?thesis
    proof (cases "d = SpecDomain spec")
      case True
      then have "port_of a1 d = Some q" and "q \<notin> set (claimed a)"
        using assign_domain_spec(1,4) [OF s] Cons.prems(2) by auto
      then show ?thesis
        using Allocate_mono [OF r] Cons.prems(3) a2 by (force simp: map_le_def)
    next
      case False
      then have "port_of a1 d = None" using assign_domain_spec(1) [OF s] Cons.prems(2) by simp
      with Cons.IH [OF r] Cons.prems(3) a2 have "p \<notin> set (claimed a1)" by simp
      then show ?thesis using assign_domain_spec(3) [OF s] by blast
    qed
  qed (use Cons in auto)
qed simp

lemma Allocate_all_assigned:
  assumes "\<And>s. s \<in> set (served specs) \<Longrightarrow> port_of a (SpecDomain s) \<noteq> None"
  shows "fst (AllocatePortMappings a specs) = a"
  using assms
proof (induction specs)
  case (Cons spec specs)
  have "assign_domain a (SpecDomain spec) = (a, the (port_of a (SpecDomain spec)))"
    if "SpecDomain spec \<noteq> []"
    using Cons.prems [of spec] that by (auto simp: served_def assign_domain_def port_of_def)
  with Cons show ?case by (auto simp: served_def split: prod.splits)
qed simp

lemma port_of_taken: "alloc_ok a \<Longrightarrow> port_of a d = Some p \<Longrightarrow> p \<in> set (claimed a)"
  by (auto simp: alloc_ok_def port_of_def dest!: map_of_SomeD)

lemma port_of_inj:
  assumes "alloc_ok a" and "port_of a d = Some p" and "port_of a e = Some p"
  shows "d = e"
proof -
  have "(d, p) \<in> set (assigned a)" "(e, p) \<in> set (assigned a)"
    using assms(2,3) by (auto simp: port_of_def dest: map_of_SomeD)
  with assms(1) have "(d, p) = (e, p)" unfolding alloc_ok_def by (metis inj_onD snd_conv)
  then show ?thesis by simp
qed

subsection \<open>The interface the converters use\<close>

locale port_source =
  fixes claim :: "'a \<Rightarrow> PortMapping list \<Rightarrow> 'a"
    and alloc :: "'a \<Rightarrow> TraefikHostSpec list \<Rightarrow> 'a \<times> string list \<times> PortMapping list"
    and port :: "'a \<Rightarrow> string \<Rightarrow> int option"
    and taken :: "'a \<Rightarrow> int set"
    and ok :: "'a \<Rightarrow> bool"
  assumes claim_ok: "ok a \<Longrightarrow> ok (claim a ms)"
    and claim_port: "port (claim a ms) = port a"
    and claim_taken: "taken (claim a ms) = taken a \<union> ListenPort ` set ms"
    and alloc_ok: "alloc a specs = (a', hosts, ms) \<Longrightarrow> ok a \<Longrightarrow> ok a'"
    and alloc_stable: "alloc a specs = (a', hosts, ms) \<Longrightarrow> port a \<subseteq>\<^sub>m port a'"
    and alloc_taken: "alloc a specs = (a', hosts, ms) \<Longrightarrow> taken a \<subseteq> taken a'"
    and alloc_fresh: "alloc a specs = (a', hosts, ms) \<Longrightarrow> port a d = None \<Longrightarrow> port a' d = Some p
      \<Longrightarrow> p \<notin> taken a"
    and alloc_mapping: "alloc a specs = (a', hosts, ms) \<Longrightarrow> m \<in> set ms
      \<Longrightarrow> \<exists>d. port a' d = Some (ListenPort m)"
begin

lemma alloc_mapping_known_or_fresh:
  assumes "alloc a specs = (a', hosts, ms)" and "m \<in> set ms"
  shows "(\<exists>d. port a d = Some (ListenPort m)) \<or> ListenPort m \<notin> taken a"
proof -
  obtain d where d: "port a' d = Some (ListenPort m)" using alloc_mapping [OF assms] by blast
  show ?thesis
  proof (cases "port a d")
    case None
    with alloc_fresh [OF assms(1) _ d] show ?thesis by blast
  next
    case (Some q)
    then have "port a' d = Some q" using alloc_stable [OF assms(1)] map_le_Some by fast
    with Some d show ?thesis by auto
  qed
qed

lemma claim_then_alloc:
  assumes "alloc (claim (claim a ps) us) hs = (a2, hosts, hp)" and "alloc a2 ths = (a3, thosts, tp)"
    and "ok a"
  shows "ok a3" and "port a \<subseteq>\<^sub>m port a3"
    and "m \<in> set hp \<union> set tp \<Longrightarrow> ListenPort m \<in> ListenPort ` (set ps \<union> set us)
           \<Longrightarrow> \<exists>d. port a d = Some (ListenPort m)"
proof -
  let ?a1 = "claim (claim a ps) us"
  have ok1: "ok ?a1" using assms(3) by (simp add: claim_ok)
  show "ok a3" using alloc_ok [OF assms(2) alloc_ok [OF assms(1) ok1]] .
  have p1: "port ?a1 = port a" by (simp add: claim_port)
  show "port a \<subseteq>\<^sub>m port a3"
    using alloc_stable [OF assms(1)] alloc_stable [OF assms(2)] p1 by (metis map_le_trans)
  assume m: "m \<in> set hp \<union> set tp" "ListenPort m \<in> ListenPort ` (set ps \<union> set us)"
  then have t1: "ListenPort m \<in> taken ?a1" by (auto simp: claim_taken)
  have *: "\<exists>d. port a d = Some (ListenPort m)"
    if "port a2 d = Some (ListenPort m)" for d
  proof (cases "port ?a1 d")
    case None
    with alloc_fresh [OF assms(1) _ that] t1 show ?thesis by blast
  next
    case (Some q)
    then have "port a2 d = Some q" using alloc_stable [OF assms(1)] map_le_Some by fast
    with Some that p1 show ?thesis by auto
  qed
  show "\<exists>d. port a d = Some (ListenPort m)"
  proof (cases "m \<in> set hp")
    case True
    with alloc_mapping [OF assms(1)] * show ?thesis by blast
  next
    case False
    with m have "m \<in> set tp" by simp
    with alloc_mapping_known_or_fresh [OF assms(2)] alloc_taken [OF assms(1)] t1 *
    show ?thesis by blast
  qed
qed

end

interpretation pa: port_source ClaimPorts AllocatePortMappings port_of "\<lambda>a. set (claimed a)" alloc_ok
proof unfold_locales
  fix a a' specs hosts ms m
  assume r: "AllocatePortMappings a specs = (a', hosts, ms)" and m: "m \<in> set ms"
  then obtain s where s: "s \<in> set (served specs)" "ListenPort m = the (port_of a' (SpecDomain s))"
    using Allocate_result [OF r] by auto
  with Allocate_result [OF r] have "port_of a' (SpecDomain s) = Some (ListenPort m)" by force
  then show "\<exists>d. port_of a' d = Some (ListenPort m)" ..
qed (auto simp: ClaimPorts_ok dest: Allocate_ok Allocate_mono Allocate_fresh)

subsection \<open>Properties\<close>

inductive alloc_reach :: "int \<Rightarrow> PortAllocator \<Rightarrow> bool" for b where
  new: "alloc_reach b (NewPortAllocator b)"
| claim: "alloc_reach b a \<Longrightarrow> alloc_reach b (ClaimPorts a ms)"
| allocate: "alloc_reach b a \<Longrightarrow> alloc_reach b (fst (AllocatePortMappings a specs))"

lemma alloc_reach_ok: "alloc_reach b a \<Longrightarrow> alloc_ok a \<and> base a = b"
proof (induction rule: alloc_reach.induct)
  case new
  show ?case by (simp add: NewPortAllocator_def alloc_ok_def)
next
  case (claim a ms)
  then show ?case by (simp add: ClaimPorts_ok)
next
  case (allocate a specs)
  obtain a' h m where "AllocatePortMappings a specs = (a', h, m)" by (metis prod_cases3)
  with allocate show ?case using Allocate_ok Allocate_mono by fastforce
qed



text \<open>
  \<open>nextFree\<close> returns the least port at or above the base that is not claimed, and it is at
  most the base plus the number of claimed ports; in particular the search always ends.
\<close>

theorem nextFree_is_least_free:
  "nextFree a \<notin> set (claimed a) \<and> base a \<le> nextFree a
   \<and> {base a ..< nextFree a} \<subseteq> set (claimed a)
   \<and> nextFree a \<le> base a + int (card (set (claimed a)))"
proof -
  have "{base a ..< nextFree a} \<subseteq> set (claimed a)"
    unfolding nextFree_def using next_free_from_least by fastforce
  then show ?thesis using next_free_from_free nextFree_bound by (simp add: nextFree_def)
qed

text \<open>
  Re-registering the same Traefik hosts is stable: allocating the same specs again returns
  the same \<open>domain:port\<close> strings and the same mappings and leaves the allocator unchanged.
\<close>

theorem reallocation_is_stable:
  assumes "AllocatePortMappings a specs = (a', hosts, ms)"
  shows "AllocatePortMappings a' specs = (a', hosts, ms)"
proof -
  obtain a2 h2 m2 where r: "AllocatePortMappings a' specs = (a2, h2, m2)" by (metis prod_cases3)
  have "a2 = a'"
    using Allocate_all_assigned [of specs a'] Allocate_result [OF assms] r by simp
  with Allocate_result [OF assms] Allocate_result [OF r] r show ?thesis by simp
qed

theorem reallocation_is_stable_witness:
  "\<exists>a'. AllocatePortMappings (NewPortAllocator 8000) [\<lparr>SpecDomain = ''a.test'', SpecTargetPort = 80\<rparr>]
          = (a', [''a.test:8000''], [\<lparr>ListenPort = 8000, TargetPort = 80\<rparr>])
      \<and> AllocatePortMappings a' [\<lparr>SpecDomain = ''a.test'', SpecTargetPort = 80\<rparr>]
          = (a', [''a.test:8000''], [\<lparr>ListenPort = 8000, TargetPort = 80\<rparr>])"
proof -
  have "AllocatePortMappings (NewPortAllocator 8000) [\<lparr>SpecDomain = ''a.test'', SpecTargetPort = 80\<rparr>]
      = (\<lparr>base = 8000, claimed = [8000], assigned = [(''a.test'', 8000)]\<rparr>, [''a.test:8000''],
         [\<lparr>ListenPort = 8000, TargetPort = 80\<rparr>])"
    by (simp add: NewPortAllocator_def assign_domain_def nextFree_def next_free_from.simps show_eval)
  then show ?thesis using reallocation_is_stable by blast
qed

text \<open>
  The sequence every converter runs (claim the explicit ports, allocate for the HTTP hosts,
  allocate for the TCP hosts) keeps earlier assignments and the allocator's invariant, and a
  dynamically added mapping never takes one of the target's own explicit ports, unless that
  port had already been assigned to the domain before the claim.
\<close>

theorem dynamic_ports_avoid_explicit:
  assumes "allocate_target a ports udp hs ths = (a', ports', hosts, thosts)" and "alloc_ok a"
  shows "alloc_ok a' \<and> port_of a \<subseteq>\<^sub>m port_of a'
    \<and> (\<exists>new. elems ports' = elems ports @ new
         \<and> (\<forall>m \<in> set new. ListenPort m \<in> ListenPort ` (set (elems ports) \<union> set (elems udp))
               \<longrightarrow> (\<exists>d. port_of a d = Some (ListenPort m))))"
proof -
  obtain a2 hosts2 hp where r1:
    "AllocatePortMappings (ClaimPorts (ClaimPorts a (elems ports)) (elems udp)) hs = (a2, hosts2, hp)"
    by (metis prod_cases3)
  obtain a3 thosts2 tp where r2: "AllocatePortMappings a2 ths = (a3, thosts2, tp)"
    by (metis prod_cases3)
  have "a3 = a'" and "elems ports' = elems ports @ (hp @ tp)"
    using assms(1) r1 r2 by (auto simp: allocate_target_def)
  with pa.claim_then_alloc [OF r1 r2 assms(2)] show ?thesis by auto
qed

theorem dynamic_ports_avoid_explicit_witness:
  "\<exists>a'. allocate_target (NewPortAllocator 8000) (Some [\<lparr>ListenPort = 8000, TargetPort = 80\<rparr>]) None
          [\<lparr>SpecDomain = ''a.test'', SpecTargetPort = 81\<rparr>] []
        = (a', Some [\<lparr>ListenPort = 8000, TargetPort = 80\<rparr>, \<lparr>ListenPort = 8001, TargetPort = 81\<rparr>],
           [''a.test:8001''], [])
      \<and> alloc_ok a'"
proof -
  have "allocate_target (NewPortAllocator 8000) (Some [\<lparr>ListenPort = 8000, TargetPort = 80\<rparr>]) None
          [\<lparr>SpecDomain = ''a.test'', SpecTargetPort = 81\<rparr>] []
        = (\<lparr>base = 8000, claimed = [8001, 8000], assigned = [(''a.test'', 8001)]\<rparr>,
           Some [\<lparr>ListenPort = 8000, TargetPort = 80\<rparr>, \<lparr>ListenPort = 8001, TargetPort = 81\<rparr>],
           [''a.test:8001''], [])" (is "_ = (?a, _)")
    by (simp add: allocate_target_def NewPortAllocator_def ClaimPorts_def assign_domain_def
        nextFree_def next_free_from.simps show_eval append_slice_def)
  moreover have "alloc_ok (NewPortAllocator 8000)" by (simp add: NewPortAllocator_def alloc_ok_def)
  ultimately show ?thesis using dynamic_ports_avoid_explicit by blast
qed

subsection \<open>The allocator across components\<close>

text \<open>
  A wired allocator stays wired and consistent and forgets no assignment: what every user of the
  shared allocator keeps.
\<close>

definition alloc_grows :: "PortAllocator option \<Rightarrow> PortAllocator option \<Rightarrow> bool" where
  "alloc_grows alloc alloc' \<longleftrightarrow>
     (case alloc of None \<Rightarrow> alloc' = None
      | Some a \<Rightarrow> \<exists>a'. alloc' = Some a' \<and> (alloc_ok a \<longrightarrow> alloc_ok a' \<and> port_of a \<subseteq>\<^sub>m port_of a'))"

lemma alloc_grows_refl [simp]: "alloc_grows alloc alloc"
  by (simp add: alloc_grows_def split: option.split)

lemma alloc_grows_trans: "alloc_grows a b \<Longrightarrow> alloc_grows b c \<Longrightarrow> alloc_grows a c"
  by (auto simp: alloc_grows_def split: option.splits intro: map_le_trans)

lemma alloc_grows_fold:
  assumes "\<And>st x. alloc_grows (fst st) (fst (step st x))"
  shows "alloc_grows (fst st) (fst (foldl step st xs))"
proof (induction xs arbitrary: st)
  case (Cons x xs)
  show ?case using alloc_grows_trans [OF assms Cons.IH [of "step st x"]] by simp
qed simp

lemma alloc_hosts_grows: "alloc_hosts alloc ports udp hs ths = (alloc', r) \<Longrightarrow> alloc_grows alloc alloc'"
  using dynamic_ports_avoid_explicit
  by (auto simp: alloc_hosts_def alloc_grows_def split: option.splits prod.splits)

text \<open>The explicit ports of a target stay among its ports.\<close>

lemma alloc_hosts_ports:
  "alloc_hosts alloc ports udp hs ths = (alloc', ports', hosts, thosts) \<Longrightarrow> set (elems ports) \<subseteq> set (elems ports')"
  by (auto simp: alloc_hosts_def allocate_target_def Let_def append_slice_def elems_def split: option.splits prod.splits if_splits)

end
