(* ===== verification/Cron_Scheduler.thy ===== *)
theory Cron_Scheduler
  imports Target_Types
begin

text \<open>
  \<open>internal/scheduler/scheduler.go\<close>: per-target cron jobs. The cron library (robfig/cron) is not
  part of the repository: its state \<open>'c\<close> and its operations \<open>add\<close> (\<open>AddFunc\<close>, \<open>None\<close> when the
  expression does not parse), \<open>rem\<close> (\<open>Remove\<close>) and the table view \<open>jobs\<close> are arguments, and
  \<open>cron_library_ok\<close> (with \<open>valid\<close>, the expressions that parse) states the documented behaviour the scheduler relies on.
\<close>

subsection \<open>State and operations\<close>

datatype cron_job = StartJob (job_target: string) string | StopJob (job_target: string) string

type_synonym entry_id = nat

record 'c Scheduler =
  cron :: 'c
  entries :: "(string \<times> entry_id list) list"

definition New_Scheduler :: "'c \<Rightarrow> 'c Scheduler" where
  "New_Scheduler c = \<lparr>cron = c, entries = []\<rparr>"

definition unregisterLocked ::
  "('c \<Rightarrow> entry_id \<Rightarrow> 'c) \<Rightarrow> 'c Scheduler \<Rightarrow> string \<Rightarrow> 'c Scheduler" where
  "unregisterLocked rem s targetID =
     (case map_of (entries s) targetID of
        None \<Rightarrow> s
      | Some ids \<Rightarrow> s\<lparr>cron := foldl rem (cron s) ids, entries := AList.delete targetID (entries s)\<rparr>)"

definition Unregister ::
  "('c \<Rightarrow> entry_id \<Rightarrow> 'c) \<Rightarrow> 'c Scheduler \<Rightarrow> string \<Rightarrow> 'c Scheduler" where
  "Unregister rem s targetID = unregisterLocked rem s targetID"

definition add_job ::
  "('c \<Rightarrow> string \<Rightarrow> cron_job \<Rightarrow> ('c \<times> entry_id) option) \<Rightarrow> string \<Rightarrow> cron_job
     \<Rightarrow> 'c \<times> entry_id list \<Rightarrow> 'c \<times> entry_id list" where
  "add_job add expr job cs =
     (case cs of (c, ids) \<Rightarrow>
        if expr = '''' then (c, ids)
        else case add c expr job of None \<Rightarrow> (c, ids) | Some (c', i) \<Rightarrow> (c', ids @ [i]))"

definition Register ::
  "('c \<Rightarrow> string \<Rightarrow> cron_job \<Rightarrow> ('c \<times> entry_id) option) \<Rightarrow> ('c \<Rightarrow> entry_id \<Rightarrow> 'c)
     \<Rightarrow> 'c Scheduler \<Rightarrow> TargetInfo \<Rightarrow> 'c Scheduler" where
  "Register add rem s info =
     (if CronStart info = '''' \<and> CronStop info = '''' then s
      else
        let s1 = unregisterLocked rem s (ContainerID info);
            cs1 = add_job add (CronStart info) (StartJob (ContainerID info) (ContainerName info)) (cron s1, []);
            (c, ids) = add_job add (CronStop info) (StopJob (ContainerID info) (ContainerName info)) cs1
        in if ids \<noteq> [] then s1\<lparr>cron := c, entries := AList.update (ContainerID info) ids (entries s1)\<rparr>
           else s1\<lparr>cron := c\<rparr>)"

subsection \<open>What the cron library promises\<close>

definition cron_library_ok ::
  "('c \<Rightarrow> string \<Rightarrow> cron_job \<Rightarrow> ('c \<times> entry_id) option) \<Rightarrow> ('c \<Rightarrow> entry_id \<Rightarrow> 'c)
     \<Rightarrow> ('c \<Rightarrow> entry_id \<Rightarrow> (string \<times> cron_job) option) \<Rightarrow> (string \<Rightarrow> bool) \<Rightarrow> bool" where
  "cron_library_ok add rem jobs valid \<longleftrightarrow>
     (\<forall>c e j c' i. add c e j = Some (c', i) \<longrightarrow> jobs c i = None \<and> jobs c' = (jobs c)(i \<mapsto> (e, j))) \<and>
     (\<forall>c e j. add c e j = None \<longleftrightarrow> \<not> valid e) \<and>
     (\<forall>c i. jobs (rem c i) = (jobs c)(i := None))"

subsection \<open>Invariant and abstract view\<close>

text \<open>
  The jobs in the cron table are exactly those the entry map lists, under the target they act
  on: none is leaked, none is listed under another target.
\<close>

definition owned :: "'c Scheduler \<Rightarrow> entry_id \<Rightarrow> string \<Rightarrow> bool" where
  "owned s i t \<longleftrightarrow> (\<exists>ids. map_of (entries s) t = Some ids \<and> i \<in> set ids)"

definition job_owner ::
  "('c \<Rightarrow> entry_id \<Rightarrow> (string \<times> cron_job) option) \<Rightarrow> 'c \<Rightarrow> entry_id \<Rightarrow> string option" where
  "job_owner jobs c i = map_option (\<lambda>(e, j). job_target j) (jobs c i)"

definition sched_ok ::
  "('c \<Rightarrow> entry_id \<Rightarrow> (string \<times> cron_job) option) \<Rightarrow> 'c Scheduler \<Rightarrow> bool" where
  "sched_ok jobs s \<longleftrightarrow>
     keys_distinct (entries s) \<and> (\<forall>i t. owned s i t \<longleftrightarrow> job_owner jobs (cron s) i = Some t)"

definition schedule_of ::
  "('c \<Rightarrow> entry_id \<Rightarrow> (string \<times> cron_job) option) \<Rightarrow> 'c Scheduler \<Rightarrow> string \<Rightarrow> (string \<times> cron_job) set" where
  "schedule_of jobs s t = {(e, j). job_target j = t \<and> (\<exists>i. jobs (cron s) i = Some (e, j))}"

text \<open>The schedule a registration asks for: the expressions the library accepts.\<close>

definition wanted_jobs :: "TargetInfo \<Rightarrow> (string \<times> cron_job) set" where
  "wanted_jobs info =
     (if CronStart info = '''' then {} else {(CronStart info, StartJob (ContainerID info) (ContainerName info))})
     \<union> (if CronStop info = '''' then {} else {(CronStop info, StopJob (ContainerID info) (ContainerName info))})"

lemma jobs_foldl_rem:
  assumes "cron_library_ok add rem jobs valid"
  shows "jobs (foldl rem c ids) = (\<lambda>i. if i \<in> set ids then None else jobs c i)"
  using assms by (induction ids arbitrary: c) (auto simp: cron_library_ok_def fun_eq_iff)

lemma unregister_frame:
  assumes lib: "cron_library_ok add rem jobs valid" and ok: "sched_ok jobs s"
  shows "entries (unregisterLocked rem s t) = AList.delete t (entries s)"
    and "jobs (cron (unregisterLocked rem s t))
         = (\<lambda>i. if job_owner jobs (cron s) i = Some t then None else jobs (cron s) i)"
proof -
  have own: "owned s i t \<longleftrightarrow> job_owner jobs (cron s) i = Some t" for i
    using ok by (simp add: sched_ok_def)
  show "entries (unregisterLocked rem s t) = AList.delete t (entries s)"
    by (auto simp: unregisterLocked_def delete_id map_of_eq_None_iff split: option.splits)
  show "jobs (cron (unregisterLocked rem s t))
         = (\<lambda>i. if job_owner jobs (cron s) i = Some t then None else jobs (cron s) i)"
  proof (cases "map_of (entries s) t")
    case None
    then have "\<not> owned s i t" for i by (simp add: owned_def)
    with own None show ?thesis by (simp add: unregisterLocked_def)
  next
    case (Some ids)
    then have "owned s i t \<longleftrightarrow> i \<in> set ids" for i by (simp add: owned_def)
    with own Some show ?thesis by (simp add: unregisterLocked_def jobs_foldl_rem [OF lib])
  qed
qed

lemma owned_delete:
  "entries s' = AList.delete t (entries s) \<Longrightarrow> owned s' i u \<longleftrightarrow> u \<noteq> t \<and> owned s i u"
  by (auto simp: owned_def delete_conv')

lemma unregister_ok:
  assumes lib: "cron_library_ok add rem jobs valid" and ok: "sched_ok jobs s"
  shows "sched_ok jobs (unregisterLocked rem s t)"
proof -
  note f = unregister_frame [OF assms]
  have "owned (unregisterLocked rem s t) i u \<longleftrightarrow> u \<noteq> t \<and> owned s i u" for i u
    using f(1) by (rule owned_delete)
  with ok show ?thesis
    unfolding sched_ok_def f(1) by (auto simp: job_owner_def f(2) split: if_splits)
qed

lemma add_job_spec:
  assumes lib: "cron_library_ok add rem jobs valid" and r: "add_job add expr job (c, ids) = (c', ids')"
  shows "\<exists>new. ids' = ids @ new \<and> (new \<noteq> [] \<longleftrightarrow> expr \<noteq> [] \<and> valid expr)
    \<and> (\<forall>i \<in> set new. jobs c i = None)
    \<and> jobs c' = (\<lambda>i. if i \<in> set new then Some (expr, job) else jobs c i)"
proof (cases "expr = [] \<or> add c expr job = None")
  case True
  then have "c' = c" "ids' = ids" using r by (auto simp: add_job_def split: if_splits)
  moreover have "\<not> (expr \<noteq> [] \<and> valid expr)"
    using True lib unfolding cron_library_ok_def by blast
  ultimately show ?thesis by auto
next
  case False
  then obtain c1 i where a: "add c expr job = Some (c1, i)" by auto
  with False r have "c' = c1" "ids' = ids @ [i]" by (auto simp: add_job_def)
  moreover have "jobs c i = None" "jobs c1 = (jobs c)(i \<mapsto> (expr, job))" "valid expr"
    using lib a unfolding cron_library_ok_def by (blast, blast, metis option.distinct(1))
  ultimately show ?thesis using False by (intro exI [of _ "[i]"]) auto
qed

text \<open>One \<open>Register\<close> of a target with a schedule, as a change of the job table and of the entries.\<close>

lemma Register_spec:
  assumes lib: "cron_library_ok add rem jobs valid" and ok: "sched_ok jobs s"
    and some: "CronStart info \<noteq> [] \<or> CronStop info \<noteq> []"
  defines "t \<equiv> ContainerID info" and "s' \<equiv> Register add rem s info"
  shows "\<exists>xs ys. (xs \<noteq> [] \<longleftrightarrow> CronStart info \<noteq> [] \<and> valid (CronStart info))
    \<and> (ys \<noteq> [] \<longleftrightarrow> CronStop info \<noteq> [] \<and> valid (CronStop info))
    \<and> (\<forall>i \<in> set xs \<union> set ys. job_owner jobs (cron s) i \<in> {None, Some t})
    \<and> set xs \<inter> set ys = {}
    \<and> jobs (cron s') = (\<lambda>i. if i \<in> set ys then Some (CronStop info, StopJob t (ContainerName info))
         else if i \<in> set xs then Some (CronStart info, StartJob t (ContainerName info))
         else if job_owner jobs (cron s) i = Some t then None else jobs (cron s) i)
    \<and> keys_distinct (entries s')
    \<and> map_of (entries s') = (map_of (entries s))(t := if xs @ ys = [] then None else Some (xs @ ys))"
proof -
  define s1 where "s1 = unregisterLocked rem s t"
  obtain c1 ids1 where a1:
    "add_job add (CronStart info) (StartJob t (ContainerName info)) (cron s1, []) = (c1, ids1)"
    by fastforce
  obtain c2 ids2 where a2:
    "add_job add (CronStop info) (StopJob t (ContainerName info)) (c1, ids1) = (c2, ids2)"
    by fastforce
  have s': "s' = (if ids2 \<noteq> [] then s1\<lparr>cron := c2, entries := AList.update t ids2 (entries s1)\<rparr>
                  else s1\<lparr>cron := c2\<rparr>)"
    using some a1 a2 by (auto simp: s'_def Register_def s1_def t_def Let_def)
  obtain xs where x: "ids1 = xs" "xs \<noteq> [] \<longleftrightarrow> CronStart info \<noteq> [] \<and> valid (CronStart info)"
    "\<forall>i \<in> set xs. jobs (cron s1) i = None"
    "jobs c1 = (\<lambda>i. if i \<in> set xs then Some (CronStart info, StartJob t (ContainerName info)) else jobs (cron s1) i)"
    using add_job_spec [OF lib a1] by auto
  obtain ys where y: "ids2 = xs @ ys" "ys \<noteq> [] \<longleftrightarrow> CronStop info \<noteq> [] \<and> valid (CronStop info)"
    "\<forall>i \<in> set ys. jobs c1 i = None"
    "jobs c2 = (\<lambda>i. if i \<in> set ys then Some (CronStop info, StopJob t (ContainerName info)) else jobs c1 i)"
    using add_job_spec [OF lib a2] x(1) by auto
  note f = unregister_frame [OF lib ok, of t, folded s1_def]
  have disj: "set xs \<inter> set ys = {}" using y(3) x(4) by (auto split: if_splits)
  have fresh: "job_owner jobs (cron s) i \<in> {None, Some t}" if "i \<in> set xs \<union> set ys" for i
  proof -
    have "jobs (cron s1) i = None"
    proof (cases "i \<in> set xs")
      case True
      with x(3) show ?thesis by blast
    next
      case False
      with that have "jobs c1 i = None" using y(3) by blast
      with False show ?thesis by (simp add: x(4))
    qed
    then show ?thesis by (auto simp: f(2) job_owner_def split: if_splits)
  qed
  have "cron s' = c2" by (simp add: s')
  have "jobs (cron s') = (\<lambda>i. if i \<in> set ys then Some (CronStop info, StopJob t (ContainerName info))
         else if i \<in> set xs then Some (CronStart info, StartJob t (ContainerName info))
         else if job_owner jobs (cron s) i = Some t then None else jobs (cron s) i)"
    unfolding \<open>cron s' = c2\<close> y(4) x(4) f(2) by (rule refl)
  moreover have "keys_distinct (entries s')"
    using ok by (simp add: s' f(1) sched_ok_def)
  moreover have "map_of (entries s') = (map_of (entries s))(t := if xs @ ys = [] then None else Some (xs @ ys))"
    by (auto simp: s' f(1) y(1) delete_conv' update_conv' fun_eq_iff)
  ultimately show ?thesis using x(2) y(2) disj fresh by blast
qed

lemma Register_ok:
  assumes lib: "cron_library_ok add rem jobs valid" and ok: "sched_ok jobs s"
  shows "sched_ok jobs (Register add rem s info)"
proof (cases "CronStart info = [] \<and> CronStop info = []")
  case True
  with ok show ?thesis by (simp add: Register_def)
next
  case False
  let ?t = "ContainerID info" and ?s' = "Register add rem s info"
  obtain xs ys where r:
    "\<forall>i \<in> set xs \<union> set ys. job_owner jobs (cron s) i \<in> {None, Some ?t}"
    "jobs (cron ?s') = (\<lambda>i. if i \<in> set ys then Some (CronStop info, StopJob ?t (ContainerName info))
         else if i \<in> set xs then Some (CronStart info, StartJob ?t (ContainerName info))
         else if job_owner jobs (cron s) i = Some ?t then None else jobs (cron s) i)"
    "keys_distinct (entries ?s')"
    "map_of (entries ?s') = (map_of (entries s))(?t := if xs @ ys = [] then None else Some (xs @ ys))"
    using Register_spec [OF lib ok, of info] False by auto
  have own: "owned ?s' i u \<longleftrightarrow> (if u = ?t then i \<in> set xs \<union> set ys else owned s i u)" for i u
    by (auto simp: owned_def r(4))
  have owner: "job_owner jobs (cron ?s') i
      = (if i \<in> set xs \<union> set ys then Some ?t
         else if job_owner jobs (cron s) i = Some ?t then None else job_owner jobs (cron s) i)" for i
    by (auto simp: job_owner_def r(2))
  have "owned ?s' i u \<longleftrightarrow> job_owner jobs (cron ?s') i = Some u" for i u
  proof (cases "i \<in> set xs \<union> set ys")
    case True
    with r(1) have "job_owner jobs (cron s) i \<in> {None, Some ?t}" by blast
    with True ok show ?thesis unfolding own owner sched_ok_def by auto
  next
    case False
    with ok show ?thesis unfolding own owner sched_ok_def by auto
  qed
  with r(3) show ?thesis by (simp add: sched_ok_def)
qed

lemma ex_in_either:
  "(\<exists>i. (i \<in> set xs \<and> a \<and> b) \<or> (i \<in> set ys \<and> c \<and> d))
    \<longleftrightarrow> (xs \<noteq> [] \<and> a \<and> b) \<or> (ys \<noteq> [] \<and> c \<and> d)"
proof -
  have "(\<exists>i. i \<in> set zs) \<longleftrightarrow> zs \<noteq> []" for zs :: "'a list" by (cases zs) auto
  then show ?thesis by blast
qed

lemma Register_schedule:
  assumes lib: "cron_library_ok add rem jobs valid" and ok: "sched_ok jobs s"
    and some: "CronStart info \<noteq> [] \<or> CronStop info \<noteq> []"
  shows "schedule_of jobs (Register add rem s info) u =
    (if u = ContainerID info then {x \<in> wanted_jobs info. valid (fst x)} else schedule_of jobs s u)"
proof -
  let ?t = "ContainerID info" and ?s' = "Register add rem s info"
  obtain xs ys where r:
    "xs \<noteq> [] \<longleftrightarrow> CronStart info \<noteq> [] \<and> valid (CronStart info)"
    "ys \<noteq> [] \<longleftrightarrow> CronStop info \<noteq> [] \<and> valid (CronStop info)"
    "\<forall>i \<in> set xs \<union> set ys. job_owner jobs (cron s) i \<in> {None, Some ?t}"
    "set xs \<inter> set ys = {}"
    "jobs (cron ?s') = (\<lambda>i. if i \<in> set ys then Some (CronStop info, StopJob ?t (ContainerName info))
         else if i \<in> set xs then Some (CronStart info, StartJob ?t (ContainerName info))
         else if job_owner jobs (cron s) i = Some ?t then None else jobs (cron s) i)"
    using Register_spec [OF lib ok some] by auto
  show ?thesis
  proof (cases "u = ?t")
    case True
    have own: "(\<exists>i. jobs (cron ?s') i = Some (e, j)) \<and> job_target j = ?t \<longleftrightarrow>
        (xs \<noteq> [] \<and> e = CronStart info \<and> j = StartJob ?t (ContainerName info))
        \<or> (ys \<noteq> [] \<and> e = CronStop info \<and> j = StopJob ?t (ContainerName info))" for e j
    proof -
      have "job_owner jobs (cron s) i = Some ?t"
        if "jobs (cron s) i = Some (e, j)" "job_target j = ?t" for i
        using that by (simp add: job_owner_def)
      moreover have "i \<notin> set ys" if "i \<in> set xs" for i using r(4) that by blast
      ultimately have "jobs (cron ?s') i = Some (e, j) \<and> job_target j = ?t \<longleftrightarrow>
          (i \<in> set xs \<and> e = CronStart info \<and> j = StartJob ?t (ContainerName info))
          \<or> (i \<in> set ys \<and> e = CronStop info \<and> j = StopJob ?t (ContainerName info))" for i
        unfolding r(5) by auto
      then have eq: "(\<exists>i. jobs (cron ?s') i = Some (e, j) \<and> job_target j = ?t) \<longleftrightarrow>
          (\<exists>i. (i \<in> set xs \<and> e = CronStart info \<and> j = StartJob ?t (ContainerName info))
          \<or> (i \<in> set ys \<and> e = CronStop info \<and> j = StopJob ?t (ContainerName info)))" by (simp only:)
      show ?thesis using eq unfolding ex_in_either by blast
    qed
    have "(e, j) \<in> schedule_of jobs ?s' u \<longleftrightarrow> (e, j) \<in> {x \<in> wanted_jobs info. valid (fst x)}" for e j
    proof -
      have "(e, j) \<in> schedule_of jobs ?s' u \<longleftrightarrow> (\<exists>i. jobs (cron ?s') i = Some (e, j)) \<and> job_target j = ?t"
        using True by (auto simp: schedule_of_def)
      also note own
      also have "(xs \<noteq> [] \<and> e = CronStart info \<and> j = StartJob ?t (ContainerName info))
        \<or> (ys \<noteq> [] \<and> e = CronStop info \<and> j = StopJob ?t (ContainerName info))
        \<longleftrightarrow> (e, j) \<in> {x \<in> wanted_jobs info. valid (fst x)}"
        unfolding r(1,2) by (auto simp: wanted_jobs_def)
      finally show ?thesis .
    qed
    then have "schedule_of jobs ?s' u = {x \<in> wanted_jobs info. valid (fst x)}" by auto
    with True show ?thesis by (simp only: refl if_True)
  next
    case False
    have "(\<exists>i. jobs (cron ?s') i = Some (e, j)) \<longleftrightarrow> (\<exists>i. jobs (cron s) i = Some (e, j))"
      if "job_target j = u" for e j
    proof -
      have "jobs (cron ?s') i = Some (e, j) \<longleftrightarrow> jobs (cron s) i = Some (e, j)" for i
      proof (cases "i \<in> set xs \<union> set ys")
        case True
        then have "job_owner jobs (cron s) i \<in> {None, Some ?t}" using r(3) by blast
        with True that False show ?thesis by (auto simp: r(5) job_owner_def)
      next
        case nin: False
        with that False show ?thesis by (auto simp: r(5) job_owner_def)
      qed
      then show ?thesis by simp
    qed
    then show ?thesis using False by (auto simp: schedule_of_def)
  qed
qed

lemma unregister_schedule:
  assumes "cron_library_ok add rem jobs valid" and "sched_ok jobs s"
  shows "schedule_of jobs (unregisterLocked rem s t) u = (if u = t then {} else schedule_of jobs s u)"
proof -
  have "jobs (cron (unregisterLocked rem s t)) i = Some (e, j)
      \<longleftrightarrow> jobs (cron s) i = Some (e, j) \<and> job_target j \<noteq> t" for i e j
    by (auto simp: unregister_frame [OF assms] job_owner_def)
  then show ?thesis by (auto simp: schedule_of_def)
qed

subsection \<open>The interface the proxy server uses\<close>

text \<open>
  The server only calls \<open>Register\<close> and \<open>Unregister\<close>. A call is a value, so that the sequence
  of calls a server operation makes can be replayed on any scheduler.
\<close>

datatype sched_call = SchedRegister TargetInfo | SchedUnregister string

locale job_scheduler =
  fixes register :: "'s \<Rightarrow> TargetInfo \<Rightarrow> 's"
    and unregister :: "'s \<Rightarrow> string \<Rightarrow> 's"
    and schedule :: "'s \<Rightarrow> string \<Rightarrow> 'j set"
    and ok :: "'s \<Rightarrow> bool"
  assumes register_ok: "ok s \<Longrightarrow> ok (register s info)"
    and unregister_ok: "ok s \<Longrightarrow> ok (unregister s t)"
    and unregister_schedule: "ok s \<Longrightarrow> schedule (unregister s t) u = (if u = t then {} else schedule s u)"
    and register_other: "ok s \<Longrightarrow> u \<noteq> ContainerID info \<Longrightarrow> schedule (register s info) u = schedule s u"
begin

lemma replay_ok:
  "ok s \<Longrightarrow> ok (foldl (\<lambda>s c. case c of SchedRegister i \<Rightarrow> register s i | SchedUnregister t \<Rightarrow> unregister s t) s cs)"
  by (rule foldl_invariant) (auto simp: register_ok unregister_ok split: sched_call.splits)

lemma replay_other:
  assumes "ok s" and "\<And>c. c \<in> set cs \<Longrightarrow> case c of SchedRegister i \<Rightarrow> ContainerID i \<noteq> u | SchedUnregister t \<Rightarrow> t \<noteq> u"
  shows "schedule (foldl (\<lambda>s c. case c of SchedRegister i \<Rightarrow> register s i | SchedUnregister t \<Rightarrow> unregister s t) s cs) u
    = schedule s u"
  using assms
proof (induction cs arbitrary: s)
  case (Cons c cs)
  have rest: "case d of SchedRegister i \<Rightarrow> ContainerID i \<noteq> u | SchedUnregister t \<Rightarrow> t \<noteq> u"
    if "d \<in> set cs" for d using Cons.prems(2) that by simp
  have head: "case c of SchedRegister i \<Rightarrow> ContainerID i \<noteq> u | SchedUnregister t \<Rightarrow> t \<noteq> u"
    using Cons.prems(2) by simp
  show ?case
  proof (cases c)
    case (SchedRegister i)
    with head Cons.prems(1) show ?thesis
      using Cons.IH [OF _ rest, of "register s i"] by (simp add: register_ok register_other)
  next
    case (SchedUnregister t)
    with head Cons.prems(1) show ?thesis
      using Cons.IH [OF _ rest, of "unregister s t"] by (simp add: unregister_ok unregister_schedule)
  qed
qed simp

lemma unregistered_last:
  assumes "ok s"
  shows "schedule (unregister (foldl (\<lambda>s c. case c of SchedRegister i \<Rightarrow> register s i
    | SchedUnregister t \<Rightarrow> unregister s t) s cs) t) t = {}"
  using replay_ok [OF assms] by (simp add: unregister_schedule)

end

interpretation cs: job_scheduler "Register add rem" "Unregister rem" "schedule_of jobs"
  "\<lambda>s. cron_library_ok add rem jobs valid \<and> sched_ok jobs s"
  for add :: "'c \<Rightarrow> string \<Rightarrow> cron_job \<Rightarrow> ('c \<times> entry_id) option" and rem jobs valid
proof unfold_locales
  fix s :: "'c Scheduler" and info :: TargetInfo and u
  assume ok: "cron_library_ok add rem jobs valid \<and> sched_ok jobs s" and u: "u \<noteq> ContainerID info"
  show "schedule_of jobs (Register add rem s info) u = schedule_of jobs s u"
  proof (cases "CronStart info = [] \<and> CronStop info = []")
    case True
    then show ?thesis by (simp add: Register_def)
  next
    case False
    then have "CronStart info \<noteq> [] \<or> CronStop info \<noteq> []" by simp
    with ok u show ?thesis using Register_schedule [of add rem jobs valid s info u] by simp
  qed
qed (auto simp: Unregister_def Register_ok unregister_ok unregister_schedule)

text \<open>Replaying a server's calls on the scheduler.\<close>

definition run_sched_call ::
  "('c \<Rightarrow> string \<Rightarrow> cron_job \<Rightarrow> ('c \<times> entry_id) option) \<Rightarrow> ('c \<Rightarrow> entry_id \<Rightarrow> 'c)
     \<Rightarrow> 'c Scheduler \<Rightarrow> sched_call \<Rightarrow> 'c Scheduler" where
  "run_sched_call add rem s c =
     (case c of SchedRegister info \<Rightarrow> Register add rem s info | SchedUnregister t \<Rightarrow> Unregister rem s t)"

subsection \<open>A concrete table, for the witnesses\<close>

text \<open>A cron table as the library documents it: numbered entries, an empty expression refused.\<close>

type_synonym table = "nat \<times> (nat \<times> (string \<times> cron_job)) list"

definition table_add :: "table \<Rightarrow> string \<Rightarrow> cron_job \<Rightarrow> (table \<times> entry_id) option" where
  "table_add c e j = (if e = '''' then None else
     case c of (n, js) \<Rightarrow> let i = Suc (n + sum_list (map fst js)) in Some ((i, (i, (e, j)) # js), i))"

definition table_rem :: "table \<Rightarrow> entry_id \<Rightarrow> table" where
  "table_rem c i = (fst c, filter (\<lambda>x. fst x \<noteq> i) (snd c))"

definition table_jobs :: "table \<Rightarrow> entry_id \<Rightarrow> (string \<times> cron_job) option" where
  "table_jobs c = map_of (snd c)"

lemma table_library: "cron_library_ok table_add table_rem table_jobs (\<lambda>e. e \<noteq> '''')"
proof -
  have fresh: "map_of js (Suc (n + sum_list (map fst js))) = None" for n and js :: "(nat \<times> (string \<times> cron_job)) list"
  proof -
    have "x \<le> sum_list (map fst js)" if "x \<in> fst ` set js" for x
      using that by (simp add: member_le_sum_list)
    then show ?thesis unfolding map_of_eq_None_iff by force
  qed
  have del: "map_of (filter (\<lambda>x. fst x \<noteq> i) js) = (map_of js)(i := None)"
    for i and js :: "(nat \<times> (string \<times> cron_job)) list"
    by (induction js) (auto simp: fun_eq_iff)
  show ?thesis
    unfolding cron_library_ok_def
    by (auto simp: table_add_def table_rem_def table_jobs_def fresh del Let_def split: if_splits prod.splits)
qed

subsection \<open>Properties\<close>

text \<open>
  C30: registering a target with a schedule replaces its jobs: afterwards the cron table holds
  for it exactly the start and stop jobs of its expressions that parse, every other target's
  jobs are as before, and no job is left that the scheduler no longer lists.
\<close>

theorem register_replaces_jobs:
  assumes "cron_library_ok add rem jobs valid" and "sched_ok jobs s"
    and "CronStart info \<noteq> [] \<or> CronStop info \<noteq> []"
  shows "sched_ok jobs (Register add rem s info)
    \<and> schedule_of jobs (Register add rem s info) (ContainerID info) = {x \<in> wanted_jobs info. valid (fst x)}
    \<and> (\<forall>u. u \<noteq> ContainerID info \<longrightarrow> schedule_of jobs (Register add rem s info) u = schedule_of jobs s u)"
  using Register_ok [OF assms(1,2)] Register_schedule [OF assms] by simp

theorem register_replaces_jobs_witness:
  "schedule_of table_jobs
     (Register table_add table_rem (New_Scheduler (0, []))
        (zero_info\<lparr>ContainerID := ''c1'', ContainerName := ''web'', CronStart := ''0 9 * * *''\<rparr>)) ''c1''
   = {(''0 9 * * *'', StartJob ''c1'' ''web'')}"
proof -
  let ?i = "zero_info\<lparr>ContainerID := ''c1'', ContainerName := ''web'', CronStart := ''0 9 * * *''\<rparr>"
  have "sched_ok table_jobs (New_Scheduler (0, []))"
    by (simp add: sched_ok_def New_Scheduler_def owned_def job_owner_def table_jobs_def)
  moreover have "CronStart ?i \<noteq> [] \<or> CronStop ?i \<noteq> []" by simp
  ultimately show ?thesis
    using register_replaces_jobs [OF table_library, of "New_Scheduler (0, [])" ?i]
    by (auto simp: wanted_jobs_def zero_info_def)
qed

text \<open>
  \<open>Register\<close> ignores a target that no longer declares a schedule: it returns before removing
  the old jobs, so the jobs of an earlier registration stay in the cron table. Only
  \<open>Unregister\<close> removes them.
\<close>

theorem register_without_schedule_keeps_jobs:
  assumes "cron_library_ok add rem jobs valid" and "sched_ok jobs s"
    and "CronStart info = []" and "CronStop info = []"
  shows "schedule_of jobs (Register add rem s info) (ContainerID info) = schedule_of jobs s (ContainerID info)
    \<and> schedule_of jobs (Unregister rem s (ContainerID info)) (ContainerID info) = {}"
  using assms unregister_schedule [OF assms(1,2)] by (simp add: Register_def Unregister_def)

theorem register_without_schedule_keeps_jobs_witness:
  "schedule_of table_jobs
     (Register table_add table_rem
       (Register table_add table_rem (New_Scheduler (0, []))
          (zero_info\<lparr>ContainerID := ''c1'', CronStop := ''0 17 * * *''\<rparr>))
       (zero_info\<lparr>ContainerID := ''c1''\<rparr>)) ''c1''
   = {(''0 17 * * *'', StopJob ''c1'' '''')}"
proof -
  let ?i = "zero_info\<lparr>ContainerID := ''c1'', CronStop := ''0 17 * * *''\<rparr>"
  let ?s = "Register table_add table_rem (New_Scheduler (0, [])) ?i"
  have ok0: "sched_ok table_jobs (New_Scheduler (0, []))"
    by (simp add: sched_ok_def New_Scheduler_def owned_def job_owner_def table_jobs_def)
  have ok: "sched_ok table_jobs ?s" using table_library ok0 by (rule Register_ok)
  let ?j = "zero_info\<lparr>ContainerID := ''c1''\<rparr>"
  have s: "schedule_of table_jobs ?s ''c1'' = {(''0 17 * * *'', StopJob ''c1'' '''')}"
  proof -
    have "CronStart ?i \<noteq> [] \<or> CronStop ?i \<noteq> []" and id: "ContainerID ?i = ''c1''" by simp_all
    from Register_schedule [OF table_library ok0 this(1), of "''c1''"]
    have "schedule_of table_jobs ?s ''c1'' = {x \<in> wanted_jobs ?i. fst x \<noteq> []}"
      unfolding id by (simp only: simp_thms if_True)
    also have "\<dots> = {(''0 17 * * *'', StopJob ''c1'' '''')}"
      by (auto simp: wanted_jobs_def zero_info_def)
    finally show ?thesis .
  qed
  have "CronStart ?j = []" "CronStop ?j = []" "ContainerID ?j = ''c1''"
    by (simp_all add: zero_info_def)
  with register_without_schedule_keeps_jobs [OF table_library ok, of ?j]
  show ?thesis unfolding s by (simp only: s simp_thms)
qed

end
