(* ===== verification/Metrics.thy ===== *)
theory Metrics
  imports Go_Prelude
begin

text \<open>
  \<open>internal/metrics/collector.go\<close> and \<open>postgres.go\<close>: the per-port accumulators, the one-minute
  rollup, the retry buffer of failed writes and the hourly heat map. PostgreSQL is not part of
  the repository: writing a row is an argument \<open>db_write\<close> acting on a database state, the rows the
  activity query returns are an argument. A \<open>float64\<close> average is kept as the two integers that
  are divided.
\<close>

subsection \<open>State\<close>

record Snapshot =
  sn_RollupAt :: instant
  sn_ContainerName :: string
  sn_Port :: int
  sn_IsUDP :: bool
  sn_Availability :: string
  sn_ConnectionsStarted :: int
  sn_ConnectionsEnded :: int
  sn_ConnectionsActive :: int
  sn_ConnectionsPeak :: int
  sn_ConnectionsFailed :: int
  sn_BytesSent :: int
  sn_BytesReceived :: int
  sn_RequestDurationMsAvg :: "(int \<times> int) option"
  sn_RequestDurationMsMax :: "int option"
  sn_RequestDurationMsMin :: "int option"
  sn_ContainerStarts :: int
  sn_ColdStartMsAvg :: "(int \<times> int) option"
  sn_ColdStartMsMax :: "int option"
  sn_ContainerStops :: int
  sn_UptimeMsTotal :: int

type_synonym portKey = "int \<times> bool"

record portAccumulator =
  acc_containerName :: string
  acc_port :: int
  acc_isUDP :: bool
  acc_availability :: string
  acc_connectionsStarted :: int
  acc_connectionsEnded :: int
  acc_connectionsFailed :: int
  acc_bytesSent :: int
  acc_bytesReceived :: int
  acc_containerStarts :: int
  acc_containerStops :: int
  acc_activeConns :: int
  acc_peakConns :: int
  acc_durationCount :: int
  acc_durationTotalMs :: int
  acc_durationMaxMs :: int
  acc_durationMinMs :: int
  acc_coldStartCount :: int
  acc_coldStartTotalMs :: int
  acc_coldStartMaxMs :: int
  acc_containerRunning :: bool
  acc_containerUpAt :: instant
  acc_uptimeAccumMs :: int
  acc_windowStart :: instant

record Collector =
  col_ports :: "(portKey \<times> portAccumulator) list"
  col_retry :: "Snapshot list"

definition New_Collector :: Collector where
  "New_Collector = \<lparr>col_ports = [], col_retry = []\<rparr>"

definition max_int64 :: int where "max_int64 = 2 ^ 63 - 1"

definition new_accumulator :: "instant \<Rightarrow> int \<Rightarrow> string \<Rightarrow> bool \<Rightarrow> string \<Rightarrow> portAccumulator" where
  "new_accumulator now port containerName isUDP availability =
     \<lparr>acc_containerName = containerName, acc_port = port, acc_isUDP = isUDP,
      acc_availability = availability,
      acc_connectionsStarted = 0, acc_connectionsEnded = 0, acc_connectionsFailed = 0,
      acc_bytesSent = 0, acc_bytesReceived = 0, acc_containerStarts = 0, acc_containerStops = 0,
      acc_activeConns = 0, acc_peakConns = 0,
      acc_durationCount = 0, acc_durationTotalMs = 0, acc_durationMaxMs = 0, acc_durationMinMs = max_int64,
      acc_coldStartCount = 0, acc_coldStartTotalMs = 0, acc_coldStartMaxMs = 0,
      acc_containerRunning = False, acc_containerUpAt = 0, acc_uptimeAccumMs = 0, acc_windowStart = now\<rparr>"

subsection \<open>Operations\<close>

definition RegisterPort :: "instant \<Rightarrow> Collector \<Rightarrow> int \<Rightarrow> string \<Rightarrow> bool \<Rightarrow> string \<Rightarrow> Collector" where
  "RegisterPort now c port containerName isUDP availability =
     (let k = (port, isUDP) in
      case map_of (col_ports c) k of
        Some a \<Rightarrow> c\<lparr>col_ports := AList.update k
                    (a\<lparr>acc_containerName := containerName, acc_availability := availability\<rparr>) (col_ports c)\<rparr>
      | None \<Rightarrow> c\<lparr>col_ports := AList.update k
                    (new_accumulator now port containerName isUDP availability) (col_ports c)\<rparr>)"

definition UnregisterPort :: "Collector \<Rightarrow> int \<Rightarrow> bool \<Rightarrow> Collector" where
  "UnregisterPort c port isUDP = c\<lparr>col_ports := AList.delete (port, isUDP) (col_ports c)\<rparr>"

text \<open>Every recording operation looks its accumulator up and does nothing when there is none.\<close>

definition with_accumulator :: "(portAccumulator \<Rightarrow> portAccumulator) \<Rightarrow> Collector \<Rightarrow> int \<Rightarrow> bool \<Rightarrow> Collector" where
  "with_accumulator f c port isUDP =
     (case map_of (col_ports c) (port, isUDP) of
        None \<Rightarrow> c
      | Some a \<Rightarrow> c\<lparr>col_ports := AList.update (port, isUDP) (f a) (col_ports c)\<rparr>)"

definition acc_started :: "portAccumulator \<Rightarrow> portAccumulator" where
  "acc_started a =
     (let newActive = wrap32 (acc_activeConns a + 1) in
      a\<lparr>acc_connectionsStarted := wrap64 (acc_connectionsStarted a + 1),
        acc_activeConns := newActive,
        acc_peakConns := (if newActive \<le> acc_peakConns a then acc_peakConns a else newActive)\<rparr>)"

definition ConnectionStarted :: "Collector \<Rightarrow> int \<Rightarrow> bool \<Rightarrow> Collector" where
  "ConnectionStarted = with_accumulator acc_started"

definition acc_ended :: "int \<Rightarrow> portAccumulator \<Rightarrow> portAccumulator" where
  "acc_ended durationMs a =
     a\<lparr>acc_connectionsEnded := wrap64 (acc_connectionsEnded a + 1),
       acc_activeConns := wrap32 (acc_activeConns a - 1),
       acc_durationCount := wrap64 (acc_durationCount a + 1),
       acc_durationTotalMs := wrap64 (acc_durationTotalMs a + durationMs),
       acc_durationMaxMs := (if durationMs > acc_durationMaxMs a then durationMs else acc_durationMaxMs a),
       acc_durationMinMs := (if durationMs < acc_durationMinMs a then durationMs else acc_durationMinMs a)\<rparr>"

definition ConnectionEnded :: "Collector \<Rightarrow> int \<Rightarrow> bool \<Rightarrow> int \<Rightarrow> Collector" where
  "ConnectionEnded c port isUDP durationMs = with_accumulator (acc_ended durationMs) c port isUDP"

definition acc_failed :: "portAccumulator \<Rightarrow> portAccumulator" where
  "acc_failed a = a\<lparr>acc_connectionsFailed := wrap64 (acc_connectionsFailed a + 1)\<rparr>"

definition ConnectionFailed :: "Collector \<Rightarrow> int \<Rightarrow> bool \<Rightarrow> Collector" where
  "ConnectionFailed = with_accumulator acc_failed"

definition acc_bytes :: "int \<Rightarrow> int \<Rightarrow> portAccumulator \<Rightarrow> portAccumulator" where
  "acc_bytes sent recv a =
     (let a1 = (if sent > 0 then a\<lparr>acc_bytesSent := wrap64 (acc_bytesSent a + sent)\<rparr> else a)
      in if recv > 0 then a1\<lparr>acc_bytesReceived := wrap64 (acc_bytesReceived a1 + recv)\<rparr> else a1)"

definition AddBytes :: "Collector \<Rightarrow> int \<Rightarrow> bool \<Rightarrow> int \<Rightarrow> int \<Rightarrow> Collector" where
  "AddBytes c port isUDP sent recv = with_accumulator (acc_bytes sent recv) c port isUDP"

definition acc_cold_start :: "int \<Rightarrow> portAccumulator \<Rightarrow> portAccumulator" where
  "acc_cold_start durationMs a =
     a\<lparr>acc_containerStarts := wrap64 (acc_containerStarts a + 1),
       acc_coldStartCount := wrap64 (acc_coldStartCount a + 1),
       acc_coldStartTotalMs := wrap64 (acc_coldStartTotalMs a + durationMs),
       acc_coldStartMaxMs := (if durationMs > acc_coldStartMaxMs a then durationMs else acc_coldStartMaxMs a)\<rparr>"

definition RecordColdStart :: "Collector \<Rightarrow> int \<Rightarrow> bool \<Rightarrow> int \<Rightarrow> Collector" where
  "RecordColdStart c port isUDP durationMs = with_accumulator (acc_cold_start durationMs) c port isUDP"

definition acc_container_start :: "portAccumulator \<Rightarrow> portAccumulator" where
  "acc_container_start a = a\<lparr>acc_containerStarts := wrap64 (acc_containerStarts a + 1)\<rparr>"

definition RecordContainerStart :: "Collector \<Rightarrow> int \<Rightarrow> bool \<Rightarrow> Collector" where
  "RecordContainerStart = with_accumulator acc_container_start"

definition acc_running :: "instant \<Rightarrow> portAccumulator \<Rightarrow> portAccumulator" where
  "acc_running at a =
     (if \<not> acc_containerRunning a then a\<lparr>acc_containerRunning := True, acc_containerUpAt := at\<rparr> else a)"

definition OnContainerRunning :: "Collector \<Rightarrow> int \<Rightarrow> bool \<Rightarrow> instant \<Rightarrow> Collector" where
  "OnContainerRunning c port isUDP at = with_accumulator (acc_running at) c port isUDP"

definition acc_stopped :: "instant \<Rightarrow> portAccumulator \<Rightarrow> portAccumulator" where
  "acc_stopped now a =
     (let a1 = a\<lparr>acc_containerStops := wrap64 (acc_containerStops a + 1)\<rparr>
      in if acc_containerRunning a1
         then a1\<lparr>acc_uptimeAccumMs := wrap64 (acc_uptimeAccumMs a1 + millis (time_sub now (acc_containerUpAt a1))),
                 acc_containerRunning := False\<rparr>
         else a1)"

definition RecordContainerStopped :: "instant \<Rightarrow> Collector \<Rightarrow> int \<Rightarrow> bool \<Rightarrow> Collector" where
  "RecordContainerStopped now = with_accumulator (acc_stopped now)"

definition rollup :: "instant \<Rightarrow> portAccumulator \<Rightarrow> portAccumulator \<times> Snapshot" where
  "rollup windowEnd a =
     (let active = acc_activeConns a;
          peak = (if acc_peakConns a < active then active else acc_peakConns a);
          uptime = (if acc_containerRunning a
                    then wrap64 (acc_uptimeAccumMs a + millis (time_sub windowEnd (acc_containerUpAt a)))
                    else acc_uptimeAccumMs a);
          upAt = (if acc_containerRunning a then windowEnd else acc_containerUpAt a);
          dur = acc_durationCount a > 0;
          cold = acc_coldStartCount a > 0;
          snap = \<lparr>sn_RollupAt = acc_windowStart a, sn_ContainerName = acc_containerName a,
                  sn_Port = acc_port a, sn_IsUDP = acc_isUDP a, sn_Availability = acc_availability a,
                  sn_ConnectionsStarted = acc_connectionsStarted a,
                  sn_ConnectionsEnded = acc_connectionsEnded a,
                  sn_ConnectionsActive = active, sn_ConnectionsPeak = peak,
                  sn_ConnectionsFailed = acc_connectionsFailed a,
                  sn_BytesSent = acc_bytesSent a, sn_BytesReceived = acc_bytesReceived a,
                  sn_RequestDurationMsAvg = (if dur then Some (acc_durationTotalMs a, acc_durationCount a) else None),
                  sn_RequestDurationMsMax = (if dur then Some (acc_durationMaxMs a) else None),
                  sn_RequestDurationMsMin = (if dur then Some (acc_durationMinMs a) else None),
                  sn_ContainerStarts = acc_containerStarts a,
                  sn_ColdStartMsAvg = (if cold then Some (acc_coldStartTotalMs a, acc_coldStartCount a) else None),
                  sn_ColdStartMsMax = (if cold then Some (acc_coldStartMaxMs a) else None),
                  sn_ContainerStops = acc_containerStops a, sn_UptimeMsTotal = uptime\<rparr>
      in (a\<lparr>acc_connectionsStarted := 0, acc_connectionsEnded := 0, acc_connectionsFailed := 0,
            acc_bytesSent := 0, acc_bytesReceived := 0, acc_containerStarts := 0, acc_containerStops := 0,
            acc_peakConns := active, acc_containerUpAt := upAt, acc_uptimeAccumMs := 0,
            acc_durationCount := 0, acc_durationTotalMs := 0, acc_durationMaxMs := 0, acc_durationMinMs := max_int64,
            acc_coldStartCount := 0, acc_coldStartTotalMs := 0, acc_coldStartMaxMs := 0,
            acc_windowStart := windowEnd\<rparr>, snap))"

definition rollupAll :: "instant \<Rightarrow> Collector \<Rightarrow> Collector \<times> Snapshot list" where
  "rollupAll windowEnd c =
     (c\<lparr>col_ports := map_values (\<lambda>_ a. fst (rollup windowEnd a)) (col_ports c)\<rparr>,
      map (\<lambda>(_, a). snd (rollup windowEnd a)) (col_ports c))"

text \<open>The calls the proxy makes, as data, so that a server operation can return the calls it made.\<close>

datatype collector_call =
    MRegisterPort int string bool string
  | MUnregisterPort int bool
  | MConnectionStarted int bool
  | MConnectionEnded int bool int
  | MConnectionFailed int bool
  | MAddBytes int bool int int
  | MRecordColdStart int bool int
  | MRecordContainerStart int bool
  | MOnContainerRunning int bool instant
  | MContainerStopped int bool

primrec call_port :: "collector_call \<Rightarrow> portKey" where
  "call_port (MRegisterPort p _ u _) = (p, u)"
| "call_port (MUnregisterPort p u) = (p, u)"
| "call_port (MConnectionStarted p u) = (p, u)"
| "call_port (MConnectionEnded p u _) = (p, u)"
| "call_port (MConnectionFailed p u) = (p, u)"
| "call_port (MAddBytes p u _ _) = (p, u)"
| "call_port (MRecordColdStart p u _) = (p, u)"
| "call_port (MRecordContainerStart p u) = (p, u)"
| "call_port (MOnContainerRunning p u _) = (p, u)"
| "call_port (MContainerStopped p u) = (p, u)"

primrec run_collector_call :: "instant \<Rightarrow> Collector \<Rightarrow> collector_call \<Rightarrow> Collector" where
  "run_collector_call now c (MRegisterPort p n u a) = RegisterPort now c p n u a"
| "run_collector_call now c (MUnregisterPort p u) = UnregisterPort c p u"
| "run_collector_call now c (MConnectionStarted p u) = ConnectionStarted c p u"
| "run_collector_call now c (MConnectionEnded p u d) = ConnectionEnded c p u d"
| "run_collector_call now c (MConnectionFailed p u) = ConnectionFailed c p u"
| "run_collector_call now c (MAddBytes p u s r) = AddBytes c p u s r"
| "run_collector_call now c (MRecordColdStart p u d) = RecordColdStart c p u d"
| "run_collector_call now c (MRecordContainerStart p u) = RecordContainerStart c p u"
| "run_collector_call now c (MOnContainerRunning p u t) = OnContainerRunning c p u t"
| "run_collector_call now c (MContainerStopped p u) = RecordContainerStopped now c p u"

subsection \<open>Writing: the retry buffer\<close>

definition retry_push :: "Snapshot list \<Rightarrow> Snapshot \<Rightarrow> Snapshot list" where
  "retry_push buf s = (if length buf \<ge> 5 then tl buf else buf) @ [s]"

definition retry_drain :: "Snapshot list \<Rightarrow> Snapshot list \<times> Snapshot list" where
  "retry_drain buf = ([], buf)"

definition write_one ::
  "('d \<Rightarrow> Snapshot \<Rightarrow> 'd \<times> bool) \<Rightarrow> 'd \<times> Snapshot list \<Rightarrow> Snapshot \<Rightarrow> 'd \<times> Snapshot list" where
  "write_one db_write db s =
     (case db_write (fst db) s of
        (d', True) \<Rightarrow> (d', snd db)
      | (d', False) \<Rightarrow> (d', retry_push (snd db) s))"

definition flush ::
  "('d \<Rightarrow> Snapshot \<Rightarrow> 'd \<times> bool) \<Rightarrow> 'd \<Rightarrow> Collector \<Rightarrow> Snapshot list \<Rightarrow> 'd \<times> Collector" where
  "flush db_write d c current =
     (case retry_drain (col_retry c) of (rest, pending) \<Rightarrow>
        let db1 = foldl (write_one db_write) (d, rest) pending;
            db2 = foldl (write_one db_write) db1 current
        in (fst db2, c\<lparr>col_retry := snd db2\<rparr>))"

subsection \<open>The hourly heat map\<close>

type_synonym serviceKey = "string \<times> int \<times> bool"

record ServiceActivity =
  sa_ContainerName :: string
  sa_Port :: int
  sa_IsUDP :: bool
  sa_Sun :: "int list"
  sa_Mon :: "int list"
  sa_Tue :: "int list"
  sa_Wed :: "int list"
  sa_Thu :: "int list"
  sa_Fri :: "int list"
  sa_Sat :: "int list"
  sa_Active :: bool

record activity_row =
  row_name :: string
  row_port :: int
  row_isUDP :: bool
  row_dow :: int
  row_hr :: int
  row_conns :: int

definition row_key :: "activity_row \<Rightarrow> serviceKey" where
  "row_key r = (row_name r, row_port r, row_isUDP r)"

definition no_hours :: "int list" where "no_hours = replicate 24 0"

definition new_service :: "serviceKey \<Rightarrow> ServiceActivity" where
  "new_service k =
     \<lparr>sa_ContainerName = fst k, sa_Port = fst (snd k), sa_IsUDP = snd (snd k),
      sa_Sun = no_hours, sa_Mon = no_hours, sa_Tue = no_hours, sa_Wed = no_hours,
      sa_Thu = no_hours, sa_Fri = no_hours, sa_Sat = no_hours, sa_Active = False\<rparr>"

definition mark_hour :: "activity_row \<Rightarrow> ServiceActivity \<Rightarrow> ServiceActivity" where
  "mark_hour r sa =
     (if row_hr r \<ge> 0 \<and> row_hr r < 24
      then let v = (if row_conns r > 0 then 2 else 1); h = nat (row_hr r);
               sa1 = (if row_dow r = 0 then sa\<lparr>sa_Sun := (sa_Sun sa)[h := v]\<rparr>
                 else if row_dow r = 1 then sa\<lparr>sa_Mon := (sa_Mon sa)[h := v]\<rparr>
                 else if row_dow r = 2 then sa\<lparr>sa_Tue := (sa_Tue sa)[h := v]\<rparr>
                 else if row_dow r = 3 then sa\<lparr>sa_Wed := (sa_Wed sa)[h := v]\<rparr>
                 else if row_dow r = 4 then sa\<lparr>sa_Thu := (sa_Thu sa)[h := v]\<rparr>
                 else if row_dow r = 5 then sa\<lparr>sa_Fri := (sa_Fri sa)[h := v]\<rparr>
                 else if row_dow r = 6 then sa\<lparr>sa_Sat := (sa_Sat sa)[h := v]\<rparr>
                 else sa)
           in sa1\<lparr>sa_Active := True\<rparr>
      else sa)"

text \<open>The index map in first-seen order is the pair of \<open>index\<close> and \<open>order\<close> of the source.\<close>

definition activity_step ::
  "(serviceKey \<times> ServiceActivity) list \<Rightarrow> activity_row \<Rightarrow> (serviceKey \<times> ServiceActivity) list" where
  "activity_step index r =
     (let k = row_key r;
          sa = (case map_of index k of None \<Rightarrow> new_service k | Some sa \<Rightarrow> sa)
      in AList.update k (mark_hour r sa) index)"

definition hourlyActivity :: "activity_row list \<Rightarrow> ServiceActivity list" where
  "hourlyActivity rows = map snd (foldl activity_step [] rows)"

text \<open>The cell of a weekday and hour.\<close>

definition activity_cell :: "ServiceActivity \<Rightarrow> int \<Rightarrow> int \<Rightarrow> int" where
  "activity_cell sa dow hr =
     (let day = (if dow = 0 then sa_Sun sa else if dow = 1 then sa_Mon sa else if dow = 2 then sa_Tue sa
        else if dow = 3 then sa_Wed sa else if dow = 4 then sa_Thu sa else if dow = 5 then sa_Fri sa
        else sa_Sat sa)
      in day ! nat hr)"


subsection \<open>Well-formed collectors\<close>

text \<open>Each accumulator sits under the key it reports itself with.\<close>

definition collector_ok :: "Collector \<Rightarrow> bool" where
  "collector_ok c \<longleftrightarrow> keys_distinct (col_ports c)
     \<and> (\<forall>(k, a) \<in> set (col_ports c). (acc_port a, acc_isUDP a) = k)"

lemma collector_ok_lookup:
  "collector_ok c \<longleftrightarrow> keys_distinct (col_ports c)
     \<and> (\<forall>k a. map_of (col_ports c) k = Some a \<longrightarrow> (acc_port a, acc_isUDP a) = k)"
  by (simp add: collector_ok_def Ball_def in_alist_iff cong: conj_cong)

lemma with_accumulator_ok [keeps]:
  assumes "collector_ok c" and "\<And>a. acc_port (f a) = acc_port a \<and> acc_isUDP (f a) = acc_isUDP a"
  shows "collector_ok (with_accumulator f c p u)"
  using assms by (auto simp: collector_ok_lookup with_accumulator_def update_conv' split: option.splits if_splits)

lemma acc_identity:
  "acc_port (acc_started a) = acc_port a" "acc_isUDP (acc_started a) = acc_isUDP a"
  "acc_port (acc_ended d a) = acc_port a" "acc_isUDP (acc_ended d a) = acc_isUDP a"
  "acc_port (acc_failed a) = acc_port a" "acc_isUDP (acc_failed a) = acc_isUDP a"
  "acc_port (acc_bytes s r a) = acc_port a" "acc_isUDP (acc_bytes s r a) = acc_isUDP a"
  "acc_port (acc_cold_start d a) = acc_port a" "acc_isUDP (acc_cold_start d a) = acc_isUDP a"
  "acc_port (acc_container_start a) = acc_port a" "acc_isUDP (acc_container_start a) = acc_isUDP a"
  "acc_port (acc_running t a) = acc_port a" "acc_isUDP (acc_running t a) = acc_isUDP a"
  "acc_port (acc_stopped t a) = acc_port a" "acc_isUDP (acc_stopped t a) = acc_isUDP a"
  by (simp_all add: acc_started_def acc_ended_def acc_failed_def acc_bytes_def acc_cold_start_def
      acc_container_start_def acc_running_def acc_stopped_def Let_def)

lemma rollup_identity:
  "acc_port (fst (rollup t a)) = acc_port a" "acc_isUDP (fst (rollup t a)) = acc_isUDP a"
  "sn_Port (snd (rollup t a)) = acc_port a" "sn_IsUDP (snd (rollup t a)) = acc_isUDP a"
  by (simp_all add: rollup_def Let_def)

lemmas call_defs = RegisterPort_def UnregisterPort_def ConnectionStarted_def ConnectionEnded_def
  ConnectionFailed_def AddBytes_def RecordColdStart_def RecordContainerStart_def
  OnContainerRunning_def RecordContainerStopped_def

lemma run_collector_call_ok [keeps]:
  assumes "collector_ok c"
  shows "collector_ok (run_collector_call now c k)"
proof (cases k)
  case (MRegisterPort p n u a)
  with assms show ?thesis
    by (auto simp: collector_ok_lookup RegisterPort_def Let_def update_conv' new_accumulator_def
        split: option.splits if_splits)
next
  case (MUnregisterPort p u)
  with assms show ?thesis
    by (auto simp: collector_ok_lookup UnregisterPort_def delete_conv' split: if_splits)
qed (simp_all add: call_defs with_accumulator_ok assms acc_identity)

lemma rollupAll_ok [keeps]:
  "collector_ok c \<Longrightarrow> collector_ok (fst (rollupAll t c))"
  by (auto simp: collector_ok_lookup rollupAll_def rollup_identity split: option.splits)

subsection \<open>Counters\<close>

text \<open>
  The seven counters a rollup reports and resets, and what a call adds to those of its port.
\<close>

definition acc_tallies :: "portAccumulator \<Rightarrow> int list" where
  "acc_tallies a = [acc_connectionsStarted a, acc_connectionsEnded a, acc_connectionsFailed a,
     acc_bytesSent a, acc_bytesReceived a, acc_containerStarts a, acc_containerStops a]"

definition snap_tallies :: "Snapshot \<Rightarrow> int list" where
  "snap_tallies s = [sn_ConnectionsStarted s, sn_ConnectionsEnded s, sn_ConnectionsFailed s,
     sn_BytesSent s, sn_BytesReceived s, sn_ContainerStarts s, sn_ContainerStops s]"

primrec call_tallies :: "collector_call \<Rightarrow> int list" where
  "call_tallies (MRegisterPort p n u a) = [0, 0, 0, 0, 0, 0, 0]"
| "call_tallies (MUnregisterPort p u) = [0, 0, 0, 0, 0, 0, 0]"
| "call_tallies (MConnectionStarted p u) = [1, 0, 0, 0, 0, 0, 0]"
| "call_tallies (MConnectionEnded p u d) = [0, 1, 0, 0, 0, 0, 0]"
| "call_tallies (MConnectionFailed p u) = [0, 0, 1, 0, 0, 0, 0]"
| "call_tallies (MAddBytes p u s r) = [0, 0, 0, max 0 s, max 0 r, 0, 0]"
| "call_tallies (MRecordColdStart p u d) = [0, 0, 0, 0, 0, 1, 0]"
| "call_tallies (MRecordContainerStart p u) = [0, 0, 0, 0, 0, 1, 0]"
| "call_tallies (MOnContainerRunning p u t) = [0, 0, 0, 0, 0, 0, 0]"
| "call_tallies (MContainerStopped p u) = [0, 0, 0, 0, 0, 0, 1]"

text \<open>What the collector lives through: a call at an instant, or the tick of the rollup loop.\<close>

datatype collector_event = Recorded instant collector_call | RolledUp instant

definition collector_step :: "Collector \<times> Snapshot list \<Rightarrow> collector_event \<Rightarrow> Collector \<times> Snapshot list" where
  "collector_step cs e =
     (case e of
        Recorded t k \<Rightarrow> (run_collector_call t (fst cs) k, snd cs)
      | RolledUp t \<Rightarrow> (case rollupAll t (fst cs) of (c', snaps) \<Rightarrow> (c', snd cs @ snaps)))"

definition collector_run :: "Collector \<Rightarrow> collector_event list \<Rightarrow> Collector \<times> Snapshot list" where
  "collector_run c es = foldl collector_step (c, []) es"

definition port_snaps :: "portKey \<Rightarrow> Snapshot list \<Rightarrow> Snapshot list" where
  "port_snaps k snaps = filter (\<lambda>s. (sn_Port s, sn_IsUDP s) = k) snaps"

text \<open>The \<open>i\<close>-th counter: what the snapshots reported, what is still pending, what was recorded.\<close>

definition reported :: "nat \<Rightarrow> portKey \<Rightarrow> Snapshot list \<Rightarrow> int" where
  "reported i k snaps = sum_list (map (\<lambda>s. snap_tallies s ! i) (port_snaps k snaps))"

definition pending_count :: "nat \<Rightarrow> portKey \<Rightarrow> Collector \<Rightarrow> int" where
  "pending_count i k c = (case map_of (col_ports c) k of None \<Rightarrow> 0 | Some a \<Rightarrow> acc_tallies a ! i)"

definition recorded :: "nat \<Rightarrow> portKey \<Rightarrow> collector_event list \<Rightarrow> int" where
  "recorded i k es = sum_list (map (\<lambda>e. case e of
     Recorded t c \<Rightarrow> if call_port c = k then call_tallies c ! i else 0 | RolledUp t \<Rightarrow> 0) es)"

lemma call_pending:
  assumes "i < 7" and "map_of (col_ports c) k \<noteq> None" and "call \<noteq> MUnregisterPort (fst k) (snd k)"
  shows "wrap64 (pending_count i k (run_collector_call t c call)) =
    wrap64 (pending_count i k c + (if call_port call = k then call_tallies call ! i else 0))"
    and "map_of (col_ports (run_collector_call t c call)) k \<noteq> None"
proof -
  have i: "i \<in> {0, 1, 2, 3, 4, 5, 6}" using assms(1) by auto
  obtain a where a: "map_of (col_ports c) k = Some a" using assms(2) by blast
  show "wrap64 (pending_count i k (run_collector_call t c call)) =
    wrap64 (pending_count i k c + (if call_port call = k then call_tallies call ! i else 0))"
    using i a assms(3)
    by (cases call)
      (auto simp: pending_count_def call_defs with_accumulator_def update_conv' delete_conv' acc_tallies_def Let_def
        acc_started_def acc_ended_def acc_failed_def acc_bytes_def acc_cold_start_def
        acc_container_start_def acc_running_def acc_stopped_def split: option.splits)
  show "map_of (col_ports (run_collector_call t c call)) k \<noteq> None"
    using a assms(3)
    by (cases call)
      (auto simp: call_defs with_accumulator_def update_conv' delete_conv' Let_def split: option.splits)
qed

lemma port_snaps_rollup:
  assumes "collector_ok c" and "map_of (col_ports c) k = Some a"
  shows "port_snaps k (snd (rollupAll t c)) = [snd (rollup t a)]"
proof -
  have "filter (\<lambda>s. (sn_Port s, sn_IsUDP s) = k) (map (\<lambda>(_, a). snd (rollup t a)) m) = [snd (rollup t a)]"
    if "keys_distinct m" "\<forall>(k, a) \<in> set m. (acc_port a, acc_isUDP a) = k" "map_of m k = Some a" for m
    using that
  proof (induction m)
    case (Cons x m)
    obtain k' a' where x: "x = (k', a')" by fastforce
    have none: "filter (\<lambda>s. (sn_Port s, sn_IsUDP s) = k) (map (\<lambda>(_, a). snd (rollup t a)) m) = []"
      if "k \<notin> fst ` set m" using that Cons.prems(2)
      by (force simp: filter_empty_conv rollup_identity image_iff)
    show ?case
    proof (cases "k' = k")
      case True
      with Cons.prems x have "k \<notin> fst ` set m" "a' = a" "(acc_port a, acc_isUDP a) = k"
        by (auto simp: keys_distinct_def)
      with none x show ?thesis by (simp add: rollup_identity)
    next
      case False
      with Cons.prems x have "(acc_port a', acc_isUDP a') \<noteq> k" "keys_distinct m" "map_of m k = Some a"
        by (auto simp: keys_distinct_def)
      with Cons.IH Cons.prems(2) x show ?thesis by (auto simp: rollup_identity)
    qed
  qed simp
  with assms show ?thesis by (simp add: port_snaps_def rollupAll_def collector_ok_def)
qed


lemma rollup_tallies:
  "i < 7 \<Longrightarrow> snap_tallies (snd (rollup t a)) ! i = acc_tallies a ! i"
  "i < 7 \<Longrightarrow> acc_tallies (fst (rollup t a)) ! i = 0"
proof -
  show "snap_tallies (snd (rollup t a)) ! i = acc_tallies a ! i" if "i < 7"
    by (simp add: rollup_def Let_def snap_tallies_def acc_tallies_def)
  show "acc_tallies (fst (rollup t a)) ! i = 0" if "i < 7"
  proof -
    have "i \<in> {0, 1, 2, 3, 4, 5, 6}" using that by auto
    then show ?thesis by (auto simp: rollup_def Let_def acc_tallies_def)
  qed
qed

lemma reported_append: "reported i k (xs @ ys) = reported i k xs + reported i k ys"
  by (simp add: reported_def port_snaps_def)

lemma counters_step:
  assumes "i < 7" and "collector_ok (fst cs)" and "map_of (col_ports (fst cs)) k \<noteq> None"
    and "\<And>t. e \<noteq> Recorded t (MUnregisterPort (fst k) (snd k))"
  shows "wrap64 (reported i k (snd (collector_step cs e)) + pending_count i k (fst (collector_step cs e)))
      = wrap64 (reported i k (snd cs) + pending_count i k (fst cs) + recorded i k [e])
    \<and> collector_ok (fst (collector_step cs e)) \<and> map_of (col_ports (fst (collector_step cs e))) k \<noteq> None"
proof (cases e)
  case (Recorded t call)
  with assms(4) have ne: "call \<noteq> MUnregisterPort (fst k) (snd k)" by blast
  note p = call_pending [OF assms(1,3) ne, of t]
  have "wrap64 (reported i k (snd cs) + pending_count i k (run_collector_call t (fst cs) call))
      = wrap64 (reported i k (snd cs) + wrap64 (pending_count i k (fst cs)
          + (if call_port call = k then call_tallies call ! i else 0)))"
    using p(1) by (metis wrap64_add_right)
  with p(2) assms(2) Recorded show ?thesis
    by (simp add: collector_step_def recorded_def run_collector_call_ok add.assoc)
next
  case (RolledUp t)
  obtain a where a: "map_of (col_ports (fst cs)) k = Some a" using assms(3) by blast
  have "reported i k (snd (rollupAll t (fst cs))) = acc_tallies a ! i"
    using assms(1) by (simp add: reported_def port_snaps_rollup [OF assms(2) a] rollup_tallies)
  moreover have "pending_count i k (fst (rollupAll t (fst cs))) = 0"
    using assms(1) a by (simp add: pending_count_def rollupAll_def rollup_tallies)
  moreover have "map_of (col_ports (fst (rollupAll t (fst cs)))) k \<noteq> None"
    using a by (simp add: rollupAll_def)
  moreover have "collector_ok (fst (rollupAll t (fst cs)))" using assms(2) by (rule rollupAll_ok)
  moreover have "pending_count i k (fst cs) = acc_tallies a ! i" using a by (simp add: pending_count_def)
  ultimately show ?thesis
    by (simp add: RolledUp collector_step_def recorded_def reported_append case_prod_unfold)
qed

lemma counters_run:
  assumes "i < 7" and "collector_ok (fst cs)" and "map_of (col_ports (fst cs)) k \<noteq> None"
    and "\<forall>t. Recorded t (MUnregisterPort (fst k) (snd k)) \<notin> set es"
  shows "wrap64 (reported i k (snd (foldl collector_step cs es)) + pending_count i k (fst (foldl collector_step cs es)))
      = wrap64 (reported i k (snd cs) + pending_count i k (fst cs) + recorded i k es)"
  using assms(2-4)
proof (induction es arbitrary: cs)
  case Nil
  then show ?case by (simp add: recorded_def)
next
  case (Cons e es)
  note st = counters_step [OF assms(1) Cons.prems(1,2), of e]
  have ne: "e \<noteq> Recorded t (MUnregisterPort (fst k) (snd k))" for t using Cons.prems(3) by auto
  have "recorded i k (e # es) = recorded i k [e] + recorded i k es" by (simp add: recorded_def)
  moreover have "wrap64 (reported i k (snd (collector_step cs e)) + pending_count i k (fst (collector_step cs e)) + recorded i k es)
     = wrap64 (reported i k (snd cs) + pending_count i k (fst cs) + recorded i k [e] + recorded i k es)"
    using st [OF ne] by (metis wrap64_add_left)
  moreover have "\<forall>t. Recorded t (MUnregisterPort (fst k) (snd k)) \<notin> set es"
    using Cons.prems(3) by simp
  ultimately show ?case using Cons.IH [of "collector_step cs e"] st [OF ne] by (simp add: add.assoc)
qed


subsection \<open>Uptime across rollups\<close>

primrec rollups :: "portAccumulator \<Rightarrow> instant list \<Rightarrow> Snapshot list" where
  "rollups a [] = []"
| "rollups a (t # ts) = (case rollup t a of (a', s) \<Rightarrow> s # rollups a' ts)"

lemma rollup_running:
  assumes "acc_containerRunning a" and "acc_uptimeAccumMs a = 0"
    and "acc_containerUpAt a \<le> t" and "t - acc_containerUpAt a < 2 ^ 63"
  shows "sn_UptimeMsTotal (snd (rollup t a)) = (t - acc_containerUpAt a) div millisecond"
    and "acc_containerRunning (fst (rollup t a))" "acc_uptimeAccumMs (fst (rollup t a)) = 0"
    and "acc_containerUpAt (fst (rollup t a)) = t"
proof -
  let ?d = "t - acc_containerUpAt a"
  have in64: "in_int64 ?d" using assms(3,4) by (simp add: in_int64_def)
  have "0 \<le> ?d div millisecond" using assms(3) by simp
  moreover have "?d div millisecond \<le> ?d"
    using zdiv_mono2 [of ?d 1 millisecond] assms(3) by simp
  ultimately have "in_int64 (?d div millisecond)" using in64 by (simp add: in_int64_def)
  with assms(1-3) show "sn_UptimeMsTotal (snd (rollup t a)) = ?d div millisecond"
    by (simp add: rollup_def Let_def time_sub_exact [OF in64] millis_nonneg)
  show "acc_containerRunning (fst (rollup t a))" "acc_uptimeAccumMs (fst (rollup t a)) = 0"
    "acc_containerUpAt (fst (rollup t a)) = t"
    using assms(1) by (simp_all add: rollup_def Let_def)
qed

lemma rollups_uptime:
  assumes "acc_containerRunning a" and "acc_uptimeAccumMs a = 0"
    and "sorted (acc_containerUpAt a # ts)" and "last (acc_containerUpAt a # ts) - acc_containerUpAt a < 2 ^ 63"
  shows "sum_list (map sn_UptimeMsTotal (rollups a ts)) * millisecond
       \<le> last (acc_containerUpAt a # ts) - acc_containerUpAt a
    \<and> last (acc_containerUpAt a # ts) - acc_containerUpAt a
       \<le> sum_list (map sn_UptimeMsTotal (rollups a ts)) * millisecond + (millisecond - 1) * int (length ts)"
  using assms
proof (induction ts arbitrary: a)
  case (Cons t ts)
  let ?u = "acc_containerUpAt a"
  have le: "?u \<le> t" "t \<le> last (t # ts)"
    using Cons.prems(3) by (auto simp: last_conv_nth sorted_iff_nth_mono)
  then have d: "t - ?u < 2 ^ 63" using Cons.prems(4) by simp
  note r = rollup_running [OF Cons.prems(1,2) le(1) d]
  have "last (t # ts) - t < 2 ^ 63" "sorted (t # ts)" using Cons.prems(3,4) le by auto
  with Cons.IH [of "fst (rollup t a)"] r
  have IH: "sum_list (map sn_UptimeMsTotal (rollups (fst (rollup t a)) ts)) * millisecond \<le> last (t # ts) - t
    \<and> last (t # ts) - t \<le> sum_list (map sn_UptimeMsTotal (rollups (fst (rollup t a)) ts)) * millisecond
        + (millisecond - 1) * int (length ts)" by simp
  have "(t - ?u) div millisecond * millisecond + (t - ?u) mod millisecond = t - ?u" by simp
  moreover have "0 \<le> (t - ?u) mod millisecond" "(t - ?u) mod millisecond \<le> millisecond - 1" by simp_all
  moreover obtain l where l: "last (t # ts) = l" by blast
  moreover define S where "S = sum_list (map sn_UptimeMsTotal (rollups (fst (rollup t a)) ts))"
  moreover define q where "q = (t - ?u) div millisecond"
  ultimately have "(q + S) * millisecond \<le> l - ?u
    \<and> l - ?u \<le> (q + S) * millisecond + (millisecond - 1) * (1 + int (length ts))"
    using IH by (simp only: ring_distribs) linarith
  moreover have "last (?u # t # ts) = l" using l by simp
  moreover have "sum_list (map sn_UptimeMsTotal (rollups a (t # ts))) = q + S"
    by (simp add: case_prod_unfold r(1) S_def q_def)
  ultimately show ?case by simp
qed simp

subsection \<open>Retry buffer\<close>

definition last_n :: "nat \<Rightarrow> 'a list \<Rightarrow> 'a list" where
  "last_n n xs = drop (length xs - n) xs"

lemma retry_push_last_n: "retry_push (last_n 5 xs) s = last_n 5 (xs @ [s])"
proof (cases "length xs \<ge> 5")
  case True
  then have "length xs - 4 = Suc (length xs - 5)" by simp
  then have "tl (drop (length xs - 5) xs) = drop (length xs - 4) xs" by (simp add: tl_drop drop_Suc)
  with True show ?thesis by (simp add: retry_push_def last_n_def)
next
  case False
  then show ?thesis by (simp add: retry_push_def last_n_def)
qed

text \<open>What a run of writes leaves: the database state and the snapshots whose db_write failed.\<close>

primrec write_all :: "('d \<Rightarrow> Snapshot \<Rightarrow> 'd \<times> bool) \<Rightarrow> 'd \<Rightarrow> Snapshot list \<Rightarrow> 'd \<times> Snapshot list" where
  "write_all db_write d [] = (d, [])"
| "write_all db_write d (s # ss) =
     (case db_write d s of (d', ok) \<Rightarrow>
        case write_all db_write d' ss of (d'', failed) \<Rightarrow> (d'', if ok then failed else s # failed))"

lemma write_one_fold:
  "foldl (write_one db_write) (d, last_n 5 xs) ss
    = (fst (write_all db_write d ss), last_n 5 (xs @ snd (write_all db_write d ss)))"
proof (induction ss arbitrary: d xs)
  case (Cons s ss)
  show ?case
  proof (cases "db_write d s")
    case (Pair d' ok)
    then show ?thesis
      using Cons.IH [of d' "xs @ [s]"] Cons.IH [of d' xs]
      by (cases ok) (simp_all add: write_one_def retry_push_last_n case_prod_unfold)
  qed
qed (simp add: last_n_def)

lemma write_all_append:
  "write_all db_write d (xs @ ys) =
    (let (d', f) = write_all db_write d xs; (d'', f') = write_all db_write d' ys in (d'', f @ f'))"
  by (induction xs arbitrary: d) (simp_all add: case_prod_unfold Let_def)


subsection \<open>Heat map\<close>

definition day_lengths_ok :: "ServiceActivity \<Rightarrow> bool" where
  "day_lengths_ok sa \<longleftrightarrow>
     length (sa_Sun sa) = 24 \<and> length (sa_Mon sa) = 24 \<and> length (sa_Tue sa) = 24 \<and> length (sa_Wed sa) = 24
     \<and> length (sa_Thu sa) = 24 \<and> length (sa_Fri sa) = 24 \<and> length (sa_Sat sa) = 24"

definition row_in_range :: "activity_row \<Rightarrow> bool" where
  "row_in_range r \<longleftrightarrow> 0 \<le> row_dow r \<and> row_dow r \<le> 6 \<and> 0 \<le> row_hr r \<and> row_hr r < 24"

lemma mark_hour_spec:
  assumes "day_lengths_ok sa" and "row_in_range r" and "0 \<le> d" "d \<le> 6" "0 \<le> h" "h < 24"
  shows "day_lengths_ok (mark_hour r sa)"
    and "activity_cell (mark_hour r sa) d h
      = (if d = row_dow r \<and> h = row_hr r then (if row_conns r > 0 then 2 else 1) else activity_cell sa d h)"
proof -
  have dow: "row_dow r \<in> {0, 1, 2, 3, 4, 5, 6}" using assms(2) by (auto simp: row_in_range_def)
  show "day_lengths_ok (mark_hour r sa)"
    using assms(1) by (simp add: mark_hour_def day_lengths_ok_def Let_def)
  have "d \<in> {0, 1, 2, 3, 4, 5, 6}" using assms(3,4) by auto
  then show "activity_cell (mark_hour r sa) d h
      = (if d = row_dow r \<and> h = row_hr r then (if row_conns r > 0 then 2 else 1) else activity_cell sa d h)"
    using dow assms(1,2,5,6) unfolding insert_iff empty_iff
    by (elim disjE FalseE) (simp_all add: activity_cell_def mark_hour_def day_lengths_ok_def row_in_range_def Let_def
        nth_list_update eq_nat_nat_iff)
qed

lemma mark_hour_active:
  "row_in_range r \<Longrightarrow> sa_Active (mark_hour r sa)"
  by (simp add: mark_hour_def row_in_range_def Let_def)

lemma mark_hour_key:
  "sa_ContainerName (mark_hour r sa) = sa_ContainerName sa"
  "sa_Port (mark_hour r sa) = sa_Port sa" "sa_IsUDP (mark_hour r sa) = sa_IsUDP sa"
  by (simp_all add: mark_hour_def Let_def)

definition sa_key :: "ServiceActivity \<Rightarrow> serviceKey" where
  "sa_key sa = (sa_ContainerName sa, sa_Port sa, sa_IsUDP sa)"

text \<open>The cell a row set asks for; the query groups by service, weekday and hour.\<close>

definition wanted_cell :: "activity_row list \<Rightarrow> serviceKey \<Rightarrow> int \<Rightarrow> int \<Rightarrow> int" where
  "wanted_cell rows k d h =
     (case filter (\<lambda>r. row_key r = k \<and> row_dow r = d \<and> row_hr r = h) rows of
        [] \<Rightarrow> 0 | r # _ \<Rightarrow> if row_conns r > 0 then 2 else 1)"

definition grouped :: "activity_row list \<Rightarrow> bool" where
  "grouped rows \<longleftrightarrow> distinct (map (\<lambda>r. (row_key r, row_dow r, row_hr r)) rows) \<and> list_all row_in_range rows"

definition index_ok :: "activity_row list \<Rightarrow> (serviceKey \<times> ServiceActivity) list \<Rightarrow> bool" where
  "index_ok rows index \<longleftrightarrow> keys_distinct index \<and> fst ` set index = row_key ` set rows
     \<and> (\<forall>k sa. map_of index k = Some sa \<longrightarrow> sa_key sa = k \<and> sa_Active sa \<and> day_lengths_ok sa
          \<and> (\<forall>d h. 0 \<le> d \<and> d \<le> 6 \<and> 0 \<le> h \<and> h < 24 \<longrightarrow> activity_cell sa d h = wanted_cell rows k d h))"

lemma new_service_spec:
  "day_lengths_ok (new_service k)" "sa_key (new_service k) = k"
  "0 \<le> d \<Longrightarrow> d \<le> 6 \<Longrightarrow> 0 \<le> h \<Longrightarrow> h < 24 \<Longrightarrow> activity_cell (new_service k) d h = 0"
  by (simp_all add: day_lengths_ok_def new_service_def no_hours_def sa_key_def activity_cell_def Let_def)

lemma wanted_cell_append:
  assumes "(row_key r, row_dow r, row_hr r) \<notin> (\<lambda>r. (row_key r, row_dow r, row_hr r)) ` set rows"
  shows "wanted_cell (rows @ [r]) k d h =
    (if row_key r = k \<and> row_dow r = d \<and> row_hr r = h then (if row_conns r > 0 then 2 else 1) else wanted_cell rows k d h)"
proof (cases "row_key r = k \<and> row_dow r = d \<and> row_hr r = h")
  case True
  then have "filter (\<lambda>r. row_key r = k \<and> row_dow r = d \<and> row_hr r = h) rows = []"
    using assms by (force simp: filter_empty_conv image_iff)
  with True show ?thesis by (simp add: wanted_cell_def)
next
  case False
  then have "filter (\<lambda>r. row_key r = k \<and> row_dow r = d \<and> row_hr r = h) [r] = []" by auto
  then show ?thesis unfolding wanted_cell_def if_not_P [OF False] filter_append by (simp only: append_Nil2)
qed

lemma wanted_cell_no_key:
  assumes "k \<notin> row_key ` set rows"
  shows "wanted_cell rows k d h = 0"
proof -
  have "filter (\<lambda>r. row_key r = k \<and> row_dow r = d \<and> row_hr r = h) rows = []"
    using assms by (auto simp: filter_empty_conv)
  then show ?thesis by (simp add: wanted_cell_def)
qed

lemma activity_step_ok:
  assumes "index_ok rows index" and "row_in_range r"
    and "(row_key r, row_dow r, row_hr r) \<notin> (\<lambda>r. (row_key r, row_dow r, row_hr r)) ` set rows"
  shows "index_ok (rows @ [r]) (activity_step index r)"
proof -
  define k where "k = row_key r"
  define sa where "sa = (case map_of index k of None \<Rightarrow> new_service k | Some sa \<Rightarrow> sa)"
  have sa: "day_lengths_ok sa \<and> sa_key sa = k \<and> (\<forall>d h. 0 \<le> d \<and> d \<le> 6 \<and> 0 \<le> h \<and> h < 24
      \<longrightarrow> activity_cell sa d h = wanted_cell rows k d h)"
  proof (cases "map_of index k")
    case None
    then have "k \<notin> row_key ` set rows" using assms(1) by (simp add: index_ok_def map_of_eq_None_iff)
    with None show ?thesis by (simp add: sa_def new_service_spec wanted_cell_no_key)
  next
    case (Some x)
    with assms(1) have "sa_key x = k \<and> day_lengths_ok x \<and> (\<forall>d h. 0 \<le> d \<and> d \<le> 6 \<and> 0 \<le> h \<and> h < 24
        \<longrightarrow> activity_cell x d h = wanted_cell rows k d h)" unfolding index_ok_def by blast
    with Some show ?thesis by (simp add: sa_def)
  qed
  have step: "activity_step index r = AList.update k (mark_hour r sa) index"
    unfolding activity_step_def sa_def k_def Let_def by (rule refl)
  have cell: "activity_cell (mark_hour r sa) d h = wanted_cell (rows @ [r]) k d h"
    if "0 \<le> d" "d \<le> 6" "0 \<le> h" "h < 24" for d h
  proof -
    have "activity_cell sa d h = wanted_cell rows k d h" using sa that by blast
    then show ?thesis
      using mark_hour_spec(2) [OF _ assms(2) that, of sa] sa
      unfolding wanted_cell_append [OF assms(3)] k_def [symmetric] by (simp add: eq_commute [of d] eq_commute [of h])
  qed
  have other: "wanted_cell (rows @ [r]) k' d h = wanted_cell rows k' d h" if "k' \<noteq> k" for k' d h
    using that by (simp add: wanted_cell_append [OF assms(3)] k_def)
  have len: "day_lengths_ok (mark_hour r sa)"
    using mark_hour_spec(1) [OF _ assms(2), of sa 0 0] sa by simp
  have keys: "fst ` set (AList.update k (mark_hour r sa) index) = insert k (fst ` set index)"
    by (simp add: dom_update)
  show ?thesis
    unfolding index_ok_def step
  proof (intro conjI allI impI)
    show "keys_distinct (AList.update k (mark_hour r sa) index)" using assms(1) by (simp add: index_ok_def)
    show "fst ` set (AList.update k (mark_hour r sa) index) = row_key ` set (rows @ [r])"
      using assms(1) unfolding keys by (simp add: index_ok_def k_def)
  next
    fix k' sa'
    assume m: "map_of (AList.update k (mark_hour r sa) index) k' = Some sa'"
    have "sa_key sa' = k' \<and> sa_Active sa' \<and> day_lengths_ok sa' \<and> (\<forall>d h. 0 \<le> d \<and> d \<le> 6 \<and> 0 \<le> h \<and> h < 24
        \<longrightarrow> activity_cell sa' d h = wanted_cell (rows @ [r]) k' d h)"
    proof (cases "k' = k")
      case True
      then have "sa' = mark_hour r sa" using m by (simp add: update_conv')
      with True sa cell len mark_hour_active [OF assms(2)] show ?thesis
        by (simp add: sa_key_def mark_hour_key)
    next
      case False
      then have "map_of index k' = Some sa'" using m by (simp add: update_conv')
      with assms(1) have "sa_key sa' = k' \<and> sa_Active sa' \<and> day_lengths_ok sa' \<and> (\<forall>d h. 0 \<le> d \<and> d \<le> 6 \<and> 0 \<le> h \<and> h < 24
        \<longrightarrow> activity_cell sa' d h = wanted_cell rows k' d h)" unfolding index_ok_def by blast
      then show ?thesis unfolding other [OF False] .
    qed
    then show "sa_key sa' = k'" "sa_Active sa'" "day_lengths_ok sa'"
      and "\<And>d h. 0 \<le> d \<and> d \<le> 6 \<and> 0 \<le> h \<and> h < 24
        \<Longrightarrow> activity_cell sa' d h = wanted_cell (rows @ [r]) k' d h" by blast+
  qed
qed

lemma activity_fold_ok:
  assumes "index_ok rows index" and "grouped (rows @ rs)"
  shows "index_ok (rows @ rs) (foldl activity_step index rs)"
  using assms
proof (induction rs arbitrary: rows index)
  case (Cons r rs)
  then have "index_ok (rows @ [r]) (activity_step index r)"
    by (intro activity_step_ok) (auto simp: grouped_def)
  with Cons.IH [of "rows @ [r]"] Cons.prems(2) show ?case by simp
qed simp


subsection \<open>Properties\<close>

text \<open>
  C31: no event is lost or counted twice. As long as a port stays registered, what the rollups
  have reported for it so far plus what is still pending is what was pending before plus what
  was recorded since, for each of the seven counters (connections started, ended and failed,
  bytes sent and received, container starts and stops), as 64-bit integers.
\<close>

theorem counters_conserved:
  assumes "i < 7" and "collector_ok c" and "map_of (col_ports c) k \<noteq> None"
    and "\<forall>t. Recorded t (MUnregisterPort (fst k) (snd k)) \<notin> set es"
  shows "wrap64 (reported i k (snd (collector_run c es)) + pending_count i k (fst (collector_run c es)))
    = wrap64 (pending_count i k c + recorded i k es)"
  using counters_run [of i "(c, [])" k es] assms
  by (simp add: collector_run_def reported_def port_snaps_def)

theorem counters_conserved_witness:
  "let c = RegisterPort 0 New_Collector 80 ''web'' False ''ondemand'';
       es = [Recorded 1 (MConnectionStarted 80 False), Recorded 2 (MAddBytes 80 False 10 20),
             RolledUp 3, Recorded 4 (MAddBytes 80 False 5 0), RolledUp 5]
   in wrap64 (reported 3 (80, False) (snd (collector_run c es)) + pending_count 3 (80, False) (fst (collector_run c es))) = 15"
proof -
  let ?c = "RegisterPort 0 New_Collector 80 ''web'' False ''ondemand''"
  let ?es = "[Recorded 1 (MConnectionStarted 80 False), Recorded 2 (MAddBytes 80 False 10 20),
             RolledUp 3, Recorded 4 (MAddBytes 80 False 5 0), RolledUp 5]"
  have "collector_ok ?c"
    by (simp add: collector_ok_def RegisterPort_def New_Collector_def new_accumulator_def keys_distinct_def)
  moreover have "map_of (col_ports ?c) (80, False) \<noteq> None"
    by (simp add: RegisterPort_def New_Collector_def)
  ultimately have "wrap64 (reported 3 (80, False) (snd (collector_run ?c ?es)) + pending_count 3 (80, False) (fst (collector_run ?c ?es)))
    = wrap64 (pending_count 3 (80, False) ?c + recorded 3 (80, False) ?es)"
    by (intro counters_conserved) auto
  also have "pending_count 3 (80, False) ?c = 0"
    by (simp add: pending_count_def RegisterPort_def New_Collector_def acc_tallies_def new_accumulator_def)
  also have "recorded 3 (80, False) ?es = 15" by (simp add: recorded_def)
  finally show ?thesis unfolding Let_def by (simp add: in_int64_def)
qed

text \<open>
  Each rollup covers exactly the time since the previous one and never reports a peak below
  the number of connections open at its end, which is also where the next window's peak starts.
\<close>

theorem rollup_window_and_peak:
  "sn_RollupAt (snd (rollup t2 (fst (rollup t1 a)))) = t1
   \<and> sn_ConnectionsActive (snd (rollup t1 a)) \<le> sn_ConnectionsPeak (snd (rollup t1 a))
   \<and> sn_ConnectionsPeak (snd (rollup t2 (fst (rollup t1 a)))) = sn_ConnectionsActive (snd (rollup t1 a))"
  by (simp add: rollup_def Let_def)

text \<open>
  The uptime of a container that runs through any number of rollups is reported without
  gap and without double counting: the reported milliseconds never exceed the time since it
  came up and miss less than one millisecond per rollup.
\<close>

theorem uptime_has_no_gap:
  assumes "acc_containerRunning a" and "acc_uptimeAccumMs a = 0"
    and "sorted (acc_containerUpAt a # ts)" and "last (acc_containerUpAt a # ts) - acc_containerUpAt a < 2 ^ 63"
  shows "sum_list (map sn_UptimeMsTotal (rollups a ts)) * millisecond
       \<le> last (acc_containerUpAt a # ts) - acc_containerUpAt a
    \<and> last (acc_containerUpAt a # ts) - acc_containerUpAt a
       \<le> sum_list (map sn_UptimeMsTotal (rollups a ts)) * millisecond + (millisecond - 1) * int (length ts)"
  using assms by (rule rollups_uptime)

theorem uptime_has_no_gap_witness:
  "let a = acc_running 5 (new_accumulator 0 80 ''web'' False ''ondemand'');
       ups = sum_list (map sn_UptimeMsTotal (rollups a [60000000005, 120000000000]))
   in ups * millisecond \<le> 119999999995 \<and> 119999999995 \<le> ups * millisecond + 1999998"
  using uptime_has_no_gap [of "acc_running 5 (new_accumulator 0 80 ''web'' False ''ondemand'')"
      "[60000000005, 120000000000]"]
  by (simp add: acc_running_def new_accumulator_def Let_def)

text \<open>
  A flush attempts the buffered snapshots first and then the new ones, oldest first, and
  afterwards the retry buffer holds exactly the newest five of those that failed, in order.
\<close>

theorem flush_keeps_newest_failures:
  "flush db_write d c current
     = (fst (write_all db_write d (col_retry c @ current)),
        c\<lparr>col_retry := last_n 5 (snd (write_all db_write d (col_retry c @ current)))\<rparr>)"
  using write_one_fold [of db_write d "[]" "col_retry c"]
    write_one_fold [of db_write "fst (write_all db_write d (col_retry c))" "snd (write_all db_write d (col_retry c))" current]
  by (simp add: flush_def retry_drain_def Let_def write_all_append case_prod_unfold last_n_def)

text \<open>
  The heat map has one entry per service of the query's rows, each marked active, and the
  cell of a weekday and hour is 0 without a row, 2 when the row has connections and 1 otherwise.
\<close>

theorem heat_map_cells:
  assumes "grouped rows"
  shows "distinct (map sa_key (hourlyActivity rows)) \<and> sa_key ` set (hourlyActivity rows) = row_key ` set rows
    \<and> (\<forall>sa \<in> set (hourlyActivity rows). sa_Active sa \<and> (\<forall>d h. 0 \<le> d \<and> d \<le> 6 \<and> 0 \<le> h \<and> h < 24 \<longrightarrow>
          activity_cell sa d h = wanted_cell rows (sa_key sa) d h))"
proof -
  let ?m = "foldl activity_step [] rows"
  have "index_ok [] []" by (simp add: index_ok_def keys_distinct_def)
  from activity_fold_ok [OF this, of rows] assms have ok: "index_ok rows ?m" by simp
  have entry: "sa_key sa = k \<and> sa_Active sa \<and> (\<forall>d h. 0 \<le> d \<and> d \<le> 6 \<and> 0 \<le> h \<and> h < 24
      \<longrightarrow> activity_cell sa d h = wanted_cell rows k d h)" if "(k, sa) \<in> set ?m" for k sa
  proof -
    have "map_of ?m k = Some sa" using ok that in_alist_iff [of ?m k sa] by (simp add: index_ok_def)
    with ok show ?thesis unfolding index_ok_def by blast
  qed
  have "map (sa_key \<circ> snd) ?m = map fst ?m"
    using entry by (intro map_cong refl) auto
  then have keys: "map sa_key (hourlyActivity rows) = map fst ?m" by (simp add: hourlyActivity_def)
  then have "sa_key ` set (hourlyActivity rows) = fst ` set ?m" by (metis list.set_map)
  moreover have "\<forall>sa \<in> set (hourlyActivity rows). sa_Active sa \<and> (\<forall>d h. 0 \<le> d \<and> d \<le> 6 \<and> 0 \<le> h \<and> h < 24 \<longrightarrow>
          activity_cell sa d h = wanted_cell rows (sa_key sa) d h)"
    using entry unfolding hourlyActivity_def by fastforce
  ultimately show ?thesis using ok keys by (simp add: index_ok_def keys_distinct_def)
qed

theorem heat_map_cells_witness:
  "map sa_key (hourlyActivity
     [\<lparr>row_name = ''web'', row_port = 80, row_isUDP = False, row_dow = 0, row_hr = 9, row_conns = 3\<rparr>]) = [(''web'', 80, False)]
   \<and> activity_cell (hd (hourlyActivity
     [\<lparr>row_name = ''web'', row_port = 80, row_isUDP = False, row_dow = 0, row_hr = 9, row_conns = 3\<rparr>])) 0 9 = 2"
proof -
  let ?r = "\<lparr>row_name = ''web'', row_port = 80, row_isUDP = False, row_dow = 0, row_hr = 9, row_conns = 3\<rparr>"
  let ?h = "hourlyActivity [?r]"
  have g: "grouped [?r]" by (simp add: grouped_def row_in_range_def)
  have keys: "map sa_key ?h = [(''web'', 80, False)]"
    by (simp add: hourlyActivity_def activity_step_def Let_def sa_key_def mark_hour_key new_service_def row_key_def)
  then obtain sa where sa: "?h = [sa]" "sa_key sa = (''web'', 80, False)" by auto
  have "activity_cell sa 0 9 = wanted_cell [?r] (sa_key sa) 0 9"
    using heat_map_cells [OF g] sa(1) by simp
  also have "\<dots> = 2" by (simp add: wanted_cell_def sa(2) row_key_def)
  finally show ?thesis using keys sa(1) by simp
qed

text \<open>
  A port that is unregistered and registered again while a connection is open, which a
  configuration reload does to every changed target, counts the end of that connection against
  the new accumulator, whose gauge of active connections becomes negative.
\<close>

theorem reregistered_gauge_negative:
  assumes "map_of (col_ports c) (port, isUDP) = Some a"
  shows "map_option acc_activeConns (map_of (col_ports
      (ConnectionEnded (RegisterPort now (UnregisterPort c port isUDP) port name isUDP av) port isUDP ms)) (port, isUDP))
    = Some (-1)"
  by (simp add: UnregisterPort_def RegisterPort_def ConnectionEnded_def with_accumulator_def acc_ended_def
      new_accumulator_def delete_conv' update_conv' Let_def)

theorem reregistered_gauge_negative_witness:
  "map_option acc_activeConns (map_of (col_ports
      (ConnectionEnded (RegisterPort 2 (UnregisterPort
         (ConnectionStarted (RegisterPort 0 New_Collector 80 ''web'' False ''ondemand'') 80 False) 80 False)
       80 ''web'' False ''ondemand'') 80 False 7)) (80, False)) = Some (-1)"
proof -
  obtain a where "map_of (col_ports (ConnectionStarted
      (RegisterPort 0 New_Collector 80 ''web'' False ''ondemand'') 80 False)) (80, False) = Some a"
    by (simp add: ConnectionStarted_def with_accumulator_def RegisterPort_def New_Collector_def)
  then show ?thesis by (rule reregistered_gauge_negative)
qed


end
