(* ===== verification/Proxy_Server.thy ===== *)
theory Proxy_Server
  imports Target_Types Metrics Cron_Scheduler
begin

text \<open>
  \<open>internal/proxy/server.go\<close>: the proxy server's registry of targets and their lifecycle. The
  server's maps are association lists in the order one iteration picks. Every operation
  returns the new state and the list of effects it has outside the state: calls of the metrics
  collector, of the cron scheduler and of the backend, listeners opened and closed, webhooks
  fired and cascades launched. The container backend is an argument: a backend state \<open>'b\<close> with \<open>ensure\<close>
  (\<open>EnsureRunning\<close>) and \<open>stop\<close> (\<open>StopContainer\<close>), whose result is whether the error is nil;
  \<open>listen udp port\<close> says whether the operating system grants a listener.
\<close>

subsection \<open>State\<close>

record targetState =
  ts_info :: TargetInfo
  ts_listenPort :: int
  ts_targetPort :: int
  ts_tlsListener :: bool
  ts_lastActive :: instant
  ts_activeConns :: int
  ts_idleTimeout :: "duration option"
  ts_startTimeout :: duration
  ts_httpHealthCheck :: string
  ts_hasHealthCheck :: bool
  ts_running :: bool
  ts_missing :: bool
  ts_removed :: bool
  ts_tlsEnabled :: bool
  ts_apiKey :: "string slice"
  ts_basicAuth :: "string slice"

text \<open>An upstream UDP socket is named by a number.\<close>

record udpFlow =
  fl_clientAddr :: UDPAddr
  fl_upstreamConn :: nat
  fl_lastActive :: instant
  fl_startTime :: instant
  fl_connectionID :: string

record udpListenerState =
  uls_listenPort :: int
  uls_targetPort :: int
  uls_info :: TargetInfo
  uls_lastActive :: instant
  uls_activeFlows :: int
  uls_idleTimeout :: "duration option"
  uls_startTimeout :: duration
  uls_running :: bool
  uls_missing :: bool
  uls_removed :: bool
  uls_flows :: "(string \<times> udpFlow) list"
  uls_pending :: "string list"
  uls_upstreamReady :: bool
  uls_upstreamStarting :: bool

record cronOnlyState =
  ct_info :: TargetInfo
  ct_running :: bool

record ProxyServer =
  srv_targets :: "(int \<times> targetState) list"
  srv_udpTargets :: "(int \<times> udpListenerState) list"
  srv_cronOnlyTargets :: "(string \<times> cronOnlyState) list"
  srv_nameToID :: "string \<Rightarrow> string option"
  srv_pollInterval :: duration
  srv_idleTimeout :: duration
  srv_startTimeout :: duration
  srv_startTime :: instant
  srv_sched :: bool
  srv_tlsConfig :: bool
  srv_collector :: bool
  srv_composeDir :: string

record webhookPayload =
  wp_Event :: string
  wp_ConnectionID :: string
  wp_RemoteAddr :: string
  wp_RemotePort :: int
  wp_ContainerID :: string
  wp_ContainerName :: string

datatype server_effect =
    Collect collector_call
  | Sched sched_call
  | Webhook string webhookPayload
  | StartCascade TargetInfo
  | StopCascade TargetInfo
  | ListenTCP int bool
  | ListenUDP int
  | CloseTCP int
  | CloseUDP int
  | CallEnsure string
  | CallStop string string

definition NewServer :: "instant \<Rightarrow> duration \<Rightarrow> duration \<Rightarrow> duration \<Rightarrow> bool \<Rightarrow> ProxyServer" where
  "NewServer startTime idleTimeout pollInterval startTimeout tlsConfig =
     \<lparr>srv_targets = [], srv_udpTargets = [], srv_cronOnlyTargets = [], srv_nameToID = (\<lambda>_. None),
      srv_pollInterval = pollInterval, srv_idleTimeout = idleTimeout, srv_startTimeout = startTimeout,
      srv_startTime = startTime, srv_sched = False, srv_tlsConfig = tlsConfig, srv_collector = False,
      srv_composeDir = ''''\<rparr>"

definition SetScheduler :: "ProxyServer \<Rightarrow> ProxyServer" where
  "SetScheduler s = s\<lparr>srv_sched := True\<rparr>"

definition SetComposeDir :: "ProxyServer \<Rightarrow> string \<Rightarrow> ProxyServer" where
  "SetComposeDir s dir = s\<lparr>srv_composeDir := dir\<rparr>"

definition effectiveTimeout :: "duration option \<Rightarrow> duration \<Rightarrow> duration" where
  "effectiveTimeout perContainer global = (case perContainer of Some d \<Rightarrow> d | None \<Rightarrow> global)"

text \<open>The calls made under \<open>if s.collector != nil\<close>.\<close>

definition collect :: "ProxyServer \<Rightarrow> collector_call list \<Rightarrow> server_effect list" where
  "collect s calls = (if srv_collector s then map Collect calls else [])"

abbreviation "ts_id ts \<equiv> ContainerID (ts_info ts)"
abbreviation "uls_id uls \<equiv> ContainerID (uls_info uls)"
abbreviation "ct_id ct \<equiv> ContainerID (ct_info ct)"

text \<open>The mappings of a container, and an update of all of them.\<close>

definition tcp_of :: "ProxyServer \<Rightarrow> string \<Rightarrow> targetState list" where
  "tcp_of s cid = filter (\<lambda>ts. ts_id ts = cid) (map snd (srv_targets s))"

definition udp_of :: "ProxyServer \<Rightarrow> string \<Rightarrow> udpListenerState list" where
  "udp_of s cid = filter (\<lambda>uls. uls_id uls = cid) (map snd (srv_udpTargets s))"

definition each_tcp :: "string \<Rightarrow> (targetState \<Rightarrow> targetState) \<Rightarrow> ProxyServer \<Rightarrow> ProxyServer" where
  "each_tcp cid f s = s\<lparr>srv_targets := map_values (\<lambda>_ ts. if ts_id ts = cid then f ts else ts) (srv_targets s)\<rparr>"

definition each_udp :: "string \<Rightarrow> (udpListenerState \<Rightarrow> udpListenerState) \<Rightarrow> ProxyServer \<Rightarrow> ProxyServer" where
  "each_udp cid f s = s\<lparr>srv_udpTargets := map_values (\<lambda>_ uls. if uls_id uls = cid then f uls else uls) (srv_udpTargets s)\<rparr>"

definition each_cron :: "string \<Rightarrow> (cronOnlyState \<Rightarrow> cronOnlyState) \<Rightarrow> ProxyServer \<Rightarrow> ProxyServer" where
  "each_cron cid f s = s\<lparr>srv_cronOnlyTargets := map_values (\<lambda>k ct. if k = cid then f ct else ct) (srv_cronOnlyTargets s)\<rparr>"

definition short_id :: "string \<Rightarrow> string" where
  "short_id cid = (if length cid > 12 then take 12 cid else cid)"

definition fireWebhook :: "string \<Rightarrow> string \<Rightarrow> string \<Rightarrow> string \<Rightarrow> string \<Rightarrow> string \<Rightarrow> int \<Rightarrow> server_effect" where
  "fireWebhook url event containerID containerName connID remoteAddr remotePort =
     Webhook url \<lparr>wp_Event = event, wp_ConnectionID = connID, wp_RemoteAddr = remoteAddr,
       wp_RemotePort = remotePort, wp_ContainerID = short_id containerID, wp_ContainerName = containerName\<rparr>"

text \<open>A lifecycle webhook, when the target declares a URL.\<close>

definition lifecycle_webhook :: "TargetInfo \<Rightarrow> string \<Rightarrow> string \<Rightarrow> string \<Rightarrow> server_effect list" where
  "lifecycle_webhook info event cid name =
     (if WebhookURL info \<noteq> '''' then [fireWebhook (WebhookURL info) event cid name '''' '''' 0] else [])"

subsection \<open>Metrics back-fill\<close>

definition SetCollector :: "instant \<Rightarrow> ProxyServer \<Rightarrow> ProxyServer \<times> server_effect list" where
  "SetCollector now s =
     (s\<lparr>srv_collector := True\<rparr>,
      concat (map (\<lambda>(_, ts). Collect (MRegisterPort (ts_listenPort ts) (ContainerName (ts_info ts)) False
                                  (EffectiveAvailability (ts_info ts)))
                # (if ts_running ts then [Collect (MOnContainerRunning (ts_listenPort ts) False now)] else []))
              (srv_targets s))
      @ concat (map (\<lambda>(_, uls). Collect (MRegisterPort (uls_listenPort uls) (ContainerName (uls_info uls)) True
                                  (EffectiveAvailability (uls_info uls)))
                # (if uls_running uls then [Collect (MOnContainerRunning (uls_listenPort uls) True now)] else []))
              (srv_udpTargets s)))"

subsection \<open>Registration\<close>

definition tcp_conflict :: "ProxyServer \<Rightarrow> TargetInfo \<Rightarrow> PortMapping \<Rightarrow> bool" where
  "tcp_conflict s info m =
     (case map_of (srv_targets s) (ListenPort m) of
        Some existing \<Rightarrow> ts_id existing \<noteq> ContainerID info | None \<Rightarrow> False)"

definition udp_conflict :: "ProxyServer \<Rightarrow> TargetInfo \<Rightarrow> PortMapping \<Rightarrow> bool" where
  "udp_conflict s info m =
     (case map_of (srv_udpTargets s) (ListenPort m) of
        Some existing \<Rightarrow> uls_id existing \<noteq> ContainerID info | None \<Rightarrow> False)"

definition refresh_tcp :: "ProxyServer \<Rightarrow> TargetInfo \<Rightarrow> PortMapping \<Rightarrow> targetState \<Rightarrow> targetState" where
  "refresh_tcp s info m existing =
     existing\<lparr>ts_info := info, ts_targetPort := TargetPort m, ts_idleTimeout := IdleTimeout info,
       ts_startTimeout := effectiveTimeout (StartTimeout info) (srv_startTimeout s),
       ts_httpHealthCheck := HTTPHealthCheck info, ts_hasHealthCheck := HasHealthCheck info,
       ts_running := Running info, ts_missing := Missing info, ts_removed := False,
       ts_tlsEnabled := TLS info, ts_apiKey := APIKey info, ts_basicAuth := BasicAuth info\<rparr>"

definition new_tcp :: "ProxyServer \<Rightarrow> TargetInfo \<Rightarrow> PortMapping \<Rightarrow> targetState" where
  "new_tcp s info m =
     \<lparr>ts_info = info, ts_listenPort = ListenPort m, ts_targetPort = TargetPort m,
      ts_tlsListener = (TLS info \<and> srv_tlsConfig s), ts_lastActive = 0, ts_activeConns = 0,
      ts_idleTimeout = IdleTimeout info,
      ts_startTimeout = effectiveTimeout (StartTimeout info) (srv_startTimeout s),
      ts_httpHealthCheck = HTTPHealthCheck info, ts_hasHealthCheck = HasHealthCheck info,
      ts_running = Running info, ts_missing = Missing info, ts_removed = False,
      ts_tlsEnabled = TLS info, ts_apiKey = APIKey info, ts_basicAuth = BasicAuth info\<rparr>"

definition register_tcp ::
  "(bool \<Rightarrow> int \<Rightarrow> bool) \<Rightarrow> TargetInfo \<Rightarrow> ProxyServer \<Rightarrow> PortMapping \<Rightarrow> ProxyServer \<times> server_effect list" where
  "register_tcp listen info s m =
     (let call = MRegisterPort (ListenPort m) (ContainerName info) False (EffectiveAvailability info) in
      case map_of (srv_targets s) (ListenPort m) of
        Some existing \<Rightarrow>
          (s\<lparr>srv_targets := AList.update (ListenPort m) (refresh_tcp s info m existing) (srv_targets s)\<rparr>,
           collect s [call])
      | None \<Rightarrow>
          if \<not> listen False (ListenPort m) then (s, [])
          else (s\<lparr>srv_targets := AList.update (ListenPort m) (new_tcp s info m) (srv_targets s)\<rparr>,
                ListenTCP (ListenPort m) (TLS info \<and> srv_tlsConfig s) # collect s [call]))"

definition refresh_udp :: "ProxyServer \<Rightarrow> TargetInfo \<Rightarrow> PortMapping \<Rightarrow> udpListenerState \<Rightarrow> udpListenerState" where
  "refresh_udp s info m existing =
     existing\<lparr>uls_info := info, uls_targetPort := TargetPort m, uls_idleTimeout := IdleTimeout info,
       uls_startTimeout := effectiveTimeout (StartTimeout info) (srv_startTimeout s),
       uls_running := Running info, uls_missing := Missing info, uls_removed := False\<rparr>"

definition new_udp :: "ProxyServer \<Rightarrow> TargetInfo \<Rightarrow> PortMapping \<Rightarrow> udpListenerState" where
  "new_udp s info m =
     \<lparr>uls_listenPort = ListenPort m, uls_targetPort = TargetPort m, uls_info = info,
      uls_lastActive = 0, uls_activeFlows = 0, uls_idleTimeout = IdleTimeout info,
      uls_startTimeout = effectiveTimeout (StartTimeout info) (srv_startTimeout s),
      uls_running = Running info, uls_missing = Missing info, uls_removed = False,
      uls_flows = [], uls_pending = [], uls_upstreamReady = False, uls_upstreamStarting = False\<rparr>"

definition register_udp ::
  "(bool \<Rightarrow> int \<Rightarrow> bool) \<Rightarrow> TargetInfo \<Rightarrow> ProxyServer \<Rightarrow> PortMapping \<Rightarrow> ProxyServer \<times> server_effect list" where
  "register_udp listen info s m =
     (let call = MRegisterPort (ListenPort m) (ContainerName info) True (EffectiveAvailability info) in
      case map_of (srv_udpTargets s) (ListenPort m) of
        Some existing \<Rightarrow>
          (s\<lparr>srv_udpTargets := AList.update (ListenPort m) (refresh_udp s info m existing) (srv_udpTargets s)\<rparr>,
           collect s [call])
      | None \<Rightarrow>
          if \<not> listen True (ListenPort m) then (s, [])
          else (s\<lparr>srv_udpTargets := AList.update (ListenPort m) (new_udp s info m) (srv_udpTargets s)\<rparr>,
                ListenUDP (ListenPort m) # collect s [call]))"

text \<open>A loop over a list whose body returns the state and its effects.\<close>

primrec run_each :: "('s \<Rightarrow> 'a \<Rightarrow> 's \<times> 'e list) \<Rightarrow> 's \<Rightarrow> 'a list \<Rightarrow> 's \<times> 'e list" where
  "run_each f s [] = (s, [])"
| "run_each f s (x # xs) = (case f s x of (s1, e1) \<Rightarrow> case run_each f s1 xs of (s2, e2) \<Rightarrow> (s2, e1 @ e2))"

definition RegisterTarget ::
  "(bool \<Rightarrow> int \<Rightarrow> bool) \<Rightarrow> ProxyServer \<Rightarrow> TargetInfo \<Rightarrow> ProxyServer \<times> server_effect list" where
  "RegisterTarget listen s info =
     (if list_ex (tcp_conflict s info) (elems (Ports info)) then (s, [])
      else if list_ex (udp_conflict s info) (elems (UDPPorts info)) then (s, [])
      else
        let (s1, e1) = run_each (register_tcp listen info) s (elems (Ports info));
            (s2, e2) = run_each (register_udp listen info) s1 (elems (UDPPorts info));
            s3 = s2\<lparr>srv_nameToID := (srv_nameToID s2)(ContainerName info \<mapsto> ContainerID info)\<rparr>;
            e3 = (if srv_sched s3 \<and> EffectiveAvailability info = AvailabilityCron
                     \<and> (CronStart info \<noteq> '''' \<or> CronStop info \<noteq> '''')
                  then [Sched (SchedRegister info)] else []);
            s4 = (if elems (Ports info) = [] \<and> elems (UDPPorts info) = []
                  then s3\<lparr>srv_cronOnlyTargets := AList.update (ContainerID info)
                            \<lparr>ct_info = info, ct_running = Running info\<rparr> (srv_cronOnlyTargets s3)\<rparr>
                  else s3)
        in (s4, e1 @ e2 @ e3))"

definition RemoveTarget :: "ProxyServer \<Rightarrow> string \<Rightarrow> ProxyServer \<times> server_effect list" where
  "RemoveTarget s cid =
     (let names = map (\<lambda>ts. ContainerName (ts_info ts)) (tcp_of s cid)
                @ map (\<lambda>uls. ContainerName (uls_info uls)) (udp_of s cid)
                @ (case map_of (srv_cronOnlyTargets s) cid of None \<Rightarrow> [] | Some ct \<Rightarrow> [ContainerName (ct_info ct)])
      in (s\<lparr>srv_targets := filter (\<lambda>(_, ts). ts_id ts \<noteq> cid) (srv_targets s),
            srv_udpTargets := filter (\<lambda>(_, uls). uls_id uls \<noteq> cid) (srv_udpTargets s),
            srv_cronOnlyTargets := AList.delete cid (srv_cronOnlyTargets s),
            srv_nameToID := (\<lambda>n. if n \<in> set names then None else srv_nameToID s n)\<rparr>,
          concat (map (\<lambda>(port, ts). if ts_id ts = cid
                        then collect s [MUnregisterPort port False] @ [CloseTCP port] else []) (srv_targets s))
          @ concat (map (\<lambda>(port, uls). if uls_id uls = cid
                        then collect s [MUnregisterPort port True] @ [CloseUDP port] else []) (srv_udpTargets s))
          @ (if srv_sched s then [Sched (SchedUnregister cid)] else [])))"

subsection \<open>Reconciliation with a configuration\<close>

definition currentTargetsByID :: "ProxyServer \<Rightarrow> (string \<times> TargetInfo) list" where
  "currentTargetsByID s =
     (let m1 = foldl (\<lambda>out (_, ts). AList.update (ts_id ts) (ts_info ts) out) [] (srv_targets s);
          m2 = foldl (\<lambda>out (_, uls). AList.update (uls_id uls) (uls_info uls) out) m1 (srv_udpTargets s)
      in foldl (\<lambda>out (cid, ct). AList.update cid (ct_info ct) out) m2 (srv_cronOnlyTargets s))"

definition targetInfoEqual :: "TargetInfo \<Rightarrow> TargetInfo \<Rightarrow> bool" where
  "targetInfoEqual a b \<longleftrightarrow>
     Ports a = Ports b \<and>
     UDPPorts a = UDPPorts b \<and>
     AllowList a = AllowList b \<and>
     BlockList a = BlockList b \<and>
     IdleTimeout a = IdleTimeout b \<and>
     StartTimeout a = StartTimeout b \<and>
     WebhookURL a = WebhookURL b \<and>
     Dependants a = Dependants b \<and>
     CronStart a = CronStart b \<and>
     CronStop a = CronStop b \<and>
     Availability a = Availability b \<and>
     HTTPHealthCheck a = HTTPHealthCheck b \<and>
     TLS a = TLS b \<and>
     APIKey a = APIKey b \<and>
     BasicAuth a = BasicAuth b \<and>
     TraefikHosts a = TraefikHosts b \<and>
     TraefikTCPHosts a = TraefikTCPHosts b \<and>
     ALPNProtocols a = ALPNProtocols b \<and>
     MinTLSVersion a = MinTLSVersion b"

definition targets_by_id :: "TargetInfo list \<Rightarrow> (string \<times> TargetInfo) list" where
  "targets_by_id ts = foldl (\<lambda>m t. AList.update (ContainerID t) t m) [] ts"

definition remove_absent ::
  "(string \<times> TargetInfo) list \<Rightarrow> ProxyServer \<Rightarrow> string \<times> TargetInfo \<Rightarrow> ProxyServer \<times> server_effect list" where
  "remove_absent newByID s cur = (if map_of newByID (fst cur) = None then RemoveTarget s (fst cur) else (s, []))"

definition register_changed ::
  "(bool \<Rightarrow> int \<Rightarrow> bool) \<Rightarrow> (string \<times> TargetInfo) list \<Rightarrow> ProxyServer \<Rightarrow> string \<times> TargetInfo
     \<Rightarrow> ProxyServer \<times> server_effect list" where
  "register_changed listen current s new =
     (case map_of current (fst new) of
        None \<Rightarrow> RegisterTarget listen s (snd new)
      | Some cur \<Rightarrow>
          if \<not> targetInfoEqual cur (snd new)
          then (case RemoveTarget s (fst new) of (s1, e1) \<Rightarrow>
                case RegisterTarget listen s1 (snd new) of (s2, e2) \<Rightarrow> (s2, e1 @ e2))
          else (s, []))"

text \<open>\<open>Update\<close>, with the two maps in the order the loops visit them.\<close>

definition reconcile ::
  "(bool \<Rightarrow> int \<Rightarrow> bool) \<Rightarrow> (string \<times> TargetInfo) list \<Rightarrow> (string \<times> TargetInfo) list \<Rightarrow> ProxyServer
     \<Rightarrow> ProxyServer \<times> server_effect list" where
  "reconcile listen current newByID s =
     (case run_each (remove_absent newByID) s current of (s1, e1) \<Rightarrow>
      case run_each (register_changed listen current) s1 newByID of (s2, e2) \<Rightarrow> (s2, e1 @ e2))"

definition Update ::
  "(bool \<Rightarrow> int \<Rightarrow> bool) \<Rightarrow> ProxyServer \<Rightarrow> TargetInfo list \<Rightarrow> ProxyServer \<times> server_effect list" where
  "Update listen s newTargets = reconcile listen (currentTargetsByID s) (targets_by_id newTargets) s"

subsection \<open>Container lifecycle\<close>

definition isRunning :: "ProxyServer \<Rightarrow> string \<Rightarrow> bool \<times> bool" where
  "isRunning s cid =
     (let ct = map_of (srv_cronOnlyTargets s) cid in
      (list_ex ts_running (tcp_of s cid) \<or> list_ex uls_running (udp_of s cid)
         \<or> (case ct of None \<Rightarrow> False | Some c \<Rightarrow> ct_running c),
       tcp_of s cid \<noteq> [] \<or> udp_of s cid \<noteq> [] \<or> ct \<noteq> None))"

definition set_running :: "bool \<Rightarrow> string \<Rightarrow> ProxyServer \<Rightarrow> ProxyServer" where
  "set_running b cid s =
     each_cron cid (\<lambda>ct. ct\<lparr>ct_running := b\<rparr>)
       (each_udp cid (\<lambda>uls. uls\<lparr>uls_running := b\<rparr>) (each_tcp cid (\<lambda>ts. ts\<lparr>ts_running := b\<rparr>) s))"

text \<open>The info a loop with \<open>info = ts.info\<close> ends with, and the fall-back to a port-less target.\<close>

definition last_tcp_info :: "ProxyServer \<Rightarrow> string \<Rightarrow> TargetInfo" where
  "last_tcp_info s cid = foldl (\<lambda>_ ts. ts_info ts) zero_info (tcp_of s cid)"

definition last_udp_info :: "ProxyServer \<Rightarrow> string \<Rightarrow> TargetInfo \<Rightarrow> TargetInfo" where
  "last_udp_info s cid info = foldl (\<lambda>_ uls. uls_info uls) info (udp_of s cid)"

definition or_cron_info :: "ProxyServer \<Rightarrow> string \<Rightarrow> TargetInfo \<Rightarrow> TargetInfo" where
  "or_cron_info s cid info =
     (case map_of (srv_cronOnlyTargets s) cid of
        Some ct \<Rightarrow> if ContainerID info = '''' then ct_info ct else info
      | None \<Rightarrow> info)"

definition start_cascade_of :: "TargetInfo \<Rightarrow> server_effect list" where
  "start_cascade_of info = (if elems (Dependants info) \<noteq> [] then [StartCascade info] else [])"

definition stop_cascade_of :: "TargetInfo \<Rightarrow> server_effect list" where
  "stop_cascade_of info = (if elems (Dependants info) \<noteq> [] then [StopCascade info] else [])"

text \<open>The part of \<open>CronStart\<close> after a successful start.\<close>

definition cron_started :: "instant \<Rightarrow> ProxyServer \<Rightarrow> string \<Rightarrow> string \<Rightarrow> ProxyServer \<times> server_effect list" where
  "cron_started now s targetID targetName =
     (let s1 = set_running True targetID s;
          info0 = (case tcp_of s1 targetID of [] \<Rightarrow> zero_info | ts # _ \<Rightarrow> ts_info ts);
          info = (if ContainerID info0 = '''' then or_cron_info s1 targetID info0 else info0)
      in (s1,
          concat (map (\<lambda>ts. collect s [MRecordContainerStart (ts_listenPort ts) False,
                                       MOnContainerRunning (ts_listenPort ts) False now]) (tcp_of s targetID))
          @ concat (map (\<lambda>uls. collect s [MRecordContainerStart (uls_listenPort uls) True,
                                          MOnContainerRunning (uls_listenPort uls) True now]) (udp_of s targetID))
          @ lifecycle_webhook info ''container_started'' targetID targetName @ start_cascade_of info))"

definition CronStart_run ::
  "('b \<Rightarrow> string \<Rightarrow> 'b \<times> bool) \<Rightarrow> instant \<Rightarrow> 'b \<times> ProxyServer \<Rightarrow> string \<Rightarrow> string
     \<Rightarrow> ('b \<times> ProxyServer) \<times> server_effect list" where
  "CronStart_run ensure now bs targetID targetName =
     (case bs of (b, s) \<Rightarrow>
      case isRunning s targetID of (running, found) \<Rightarrow>
        let isCronOnly = map_of (srv_cronOnlyTargets s) targetID \<noteq> None in
        if \<not> found then (bs, [])
        else if running \<and> \<not> isCronOnly then (bs, [])
        else case ensure b targetID of
               (b', False) \<Rightarrow> ((b', s), [CallEnsure targetID])
             | (b', True) \<Rightarrow> (case cron_started now s targetID targetName of
                               (s', e) \<Rightarrow> ((b', s'), CallEnsure targetID # e)))"

definition cron_stopped :: "ProxyServer \<Rightarrow> string \<Rightarrow> string \<Rightarrow> ProxyServer \<times> server_effect list" where
  "cron_stopped s targetID targetName =
     (let info = or_cron_info s targetID (last_udp_info s targetID (last_tcp_info s targetID)) in
      (set_running False targetID s,
       concat (map (\<lambda>ts. collect s [MContainerStopped (ts_listenPort ts) False]) (tcp_of s targetID))
       @ concat (map (\<lambda>uls. collect s [MContainerStopped (uls_listenPort uls) True]) (udp_of s targetID))
       @ lifecycle_webhook info ''container_stopped'' targetID targetName @ stop_cascade_of info))"

definition CronStop_run ::
  "('b \<Rightarrow> string \<Rightarrow> string \<Rightarrow> 'b \<times> bool) \<Rightarrow> 'b \<times> ProxyServer \<Rightarrow> string \<Rightarrow> string
     \<Rightarrow> ('b \<times> ProxyServer) \<times> server_effect list" where
  "CronStop_run stop bs targetID targetName =
     (case bs of (b, s) \<Rightarrow>
      case isRunning s targetID of (running, found) \<Rightarrow>
        if \<not> found then (bs, [])
        else if \<not> running then (bs, [])
        else case stop b targetID targetName of
               (b', False) \<Rightarrow> ((b', s), [CallStop targetID targetName])
             | (b', True) \<Rightarrow> (case cron_stopped s targetID targetName of
                               (s', e) \<Rightarrow> ((b', s'), CallStop targetID targetName # e)))"

definition reset_upstream :: "udpListenerState \<Rightarrow> udpListenerState" where
  "reset_upstream uls = uls\<lparr>uls_upstreamReady := False, uls_upstreamStarting := False\<rparr>"

definition ContainerStopped :: "ProxyServer \<Rightarrow> string \<Rightarrow> ProxyServer \<times> server_effect list" where
  "ContainerStopped s containerID =
     (let info = or_cron_info s containerID (last_udp_info s containerID (last_tcp_info s containerID)) in
      (each_udp containerID reset_upstream (set_running False containerID s),
       concat (map (\<lambda>ts. collect s [MContainerStopped (ts_listenPort ts) False]) (tcp_of s containerID))
       @ concat (map (\<lambda>uls. collect s [MContainerStopped (uls_listenPort uls) True]) (udp_of s containerID))
       @ stop_cascade_of info))"

definition ContainerRemoved :: "ProxyServer \<Rightarrow> string \<Rightarrow> ProxyServer" where
  "ContainerRemoved s containerID =
     each_udp containerID (\<lambda>uls. reset_upstream (uls\<lparr>uls_running := False, uls_missing := True\<rparr>))
       (each_tcp containerID (\<lambda>ts. ts\<lparr>ts_running := False, ts_missing := True\<rparr>) s)"

definition ContainerStarted :: "instant \<Rightarrow> ProxyServer \<Rightarrow> string \<Rightarrow> ProxyServer \<times> server_effect list" where
  "ContainerStarted now s containerID =
     (let s1 = each_tcp containerID (\<lambda>ts. ts\<lparr>ts_running := True, ts_missing := False\<rparr>) s;
          s2 = each_udp containerID (\<lambda>uls. uls\<lparr>uls_running := True, uls_missing := False\<rparr>) s1;
          s3 = each_cron containerID (\<lambda>ct. ct\<lparr>ct_running := True, ct_info := (ct_info ct)\<lparr>Missing := False\<rparr>\<rparr>) s2;
          info = or_cron_info s3 containerID (last_tcp_info s containerID)
      in (s3,
          concat (map (\<lambda>ts. collect s [MOnContainerRunning (ts_listenPort ts) False now]) (tcp_of s containerID))
          @ concat (map (\<lambda>uls. collect s [MOnContainerRunning (uls_listenPort uls) True now]) (udp_of s containerID))
          @ start_cascade_of info))"

subsection \<open>Cascades\<close>

definition cascade_start_one ::
  "('b \<Rightarrow> string \<Rightarrow> 'b \<times> bool) \<Rightarrow> 'b \<times> ProxyServer \<Rightarrow> string \<Rightarrow> ('b \<times> ProxyServer) \<times> server_effect list" where
  "cascade_start_one ensure bs depName =
     (case bs of (b, s) \<Rightarrow>
      case srv_nameToID s depName of
        None \<Rightarrow> (bs, [])
      | Some depID \<Rightarrow>
          (case ensure b depID of
             (b', False) \<Rightarrow> ((b', s), [CallEnsure depID])
           | (b', True) \<Rightarrow>
               ((b', each_udp depID (\<lambda>uls. uls\<lparr>uls_running := True\<rparr>)
                       (each_tcp depID (\<lambda>ts. ts\<lparr>ts_running := True\<rparr>) s)), [CallEnsure depID])))"

definition cascadeStart ::
  "('b \<Rightarrow> string \<Rightarrow> 'b \<times> bool) \<Rightarrow> 'b \<times> ProxyServer \<Rightarrow> TargetInfo \<Rightarrow> ('b \<times> ProxyServer) \<times> server_effect list" where
  "cascadeStart ensure bs upstream = run_each (cascade_start_one ensure) bs (elems (Dependants upstream))"

definition cascade_stop_one ::
  "('b \<Rightarrow> string \<Rightarrow> string \<Rightarrow> 'b \<times> bool) \<Rightarrow> 'b \<times> ProxyServer \<Rightarrow> string
     \<Rightarrow> ('b \<times> ProxyServer) \<times> server_effect list" where
  "cascade_stop_one stop bs depName =
     (case bs of (b, s) \<Rightarrow>
      case srv_nameToID s depName of
        None \<Rightarrow> (bs, [])
      | Some depID \<Rightarrow>
          if \<not> (list_ex ts_running (tcp_of s depID) \<or> list_ex uls_running (udp_of s depID)) then (bs, [])
          else (case stop b depID depName of
             (b', False) \<Rightarrow> ((b', s), [CallStop depID depName])
           | (b', True) \<Rightarrow>
               ((b', each_udp depID (\<lambda>uls. uls\<lparr>uls_running := False\<rparr>)
                       (each_tcp depID (\<lambda>ts. ts\<lparr>ts_running := False\<rparr>) s)), [CallStop depID depName])))"

definition cascadeStop ::
  "('b \<Rightarrow> string \<Rightarrow> string \<Rightarrow> 'b \<times> bool) \<Rightarrow> 'b \<times> ProxyServer \<Rightarrow> TargetInfo \<Rightarrow> ('b \<times> ProxyServer) \<times> server_effect list" where
  "cascadeStop stop bs upstream = run_each (cascade_stop_one stop) bs (elems (Dependants upstream))"


subsection \<open>Inactivity\<close>

record idle_entry =
  en_name :: string
  en_info :: TargetInfo
  en_allIdle :: bool
  en_tcp :: "int list"
  en_udp :: "int list"

definition new_entry :: "TargetInfo \<Rightarrow> idle_entry" where
  "new_entry info = \<lparr>en_name = ContainerName info, en_info = info, en_allIdle = True, en_tcp = [], en_udp = []\<rparr>"

definition tcp_busy :: "instant \<Rightarrow> ProxyServer \<Rightarrow> targetState \<Rightarrow> bool" where
  "tcp_busy now s ts \<longleftrightarrow> \<not> ts_running ts \<or> ts_activeConns ts > 0
     \<or> time_sub now (ts_lastActive ts) < effectiveTimeout (ts_idleTimeout ts) (srv_idleTimeout s)"

definition udp_busy :: "instant \<Rightarrow> ProxyServer \<Rightarrow> udpListenerState \<Rightarrow> bool" where
  "udp_busy now s uls \<longleftrightarrow> \<not> uls_running uls \<or> length (uls_flows uls) + length (uls_pending uls) > 0
     \<or> time_sub now (uls_lastActive uls) < effectiveTimeout (uls_idleTimeout uls) (srv_idleTimeout s)"

definition lookup_entry :: "TargetInfo \<Rightarrow> (string \<times> idle_entry) list \<Rightarrow> idle_entry" where
  "lookup_entry info by = (case map_of by (ContainerID info) of Some e \<Rightarrow> e | None \<Rightarrow> new_entry info)"

definition group_tcp ::
  "instant \<Rightarrow> ProxyServer \<Rightarrow> (string \<times> idle_entry) list \<Rightarrow> int \<times> targetState \<Rightarrow> (string \<times> idle_entry) list" where
  "group_tcp now s by pt =
     (case pt of (port, ts) \<Rightarrow>
        if ts_removed ts then by
        else if EffectiveAvailability (ts_info ts) \<noteq> AvailabilityOnDemand then by
        else let e = lookup_entry (ts_info ts) by
             in AList.update (ts_id ts)
                  (e\<lparr>en_tcp := en_tcp e @ [port], en_allIdle := (en_allIdle e \<and> \<not> tcp_busy now s ts)\<rparr>) by)"

definition group_udp ::
  "instant \<Rightarrow> ProxyServer \<Rightarrow> (string \<times> idle_entry) list \<Rightarrow> int \<times> udpListenerState \<Rightarrow> (string \<times> idle_entry) list" where
  "group_udp now s by pu =
     (case pu of (port, uls) \<Rightarrow>
        if uls_removed uls then by
        else if EffectiveAvailability (uls_info uls) \<noteq> AvailabilityOnDemand then by
        else let e = lookup_entry (uls_info uls) by
             in AList.update (uls_id uls)
                  (e\<lparr>en_udp := en_udp e @ [port], en_allIdle := (en_allIdle e \<and> \<not> udp_busy now s uls)\<rparr>) by)"

definition by_container :: "instant \<Rightarrow> ProxyServer \<Rightarrow> (string \<times> idle_entry) list" where
  "by_container now s = foldl (group_udp now s) (foldl (group_tcp now s) [] (srv_targets s)) (srv_udpTargets s)"

definition entry_stopped :: "ProxyServer \<Rightarrow> string \<times> idle_entry \<Rightarrow> ProxyServer \<times> server_effect list" where
  "entry_stopped s ce =
     (case ce of (cid, e) \<Rightarrow>
        (s\<lparr>srv_targets := map_values (\<lambda>p ts. if p \<in> set (en_tcp e) then ts\<lparr>ts_running := False\<rparr> else ts) (srv_targets s),
           srv_udpTargets := map_values (\<lambda>p uls. if p \<in> set (en_udp e) then uls\<lparr>uls_running := False\<rparr> else uls) (srv_udpTargets s)\<rparr>,
         collect s (map (\<lambda>p. MContainerStopped p False) (en_tcp e) @ map (\<lambda>p. MContainerStopped p True) (en_udp e))
         @ lifecycle_webhook (en_info e) ''container_stopped'' cid (en_name e) @ stop_cascade_of (en_info e)))"

definition stop_idle_entry ::
  "('b \<Rightarrow> string \<Rightarrow> string \<Rightarrow> 'b \<times> bool) \<Rightarrow> 'b \<times> ProxyServer \<Rightarrow> string \<times> idle_entry
     \<Rightarrow> ('b \<times> ProxyServer) \<times> server_effect list" where
  "stop_idle_entry stop bs ce =
     (case bs of (b, s) \<Rightarrow> case ce of (cid, e) \<Rightarrow>
        if \<not> en_allIdle e then (bs, [])
        else case stop b cid (en_name e) of
               (b', False) \<Rightarrow> ((b', s), [CallStop cid (en_name e)])
             | (b', True) \<Rightarrow> (case entry_stopped s ce of (s', eff) \<Rightarrow> ((b', s'), CallStop cid (en_name e) # eff)))"

definition checkInactivity ::
  "('b \<Rightarrow> string \<Rightarrow> string \<Rightarrow> 'b \<times> bool) \<Rightarrow> instant \<Rightarrow> 'b \<times> ProxyServer \<Rightarrow> ('b \<times> ProxyServer) \<times> server_effect list" where
  "checkInactivity stop now bs = run_each (stop_idle_entry stop) bs (by_container now (snd bs))"

subsection \<open>Status snapshots\<close>

text \<open>
  \<open>relativeTime\<close> divides in \<open>float64\<close> and truncates; on the durations that differ from a multiple of
  the unit by more than a few microseconds this is the integer division below.
\<close>

definition relativeTime :: "instant \<Rightarrow> instant \<Rightarrow> string" where
  "relativeTime t now =
     (let d = time_sub now t in
      if d \<ge> 365 * 24 * hour then show_int (d sdiv (365 * 24 * hour)) @ '' years ago''
      else if d \<ge> 30 * 24 * hour then show_int (d sdiv (30 * 24 * hour)) @ '' months ago''
      else if d \<ge> 24 * hour then show_int (d sdiv (24 * hour)) @ '' days ago''
      else if d \<ge> hour then show_int (d sdiv hour) @ '' hours ago''
      else if d \<ge> minute then show_int (d sdiv minute) @ '' minutes ago''
      else show_int (d sdiv second) @ '' seconds ago'')"

record TargetSnapshot =
  tsn_ContainerID :: string
  tsn_ContainerName :: string
  tsn_ListenPort :: int
  tsn_TargetPort :: int
  tsn_Running :: bool
  tsn_ContainerMissing :: bool
  tsn_ActiveConns :: int
  tsn_LastActive :: instant
  tsn_LastActiveRelative :: string
  tsn_TraefikHosts :: "string slice"
  tsn_TraefikTCPHosts :: "string slice"
  tsn_IsUDP :: bool
  tsn_HasAuth :: bool
  tsn_Availability :: string
  tsn_HasComposeFile :: bool
  tsn_HasTarGz :: bool
  tsn_ALPNProtocols :: "string slice"
  tsn_MinTLSVersion :: string

text \<open>\<open>stat dir file\<close> is \<open>os.Stat\<close> of the joined path succeeding.\<close>

definition composeFlags :: "(string \<Rightarrow> string \<Rightarrow> bool) \<Rightarrow> ProxyServer \<Rightarrow> string \<Rightarrow> bool \<times> bool" where
  "composeFlags stat s name =
     (if srv_composeDir s = '''' then (False, False)
      else (list_ex (\<lambda>ext. stat (srv_composeDir s) (name @ ext)) [''.yml'', ''.yaml''],
            stat (srv_composeDir s) (name @ ''.tar.gz'')))"

definition tcp_snapshot ::
  "(string \<Rightarrow> string \<Rightarrow> bool) \<Rightarrow> instant \<Rightarrow> ProxyServer \<Rightarrow> int \<times> targetState \<Rightarrow> TargetSnapshot" where
  "tcp_snapshot stat now s pt =
     (case pt of (listenPort, ts) \<Rightarrow>
      let effective = (if is_zero_time (ts_lastActive ts) then srv_startTime s else ts_lastActive ts);
          (hasCompose, hasTar) = composeFlags stat s (ContainerName (ts_info ts))
      in \<lparr>tsn_ContainerID = short_id (ts_id ts), tsn_ContainerName = ContainerName (ts_info ts),
          tsn_ListenPort = listenPort, tsn_TargetPort = ts_targetPort ts, tsn_Running = ts_running ts,
          tsn_ContainerMissing = ts_missing ts, tsn_ActiveConns = ts_activeConns ts,
          tsn_LastActive = effective, tsn_LastActiveRelative = relativeTime effective now,
          tsn_TraefikHosts = TraefikHosts (ts_info ts), tsn_TraefikTCPHosts = TraefikTCPHosts (ts_info ts),
          tsn_IsUDP = False, tsn_HasAuth = (elems (ts_apiKey ts) \<noteq> [] \<or> elems (ts_basicAuth ts) \<noteq> []),
          tsn_Availability = EffectiveAvailability (ts_info ts),
          tsn_HasComposeFile = hasCompose, tsn_HasTarGz = hasTar,
          tsn_ALPNProtocols = ALPNProtocols (ts_info ts), tsn_MinTLSVersion = MinTLSVersion (ts_info ts)\<rparr>)"

definition udp_snapshot ::
  "(string \<Rightarrow> string \<Rightarrow> bool) \<Rightarrow> instant \<Rightarrow> ProxyServer \<Rightarrow> int \<times> udpListenerState \<Rightarrow> TargetSnapshot" where
  "udp_snapshot stat now s pu =
     (case pu of (listenPort, uls) \<Rightarrow>
      let lastAct = (if is_zero_time (uls_lastActive uls) then srv_startTime s else uls_lastActive uls);
          (hasCompose, hasTar) = composeFlags stat s (ContainerName (uls_info uls))
      in \<lparr>tsn_ContainerID = short_id (uls_id uls), tsn_ContainerName = ContainerName (uls_info uls),
          tsn_ListenPort = listenPort, tsn_TargetPort = uls_targetPort uls, tsn_Running = uls_running uls,
          tsn_ContainerMissing = uls_missing uls, tsn_ActiveConns = uls_activeFlows uls,
          tsn_LastActive = lastAct, tsn_LastActiveRelative = relativeTime lastAct now,
          tsn_TraefikHosts = TraefikHosts (uls_info uls), tsn_TraefikTCPHosts = TraefikTCPHosts (uls_info uls),
          tsn_IsUDP = True, tsn_HasAuth = False,
          tsn_Availability = EffectiveAvailability (uls_info uls),
          tsn_HasComposeFile = hasCompose, tsn_HasTarGz = hasTar,
          tsn_ALPNProtocols = ALPNProtocols (uls_info uls), tsn_MinTLSVersion = MinTLSVersion (uls_info uls)\<rparr>)"

definition cron_snapshot ::
  "(string \<Rightarrow> string \<Rightarrow> bool) \<Rightarrow> instant \<Rightarrow> ProxyServer \<Rightarrow> string \<times> cronOnlyState \<Rightarrow> TargetSnapshot" where
  "cron_snapshot stat now s cc =
     (case cc of (_, ct) \<Rightarrow>
      let (hasCompose, hasTar) = composeFlags stat s (ContainerName (ct_info ct))
      in \<lparr>tsn_ContainerID = short_id (ct_id ct), tsn_ContainerName = ContainerName (ct_info ct),
          tsn_ListenPort = 0, tsn_TargetPort = 0, tsn_Running = ct_running ct,
          tsn_ContainerMissing = Missing (ct_info ct), tsn_ActiveConns = 0,
          tsn_LastActive = srv_startTime s, tsn_LastActiveRelative = relativeTime (srv_startTime s) now,
          tsn_TraefikHosts = None, tsn_TraefikTCPHosts = None,
          tsn_IsUDP = False, tsn_HasAuth = False,
          tsn_Availability = EffectiveAvailability (ct_info ct),
          tsn_HasComposeFile = hasCompose, tsn_HasTarGz = hasTar,
          tsn_ALPNProtocols = None, tsn_MinTLSVersion = ''''\<rparr>)"

text \<open>The order of the list: by name, TCP before UDP, then by port.\<close>

datatype snapshot_key = SnapshotKey (key_name: string) (key_udp: bool) (key_port: int)

instantiation snapshot_key :: linorder
begin

fun less_snapshot_key :: "snapshot_key \<Rightarrow> snapshot_key \<Rightarrow> bool" where
  "less_snapshot_key (SnapshotKey n1 u1 p1) (SnapshotKey n2 u2 p2) =
     (if n1 \<noteq> n2 then n1 < n2 else if u1 \<noteq> u2 then \<not> u1 else p1 < p2)"

definition less_eq_snapshot_key :: "snapshot_key \<Rightarrow> snapshot_key \<Rightarrow> bool" where
  "less_eq_snapshot_key x y = (x < y \<or> x = y)"

instance
proof
  fix x y z :: snapshot_key
  show "x < y \<longleftrightarrow> x \<le> y \<and> \<not> y \<le> x"
    by (cases x; cases y) (auto simp: less_eq_snapshot_key_def split: if_splits)
  show "x \<le> x" by (simp add: less_eq_snapshot_key_def)
  show "x \<le> z" if "x \<le> y" "y \<le> z"
    using that by (cases x; cases y; cases z) (auto simp: less_eq_snapshot_key_def split: if_splits)
  show "x = y" if "x \<le> y" "y \<le> x"
    using that by (cases x; cases y) (auto simp: less_eq_snapshot_key_def split: if_splits)
  show "x \<le> y \<or> y \<le> x"
    by (cases x; cases y) (auto simp: less_eq_snapshot_key_def)
qed

end

definition snapshot_key :: "TargetSnapshot \<Rightarrow> snapshot_key" where
  "snapshot_key t = SnapshotKey (tsn_ContainerName t) (tsn_IsUDP t) (tsn_ListenPort t)"

definition Snapshot_of_targets ::
  "(string \<Rightarrow> string \<Rightarrow> bool) \<Rightarrow> instant \<Rightarrow> ProxyServer \<Rightarrow> TargetSnapshot list" where
  "Snapshot_of_targets stat now s =
     sort_key snapshot_key
       (map (tcp_snapshot stat now s) (srv_targets s) @ map (udp_snapshot stat now s) (srv_udpTargets s)
        @ map (cron_snapshot stat now s) (srv_cronOnlyTargets s))"


end
