(* ===== verification/Server_Registry.thy ===== *)
theory Server_Registry
  imports Proxy_Server
begin

text \<open>
  What the server's registry promises. The abstract view of the state is which \<open>TargetInfo\<close> each
  TCP or UDP port is bound to and which port-less target each container ID names; registering,
  removing and reconciling are described on that view, and a well-formedness invariant is shown
  to be kept by the registry operations.
\<close>

subsection \<open>Loops with effects\<close>

lemma run_each_append:
  "run_each f s (xs @ ys) =
    (let (s1, e1) = run_each f s xs; (s2, e2) = run_each f s1 ys in (s2, e1 @ e2))"
  by (induction xs arbitrary: s) (simp_all add: case_prod_unfold Let_def)

lemma run_each_invariant:
  assumes "P s" and "\<And>s x. x \<in> set xs \<Longrightarrow> P s \<Longrightarrow> P (fst (f s x))"
  shows "P (fst (run_each f s xs))"
  using assms by (induction xs arbitrary: s) (auto simp: case_prod_unfold)

lemma run_each_unchanged:
  assumes "\<And>s x. x \<in> set xs \<Longrightarrow> g (fst (f s x)) = g s"
  shows "g (fst (run_each f s xs)) = g s"
  using assms by (induction xs arbitrary: s) (auto simp: case_prod_unfold)

lemma run_each_idle:
  assumes "\<And>x. x \<in> set xs \<Longrightarrow> f s x = (s, [])"
  shows "run_each f s xs = (s, [])"
  using assms by (induction xs) auto

lemma run_each_effects:
  assumes "e \<in> set (snd (run_each f s xs))" and "\<And>s x. x \<in> set xs \<Longrightarrow> e \<in> set (snd (f s x)) \<Longrightarrow> Q"
  shows Q
  using assms by (induction xs arbitrary: s) (auto simp: case_prod_unfold)

subsection \<open>Invariant\<close>

definition srv_ok :: "ProxyServer \<Rightarrow> bool" where
  "srv_ok s \<longleftrightarrow>
     keys_distinct (srv_targets s) \<and> keys_distinct (srv_udpTargets s) \<and> keys_distinct (srv_cronOnlyTargets s)
     \<and> (\<forall>p ts. map_of (srv_targets s) p = Some ts \<longrightarrow> ts_listenPort ts = p \<and> \<not> ts_removed ts)
     \<and> (\<forall>p uls. map_of (srv_udpTargets s) p = Some uls \<longrightarrow> uls_listenPort uls = p \<and> \<not> uls_removed uls)
     \<and> (\<forall>c ct. map_of (srv_cronOnlyTargets s) c = Some ct \<longrightarrow> ct_id ct = c)"

lemma srv_okI:
  assumes "keys_distinct (srv_targets s)" "keys_distinct (srv_udpTargets s)" "keys_distinct (srv_cronOnlyTargets s)"
    and "\<And>p ts. map_of (srv_targets s) p = Some ts \<Longrightarrow> ts_listenPort ts = p \<and> \<not> ts_removed ts"
    and "\<And>p uls. map_of (srv_udpTargets s) p = Some uls \<Longrightarrow> uls_listenPort uls = p \<and> \<not> uls_removed uls"
    and "\<And>c ct. map_of (srv_cronOnlyTargets s) c = Some ct \<Longrightarrow> ct_id ct = c"
  shows "srv_ok s"
  using assms by (simp add: srv_ok_def)

lemma NewServer_ok [keeps]: "srv_ok (NewServer t i p st tls)"
  by (simp add: srv_ok_def NewServer_def)

lemma register_tcp_ok [keeps]:
  "srv_ok s \<Longrightarrow> srv_ok (fst (register_tcp listen info s m))"
  by (auto simp: srv_ok_def register_tcp_def Let_def refresh_tcp_def new_tcp_def update_conv'
      split: option.splits if_splits)

lemma register_udp_ok [keeps]:
  "srv_ok s \<Longrightarrow> srv_ok (fst (register_udp listen info s m))"
  by (auto simp: srv_ok_def register_udp_def Let_def refresh_udp_def new_udp_def update_conv'
      split: option.splits if_splits)

subsection \<open>The abstract registry\<close>

definition bound :: "ProxyServer \<Rightarrow> bool \<times> int \<Rightarrow> TargetInfo option" where
  "bound s k = (if fst k then map_option uls_info (map_of (srv_udpTargets s) (snd k))
                else map_option ts_info (map_of (srv_targets s) (snd k)))"

definition cron_bound :: "ProxyServer \<Rightarrow> string \<Rightarrow> TargetInfo option" where
  "cron_bound s c = map_option ct_info (map_of (srv_cronOnlyTargets s) c)"

definition declared :: "TargetInfo \<Rightarrow> (bool \<times> int) set" where
  "declared info = (\<lambda>m. (False, ListenPort m)) ` set (elems (Ports info))
                 \<union> (\<lambda>m. (True, ListenPort m)) ` set (elems (UDPPorts info))"

definition conflicting :: "ProxyServer \<Rightarrow> TargetInfo \<Rightarrow> bool" where
  "conflicting s info \<longleftrightarrow>
     (\<exists>k \<in> declared info. \<exists>i. bound s k = Some i \<and> ContainerID i \<noteq> ContainerID info)"

lemma conflicting_iff:
  "conflicting s info \<longleftrightarrow>
     list_ex (tcp_conflict s info) (elems (Ports info)) \<or> list_ex (udp_conflict s info) (elems (UDPPorts info))"
proof -
  have 1: "(\<exists>i. map_option f x = Some i \<and> P i) \<longleftrightarrow> (case x of Some y \<Rightarrow> P (f y) | None \<Rightarrow> False)"
    for f :: "'x \<Rightarrow> TargetInfo" and x P by (cases x) auto
  show ?thesis
    unfolding conflicting_def declared_def bound_def tcp_conflict_def udp_conflict_def list_ex_iff bex_Un bex_simps
    by (simp add: 1 del: map_option_eq_Some)
qed

lemma bound_register_tcp:
  "bound (fst (register_tcp listen info s m)) k =
    (if k = (False, ListenPort m) \<and> (bound s k \<noteq> None \<or> listen False (snd k)) then Some info else bound s k)"
  by (cases k) (auto simp: register_tcp_def bound_def Let_def refresh_tcp_def new_tcp_def update_conv'
      split: option.splits)

lemma bound_register_udp:
  "bound (fst (register_udp listen info s m)) k =
    (if k = (True, ListenPort m) \<and> (bound s k \<noteq> None \<or> listen True (snd k)) then Some info else bound s k)"
  by (cases k) (auto simp: register_udp_def bound_def Let_def refresh_udp_def new_udp_def update_conv'
      split: option.splits)

lemma bound_run_tcp:
  "bound (fst (run_each (register_tcp listen info) s ms)) k =
    (if k \<in> (\<lambda>m. (False, ListenPort m)) ` set ms \<and> (bound s k \<noteq> None \<or> listen False (snd k)) then Some info else bound s k)"
  by (induction ms arbitrary: s) (auto simp: case_prod_unfold bound_register_tcp)

lemma bound_run_udp:
  "bound (fst (run_each (register_udp listen info) s ms)) k =
    (if k \<in> (\<lambda>m. (True, ListenPort m)) ` set ms \<and> (bound s k \<noteq> None \<or> listen True (snd k)) then Some info else bound s k)"
  by (induction ms arbitrary: s) (auto simp: case_prod_unfold bound_register_udp)

lemma register_tcp_frame [frame]:
  "srv_udpTargets (fst (register_tcp listen info s m)) = srv_udpTargets s"
  "srv_cronOnlyTargets (fst (register_tcp listen info s m)) = srv_cronOnlyTargets s"
  "srv_nameToID (fst (register_tcp listen info s m)) = srv_nameToID s"
  by (simp_all add: register_tcp_def Let_def split: option.splits)

lemma register_udp_frame [frame]:
  "srv_targets (fst (register_udp listen info s m)) = srv_targets s"
  "srv_cronOnlyTargets (fst (register_udp listen info s m)) = srv_cronOnlyTargets s"
  "srv_nameToID (fst (register_udp listen info s m)) = srv_nameToID s"
  by (simp_all add: register_udp_def Let_def split: option.splits)

text \<open>\<open>RegisterTarget\<close> on the abstract view.\<close>

lemma register_conflict: "conflicting s info \<Longrightarrow> RegisterTarget listen s info = (s, [])"
  by (auto simp: RegisterTarget_def conflicting_iff)

lemma bound_RegisterTarget:
  assumes "\<not> conflicting s info"
  shows "bound (fst (RegisterTarget listen s info)) k =
    (if k \<in> declared info \<and> (bound s k \<noteq> None \<or> listen (fst k) (snd k)) then Some info else bound s k)"
proof -
  let ?s1 = "fst (run_each (register_tcp listen info) s (elems (Ports info)))"
  let ?s2 = "fst (run_each (register_udp listen info) ?s1 (elems (UDPPorts info)))"
  have "bound (fst (RegisterTarget listen s info)) k = bound ?s2 k"
    using assms by (simp add: RegisterTarget_def conflicting_iff Let_def case_prod_unfold bound_def)
  then show ?thesis
    by (cases k) (auto simp: bound_run_udp bound_run_tcp declared_def)
qed

lemma cron_RegisterTarget:
  assumes "\<not> conflicting s info"
  shows "cron_bound (fst (RegisterTarget listen s info)) c =
    (if declared info = {} \<and> c = ContainerID info then Some info else cron_bound s c)"
proof -
  let ?s1 = "fst (run_each (register_tcp listen info) s (elems (Ports info)))"
  let ?s2 = "fst (run_each (register_udp listen info) ?s1 (elems (UDPPorts info)))"
  have "srv_cronOnlyTargets ?s1 = srv_cronOnlyTargets s"
    by (rule run_each_unchanged) (simp add: frame)
  moreover have "srv_cronOnlyTargets ?s2 = srv_cronOnlyTargets ?s1"
    by (rule run_each_unchanged) (simp add: frame)
  moreover have "declared info = {} \<longleftrightarrow> elems (Ports info) = [] \<and> elems (UDPPorts info) = []"
    by (simp add: declared_def)
  ultimately show ?thesis
    using assms
    by (simp add: RegisterTarget_def conflicting_iff Let_def case_prod_unfold cron_bound_def update_conv')
qed

lemma RegisterTarget_ok [keeps]:
  assumes "srv_ok s"
  shows "srv_ok (fst (RegisterTarget listen s info))"
proof -
  let ?s1 = "fst (run_each (register_tcp listen info) s (elems (Ports info)))"
  let ?s2 = "fst (run_each (register_udp listen info) ?s1 (elems (UDPPorts info)))"
  have "srv_ok ?s1" using assms by (rule run_each_invariant) (rule register_tcp_ok)
  then have "srv_ok ?s2" by (rule run_each_invariant) (rule register_udp_ok)
  with assms show ?thesis
    by (simp add: RegisterTarget_def Let_def case_prod_unfold srv_ok_def update_conv')
qed

text \<open>\<open>RemoveTarget\<close> on the abstract view.\<close>

lemma bound_RemoveTarget:
  assumes "srv_ok s"
  shows "bound (fst (RemoveTarget s c)) k =
    (case bound s k of None \<Rightarrow> None | Some i \<Rightarrow> if ContainerID i = c then None else Some i)"
  using assms
  by (auto simp: RemoveTarget_def Let_def bound_def srv_ok_def map_of_filter_value split: option.splits)

lemma cron_RemoveTarget:
  "cron_bound (fst (RemoveTarget s c)) d = (if d = c then None else cron_bound s d)"
  by (simp add: RemoveTarget_def Let_def cron_bound_def delete_conv')

lemma RemoveTarget_ok [keeps]: "srv_ok s \<Longrightarrow> srv_ok (fst (RemoveTarget s c))"
  by (auto simp: RemoveTarget_def Let_def srv_ok_def map_of_filter_value delete_conv'
      split: option.splits if_splits)

subsection \<open>Registries that serve exactly a set of targets\<close>

definition serves :: "ProxyServer \<Rightarrow> TargetInfo set \<Rightarrow> bool" where
  "serves s I \<longleftrightarrow> srv_ok s \<and> inj_on ContainerID I
     \<and> (\<forall>k i. bound s k = Some i \<longleftrightarrow> i \<in> I \<and> k \<in> declared i)
     \<and> (\<forall>c i. cron_bound s c = Some i \<longleftrightarrow> i \<in> I \<and> declared i = {} \<and> ContainerID i = c)"

lemma servesD:
  assumes "serves s I"
  shows "srv_ok s" "inj_on ContainerID I"
    "\<And>k i. bound s k = Some i \<longleftrightarrow> i \<in> I \<and> k \<in> declared i"
    "\<And>c i. cron_bound s c = Some i \<longleftrightarrow> i \<in> I \<and> declared i = {} \<and> ContainerID i = c"
  using assms unfolding serves_def by blast+

lemma serves_remove:
  assumes "serves s I"
  shows "serves (fst (RemoveTarget s c)) {i \<in> I. ContainerID i \<noteq> c}"
proof -
  note d = servesD [OF assms]
  have "bound (fst (RemoveTarget s c)) k = Some i \<longleftrightarrow> bound s k = Some i \<and> ContainerID i \<noteq> c" for k i
    by (auto simp: bound_RemoveTarget [OF d(1)] split: option.splits)
  moreover have "cron_bound (fst (RemoveTarget s c)) e = Some i \<longleftrightarrow> cron_bound s e = Some i \<and> ContainerID i \<noteq> c" for e i
    using d(4) by (auto simp: cron_RemoveTarget)
  ultimately show ?thesis
    using d unfolding serves_def by (auto simp: RemoveTarget_ok inj_on_def)
qed

lemma serves_register:
  assumes "serves s I" and "\<And>i. i \<in> I \<Longrightarrow> ContainerID i \<noteq> ContainerID info"
    and "\<And>i. i \<in> I \<Longrightarrow> declared i \<inter> declared info = {}"
    and "\<And>k. k \<in> declared info \<Longrightarrow> listen (fst k) (snd k)"
  shows "serves (fst (RegisterTarget listen s info)) (insert info I)"
proof -
  note d = servesD [OF assms(1)]
  have free: "bound s k = None" if "k \<in> declared info" for k
  proof (rule ccontr)
    assume "bound s k \<noteq> None"
    then obtain i where "bound s k = Some i" by blast
    with d(3) [of k i] assms(3) that show False by blast
  qed
  then have nc: "\<not> conflicting s info" by (auto simp: conflicting_def)
  have nin: "info \<notin> I" using assms(2) by blast
  have "bound (fst (RegisterTarget listen s info)) k = Some i \<longleftrightarrow> i \<in> insert info I \<and> k \<in> declared i" for k i
  proof (cases "k \<in> declared info")
    case True
    then have "i \<notin> I \<or> k \<notin> declared i" using assms(3) by blast
    with True assms(4) nin show ?thesis by (auto simp: bound_RegisterTarget [OF nc])
  next
    case False
    with d(3) nin show ?thesis by (auto simp: bound_RegisterTarget [OF nc])
  qed
  moreover have "cron_bound (fst (RegisterTarget listen s info)) c = Some i
      \<longleftrightarrow> i \<in> insert info I \<and> declared i = {} \<and> ContainerID i = c" for c i
    using d(4) assms(2) by (auto simp: cron_RegisterTarget [OF nc])
  moreover have "inj_on ContainerID (insert info I)"
    using d(2) assms(2) unfolding inj_on_def by (metis insert_iff)
  ultimately show ?thesis
    using RegisterTarget_ok [OF d(1)] unfolding serves_def by blast
qed

lemma serves_empty: "serves (NewServer t i p st tls) {}"
proof -
  let ?s = "NewServer t i p st tls"
  have "srv_targets ?s = []" "srv_udpTargets ?s = []" "srv_cronOnlyTargets ?s = []"
    by (simp_all add: NewServer_def)
  then show ?thesis by (simp add: serves_def NewServer_ok bound_def cron_bound_def)
qed

text \<open>The current targets of such a server are those it serves.\<close>

lemma map_of_foldl_update:
  "map_of (foldl (\<lambda>out x. AList.update (f x) (g x) out) m xs) k =
    (case filter (\<lambda>x. f x = k) xs of [] \<Rightarrow> map_of m k | ys \<Rightarrow> Some (g (last ys)))"
proof (induction xs arbitrary: m)
  case (Cons x xs)
  show ?case
    unfolding foldl_Cons Cons.IH
    by (cases "filter (\<lambda>x. f x = k) xs") (auto simp: update_conv')
qed simp

lemma foldl_update_same:
  assumes "\<And>x. x \<in> set xs \<Longrightarrow> f x = k \<Longrightarrow> g x = v"
  shows "map_of (foldl (\<lambda>out x. AList.update (f x) (g x) out) m xs) k =
    (if k \<in> f ` set xs then Some v else map_of m k)"
proof (cases "filter (\<lambda>x. f x = k) xs")
  case Nil
  then have "k \<notin> f ` set xs" by (auto simp: filter_empty_conv)
  with Nil show ?thesis by (simp add: map_of_foldl_update)
next
  case (Cons y ys)
  then have "last (y # ys) \<in> set (filter (\<lambda>x. f x = k) xs)" by (simp del: set_filter)
  then have "last (y # ys) \<in> set xs \<and> f (last (y # ys)) = k" by simp
  moreover from this have "k \<in> f ` set xs" by force
  ultimately show ?thesis using assms Cons unfolding map_of_foldl_update by simp
qed

lemma keys_distinct_foldl_update:
  "keys_distinct m \<Longrightarrow> keys_distinct (foldl (\<lambda>out x. AList.update (f x) (g x) out) m xs)"
  by (induction xs arbitrary: m) simp_all

lemma current_keys_distinct [simp]: "keys_distinct (currentTargetsByID s)"
  by (simp add: currentTargetsByID_def Let_def case_prod_unfold keys_distinct_foldl_update)

lemma current_of_serves:
  assumes "serves s I"
  shows "map_of (currentTargetsByID s) c = Some i \<longleftrightarrow> i \<in> I \<and> ContainerID i = c"
proof -
  note d = servesD [OF assms]
  have tcp: "ts_info ts \<in> I" if "(p, ts) \<in> set (srv_targets s)" for p ts
  proof -
    have "bound s (False, p) = Some (ts_info ts)"
      using d(1) that in_alist_iff [of "srv_targets s" p ts] by (simp add: bound_def srv_ok_def)
    with d(3) show ?thesis by blast
  qed
  have udp: "uls_info uls \<in> I" if "(p, uls) \<in> set (srv_udpTargets s)" for p uls
  proof -
    have "bound s (True, p) = Some (uls_info uls)"
      using d(1) that in_alist_iff [of "srv_udpTargets s" p uls] by (simp add: bound_def srv_ok_def)
    with d(3) show ?thesis by blast
  qed
  have cron: "ct_info ct \<in> I \<and> ct_id ct = e" if "(e, ct) \<in> set (srv_cronOnlyTargets s)" for e ct
  proof -
    have "cron_bound s e = Some (ct_info ct)"
      using d(1) that in_alist_iff [of "srv_cronOnlyTargets s" e ct] by (simp add: cron_bound_def srv_ok_def)
    with d(4) show ?thesis by blast
  qed
  have uniq: "x = y" if "x \<in> I" "y \<in> I" "ContainerID x = ContainerID y" for x y
    using d(2) that by (auto simp: inj_on_def)
  let ?t = "c \<in> (\<lambda>(_, ts). ts_id ts) ` set (srv_targets s)"
  let ?u = "c \<in> (\<lambda>(_, uls). uls_id uls) ` set (srv_udpTargets s)"
  let ?r = "c \<in> fst ` set (srv_cronOnlyTargets s)"
  have layers: "map_of (currentTargetsByID s) c = (if ?r \<or> ?u \<or> ?t then Some j else None)"
    if j: "\<And>x. x \<in> I \<Longrightarrow> ContainerID x = c \<Longrightarrow> x = j" for j
  proof -
    have 1: "map_of (foldl (\<lambda>out (_, ts). AList.update (ts_id ts) (ts_info ts) out) [] (srv_targets s)) c
        = (if ?t then Some j else None)"
      using foldl_update_same [of "srv_targets s" "\<lambda>(_, ts). ts_id ts" c "\<lambda>(_, ts). ts_info ts" j "[]"] j tcp
      by (fastforce simp: case_prod_unfold)
    have 2: "map_of (foldl (\<lambda>out (_, uls). AList.update (uls_id uls) (uls_info uls) out) m (srv_udpTargets s)) c
        = (if ?u then Some j else map_of m c)" for m
      using foldl_update_same [of "srv_udpTargets s" "\<lambda>(_, uls). uls_id uls" c "\<lambda>(_, uls). uls_info uls" j m] j udp
      by (fastforce simp: case_prod_unfold)
    have 3: "map_of (foldl (\<lambda>out (cid, ct). AList.update cid (ct_info ct) out) m (srv_cronOnlyTargets s)) c
        = (if ?r then Some j else map_of m c)" for m
      using foldl_update_same [of "srv_cronOnlyTargets s" fst c "\<lambda>(_, ct). ct_info ct" j m] j cron
      by (fastforce simp: case_prod_unfold)
    show ?thesis by (simp add: currentTargetsByID_def Let_def 1 2 3)
  qed
  show ?thesis
  proof (cases "\<exists>j \<in> I. ContainerID j = c")
    case False
    then have "\<not> ?t" "\<not> ?u" "\<not> ?r" using tcp udp cron by fastforce+
    with layers [of zero_info] False show ?thesis by auto
  next
    case True
    then obtain j where j: "j \<in> I" "ContainerID j = c" by blast
    have "?r \<or> ?u \<or> ?t"
    proof (cases "declared j = {}")
      case True
      with d(4) j have "cron_bound s c = Some j" by blast
      then show ?thesis by (auto simp: cron_bound_def dest: map_of_SomeD intro: rev_image_eqI)
    next
      case False
      then obtain u p where "(u, p) \<in> declared j" by auto
      with d(3) j have "bound s (u, p) = Some j" by blast
      with j show ?thesis
        by (cases u) (force simp: bound_def dest: map_of_SomeD)+
    qed
    with layers [of j] uniq j have "map_of (currentTargetsByID s) c = Some j" by auto
    with uniq j show ?thesis by auto
  qed
qed

subsection \<open>Reconciliation\<close>

text \<open>
  What the registry holds for a configured target after a reconciliation: its current
  description where nothing the proxy compares has changed, the new one otherwise.
\<close>

definition final_info :: "(string \<times> TargetInfo) list \<Rightarrow> string \<times> TargetInfo \<Rightarrow> TargetInfo" where
  "final_info current new =
     (case map_of current (fst new) of
        Some cur \<Rightarrow> if targetInfoEqual cur (snd new) then cur else snd new
      | None \<Rightarrow> snd new)"

text \<open>
  A configuration that can be applied in any order: no two of its targets claim the same port,
  and none claims a port that another target of the configuration holds at present.
\<close>

definition compatible :: "TargetInfo set \<Rightarrow> (string \<times> TargetInfo) list \<Rightarrow> bool" where
  "compatible I new \<longleftrightarrow>
     (\<forall>x \<in> set new. ContainerID (snd x) = fst x
        \<and> (\<forall>y \<in> set new. fst y \<noteq> fst x \<longrightarrow> declared (snd x) \<inter> declared (snd y) = {})
        \<and> (\<forall>i \<in> I. ContainerID i \<noteq> fst x \<and> ContainerID i \<in> fst ` set new
              \<longrightarrow> declared i \<inter> declared (snd x) = {}))"

lemma compatibleD:
  assumes "compatible I new" and "x \<in> set new"
  shows "ContainerID (snd x) = fst x"
    and "\<And>y. y \<in> set new \<Longrightarrow> fst y \<noteq> fst x \<Longrightarrow> declared (snd x) \<inter> declared (snd y) = {}"
    and "\<And>i. i \<in> I \<Longrightarrow> ContainerID i \<noteq> fst x \<Longrightarrow> ContainerID i \<in> fst ` set new \<Longrightarrow> declared i \<inter> declared (snd x) = {}"
  using assms unfolding compatible_def by blast+

lemma compatible_tl:
  assumes "compatible I (x # rest)"
  shows "compatible I rest"
  unfolding compatible_def
proof (intro ballI conjI impI)
  fix y assume y: "y \<in> set rest"
  then have y': "y \<in> set (x # rest)" by simp
  note c = compatibleD [OF assms y']
  show "ContainerID (snd y) = fst y" by (rule c(1))
  show "declared (snd y) \<inter> declared (snd z) = {}" if "z \<in> set rest" "fst z \<noteq> fst y" for z
    using that by (intro c(2)) simp_all
  show "declared i \<inter> declared (snd y) = {}" if "i \<in> I" "ContainerID i \<noteq> fst y \<and> ContainerID i \<in> fst ` set rest" for i
    using that by (intro c(3)) simp_all
qed

lemma declared_equal: "targetInfoEqual a b \<Longrightarrow> declared a = declared b"
  by (simp add: targetInfoEqual_def declared_def)

lemma serves_remove_absent:
  assumes "serves s I"
  shows "serves (fst (run_each (remove_absent new) s xs))
    {i \<in> I. \<not> (ContainerID i \<in> fst ` set xs \<and> map_of new (ContainerID i) = None)}"
  using assms
proof (induction xs arbitrary: s I)
  case (Cons x xs)
  show ?case
  proof (cases "map_of new (fst x) = None")
    case True
    note st = Cons.IH [OF serves_remove [OF Cons.prems, of "fst x"]]
    have "{i \<in> {i \<in> I. ContainerID i \<noteq> fst x}. \<not> (ContainerID i \<in> fst ` set xs \<and> map_of new (ContainerID i) = None)}
        = {i \<in> I. \<not> (ContainerID i \<in> fst ` set (x # xs) \<and> map_of new (ContainerID i) = None)}"
      using True by auto
    with st True show ?thesis by (simp add: remove_absent_def case_prod_unfold)
  next
    case False
    then have "{i \<in> I. \<not> (ContainerID i \<in> fst ` set xs \<and> map_of new (ContainerID i) = None)}
        = {i \<in> I. \<not> (ContainerID i \<in> fst ` set (x # xs) \<and> map_of new (ContainerID i) = None)}" by auto
    moreover have "remove_absent new s x = (s, [])" using False by (simp add: remove_absent_def del: not_None_eq)
    ultimately show ?thesis using Cons.IH [OF Cons.prems] by (simp only: run_each.simps case_prod_unfold fst_conv)
  qed
qed simp

lemma serves_register_changed:
  assumes s: "serves s (done \<union> {i \<in> I. ContainerID i \<in> fst ` set (x # rest)})"
    and cur: "\<And>c i. map_of current c = Some i \<longleftrightarrow> i \<in> I \<and> ContainerID i = c"
    and x: "ContainerID (snd x) = fst x" "fst x \<notin> fst ` set rest" "\<And>i. i \<in> done \<Longrightarrow> ContainerID i \<noteq> fst x"
    and disj: "\<And>i. i \<in> done \<or> i \<in> I \<and> ContainerID i \<in> fst ` set rest \<Longrightarrow> declared i \<inter> declared (snd x) = {}"
    and listen: "\<And>k. k \<in> declared (snd x) \<Longrightarrow> listen (fst k) (snd k)"
  shows "serves (fst (register_changed listen current s x))
    (insert (final_info current x) done \<union> {i \<in> I. ContainerID i \<in> fst ` set rest})"
proof -
  let ?R = "{i \<in> I. ContainerID i \<in> fst ` set rest}"
  have reg: "serves (fst (RegisterTarget listen s' (snd x))) (insert (snd x) (done \<union> ?R))"
    if "serves s' (done \<union> ?R)" for s'
  proof (rule serves_register [OF that])
    show "ContainerID i \<noteq> ContainerID (snd x)" if "i \<in> done \<union> ?R" for i
    proof (cases "i \<in> done")
      case True
      then show ?thesis using x(1,3) by simp
    next
      case False
      then have "ContainerID i \<in> fst ` set rest" using that by blast
      then show ?thesis using x(1,2) by metis
    qed
    show "declared i \<inter> declared (snd x) = {}" if "i \<in> done \<union> ?R" for i
      using that by (intro disj) auto
  qed (rule listen)
  show ?thesis
  proof (cases "map_of current (fst x)")
    case None
    then have "ContainerID i \<noteq> fst x" if "i \<in> I" for i using cur [of "fst x" i] that by auto
    then have "{i \<in> I. ContainerID i \<in> fst ` set (x # rest)} = ?R" by auto
    with reg s None show ?thesis by (simp add: register_changed_def final_info_def)
  next
    case (Some c)
    have c: "c \<in> I" "ContainerID c = fst x" using Some cur by auto
    have only: "i = c" if "i \<in> I" "ContainerID i = fst x" for i
    proof -
      have "map_of current (fst x) = Some i" using cur that by blast
      with Some show ?thesis by simp
    qed
    show ?thesis
    proof (cases "targetInfoEqual c (snd x)")
      case True
      have "{i \<in> I. ContainerID i \<in> fst ` set (x # rest)} = insert c ?R"
      proof (rule set_eqI)
        fix i
        show "i \<in> {i \<in> I. ContainerID i \<in> fst ` set (x # rest)} \<longleftrightarrow> i \<in> insert c ?R"
        proof (cases "i = c")
          case True
          then show ?thesis using c by simp
        next
          case False
          with only have "\<not> (i \<in> I \<and> ContainerID i = fst x)" by blast
          with False show ?thesis by auto
        qed
      qed
      with s True Some show ?thesis by (simp add: register_changed_def final_info_def)
    next
      case False
      have "{i \<in> done \<union> {i \<in> I. ContainerID i \<in> fst ` set (x # rest)}. ContainerID i \<noteq> fst x} = done \<union> ?R"
      proof (rule set_eqI)
        fix i
        show "i \<in> {i \<in> done \<union> {i \<in> I. ContainerID i \<in> fst ` set (x # rest)}. ContainerID i \<noteq> fst x} \<longleftrightarrow> i \<in> done \<union> ?R"
          using x(2) x(3) [of i] by (cases "ContainerID i = fst x") auto
      qed
      with serves_remove [OF s, of "fst x"] have "serves (fst (RemoveTarget s (fst x))) (done \<union> ?R)" by simp
      from reg [OF this] Some False show ?thesis
        by (simp add: register_changed_def final_info_def case_prod_unfold)
    qed
  qed
qed

lemma serves_register_all:
  assumes "serves s (done \<union> {i \<in> I. ContainerID i \<in> fst ` set new})"
    and cur: "\<And>c i. map_of current c = Some i \<longleftrightarrow> i \<in> I \<and> ContainerID i = c"
    and "keys_distinct new" and "compatible I new"
    and "\<And>i. i \<in> done \<Longrightarrow> ContainerID i \<notin> fst ` set new"
    and "\<And>i c x. i \<in> done \<Longrightarrow> (c, x) \<in> set new \<Longrightarrow> declared i \<inter> declared x = {}"
    and "\<And>c x k. (c, x) \<in> set new \<Longrightarrow> k \<in> declared x \<Longrightarrow> listen (fst k) (snd k)"
  shows "serves (fst (run_each (register_changed listen current) s new)) (done \<union> final_info current ` set new)"
  using assms(1,3-7)
proof (induction new arbitrary: s "done")
  case (Cons x rest)
  let ?f = "final_info current x"
  obtain c info where x: "x = (c, info)" by fastforce
  have id_x: "ContainerID info = c" and nin: "c \<notin> fst ` set rest"
    using Cons.prems(2) compatibleD(1) [OF Cons.prems(3), of x] x by (simp_all add: keys_distinct_def)
  have f: "ContainerID ?f = c \<and> declared ?f = declared info"
    using id_x cur x by (auto simp: final_info_def declared_equal split: option.splits)
  have other: "declared info \<inter> declared y = {}" if "(d, y) \<in> set rest" for d y
  proof -
    have "d \<noteq> c" using that nin by force
    with compatibleD(2) [OF Cons.prems(3), of x "(d, y)"] that x show ?thesis by simp
  qed
  have held: "declared i \<inter> declared info = {}" if "i \<in> I" "ContainerID i \<in> fst ` set rest" for i
  proof -
    have "ContainerID i \<noteq> c" "ContainerID i \<in> fst ` set (x # rest)" using that nin by auto
    with compatibleD(3) [OF Cons.prems(3), of x i] that(1) x show ?thesis by simp
  qed
  have "serves (fst (register_changed listen current s x))
      (insert ?f done \<union> {i \<in> I. ContainerID i \<in> fst ` set rest})"
  proof (rule serves_register_changed [OF Cons.prems(1) cur])
    show "ContainerID (snd x) = fst x" "fst x \<notin> fst ` set rest" using id_x nin x by simp_all
    show "ContainerID i \<noteq> fst x" if "i \<in> done" for i using Cons.prems(4) [OF that] by auto
    show "declared i \<inter> declared (snd x) = {}" if "i \<in> done \<or> i \<in> I \<and> ContainerID i \<in> fst ` set rest" for i
      using that held Cons.prems(5) [of i c info] x by auto
    show "listen (fst k) (snd k)" if "k \<in> declared (snd x)" for k
      using Cons.prems(6) [of c info] that x by simp
  qed
  moreover have "keys_distinct rest" using Cons.prems(2) by (simp add: keys_distinct_def)
  moreover have "compatible I rest" using Cons.prems(3) by (rule compatible_tl)
  moreover have "ContainerID i \<notin> fst ` set rest" if "i \<in> insert ?f done" for i
    using that f nin Cons.prems(4) by auto
  moreover have "declared i \<inter> declared y = {}" if "i \<in> insert ?f done" "(d, y) \<in> set rest" for i d y
    using that f other Cons.prems(5) [of i d y] by auto
  ultimately have "serves (fst (run_each (register_changed listen current)
      (fst (register_changed listen current s x)) rest)) (insert ?f done \<union> final_info current ` set rest)"
  proof (rule Cons.IH)
    show "listen (fst k) (snd k)" if "(d, y) \<in> set rest" "k \<in> declared y" for d y k
      using that by (intro Cons.prems(6) [of d y]) simp_all
  qed
  then show ?case by (simp add: case_prod_unfold)
qed simp

lemma reconcile_serves:
  assumes "serves s I"
    and "\<And>c i. map_of current c = Some i \<longleftrightarrow> i \<in> I \<and> ContainerID i = c"
    and "keys_distinct new" and "compatible I new"
    and "\<And>c x k. (c, x) \<in> set new \<Longrightarrow> k \<in> declared x \<Longrightarrow> listen (fst k) (snd k)"
  shows "serves (fst (reconcile listen current new s)) (final_info current ` set new)"
proof -
  let ?s1 = "fst (run_each (remove_absent new) s current)"
  have "i \<in> I \<Longrightarrow> ContainerID i \<in> fst ` set current" for i
    using assms(2) [of "ContainerID i" i] by (force dest: map_of_SomeD)
  moreover have "map_of new c = None \<longleftrightarrow> c \<notin> fst ` set new" for c by (rule map_of_eq_None_iff)
  ultimately have "{i \<in> I. \<not> (ContainerID i \<in> fst ` set current \<and> map_of new (ContainerID i) = None)}
      = {} \<union> {i \<in> I. ContainerID i \<in> fst ` set new}" by auto
  with serves_remove_absent [OF assms(1), of new current]
  have "serves ?s1 ({} \<union> {i \<in> I. ContainerID i \<in> fst ` set new})" by simp
  from serves_register_all [OF this assms(2-4), of listen] assms(5)
  have "serves (fst (run_each (register_changed listen current) ?s1 new)) (final_info current ` set new)" by simp
  then show ?thesis by (simp add: reconcile_def case_prod_unfold)
qed


lemma targets_by_id_distinct:
  assumes "distinct (map ContainerID ts)"
  shows "targets_by_id ts = map (\<lambda>t. (ContainerID t, t)) ts"
proof -
  have "foldl (\<lambda>m t. AList.update (ContainerID t) t m) m ts = m @ map (\<lambda>t. (ContainerID t, t)) ts"
    if "distinct (map ContainerID ts)" "fst ` set m \<inter> ContainerID ` set ts = {}" for m :: "(string \<times> TargetInfo) list"
    using that
  proof (induction ts arbitrary: m)
    case (Cons t ts)
    have "AList.update (ContainerID t) t m = m @ [(ContainerID t, t)]"
      using Cons.prems(2) by (induction m) auto
    moreover have "fst ` set (m @ [(ContainerID t, t)]) \<inter> ContainerID ` set ts = {}"
      using Cons.prems by auto
    ultimately show ?case using Cons.IH [of "m @ [(ContainerID t, t)]"] Cons.prems(1) by simp
  qed simp
  from this [of "[]"] assms show ?thesis by (simp add: targets_by_id_def)
qed

lemma targetInfoEqual_refl [simp]: "targetInfoEqual a a"
  by (simp add: targetInfoEqual_def)

text \<open>The configuration file's targets can be applied in any order to a server serving \<open>I\<close>.\<close>

definition applicable :: "TargetInfo set \<Rightarrow> TargetInfo list \<Rightarrow> bool" where
  "applicable I news \<longleftrightarrow> distinct (map ContainerID news)
     \<and> (\<forall>t \<in> set news. \<forall>u \<in> set news \<union> {i \<in> I. ContainerID i \<in> ContainerID ` set news}.
          ContainerID u \<noteq> ContainerID t \<longrightarrow> declared u \<inter> declared t = {})"

lemma Update_serves:
  assumes s: "serves s I" and app: "applicable I news"
    and listen: "\<And>t k. t \<in> set news \<Longrightarrow> k \<in> declared t \<Longrightarrow> listen (fst k) (snd k)"
  shows "serves (fst (Update listen s news))
    ((\<lambda>t. final_info (currentTargetsByID s) (ContainerID t, t)) ` set news)"
proof -
  have d: "distinct (map ContainerID news)" using app by (simp add: applicable_def)
  let ?new = "map (\<lambda>t. (ContainerID t, t)) news"
  have "keys_distinct ?new" using d by (simp add: keys_distinct_def comp_def)
  moreover have "compatible I ?new"
    unfolding compatible_def
  proof (intro ballI conjI impI)
    fix x assume "x \<in> set ?new"
    then obtain t where t: "t \<in> set news" "x = (ContainerID t, t)" by auto
    show "ContainerID (snd x) = fst x" using t by simp
    show "declared (snd x) \<inter> declared (snd y) = {}" if y0: "y \<in> set ?new" "fst y \<noteq> fst x" for y
    proof -
      obtain u where y: "u \<in> set news" "y = (ContainerID u, u)"
        using y0(1) by auto
      with y0 t app have "declared u \<inter> declared t = {}" unfolding applicable_def by simp
      with t y show ?thesis by (simp add: Int_commute)
    qed
    show "declared i \<inter> declared (snd x) = {}"
      if "i \<in> I" "ContainerID i \<noteq> fst x \<and> ContainerID i \<in> fst ` set ?new" for i
    proof -
      have "ContainerID i \<in> ContainerID ` set news" using that by force
      with that t app show ?thesis unfolding applicable_def by simp
    qed
  qed
  ultimately have "serves (fst (reconcile listen (currentTargetsByID s) ?new s))
      (final_info (currentTargetsByID s) ` set ?new)"
    using listen by (intro reconcile_serves [OF s current_of_serves [OF s]]) auto
  then show ?thesis by (simp add: Update_def targets_by_id_distinct [OF d] image_image)
qed

text \<open>
  Whatever a server holds at the start, stale ports included: after a reconciliation its ports belong to
  containers of the new configuration.
\<close>

lemma dom_foldl_update: "dom (map_of (foldl (\<lambda>out x. AList.update (f x) (g x) out) m xs)) = dom (map_of m) \<union> f ` set xs"
  by (induction xs arbitrary: m) (auto simp: update_conv')

lemma bound_is_current: "bound s k = Some i \<Longrightarrow> ContainerID i \<in> dom (map_of (currentTargetsByID s))"
  by (auto simp: currentTargetsByID_def Let_def case_prod_unfold dom_foldl_update bound_def image_iff split: if_splits dest!: map_of_SomeD)
    force+

lemma bound_remove_absent:
  assumes "srv_ok s" and "bound (fst (run_each (remove_absent new) s xs)) k = Some i"
  shows "bound s k = Some i \<and> (ContainerID i \<in> fst ` set xs \<longrightarrow> map_of new (ContainerID i) \<noteq> None)"
  using assms
proof (induction xs arbitrary: s)
  case (Cons x xs)
  show ?case
  proof (cases "map_of new (fst x) = None")
    case True
    then have "remove_absent new s x = RemoveTarget s (fst x)" by (simp add: remove_absent_def)
    with Cons.prems(2) have "bound (fst (run_each (remove_absent new) (fst (RemoveTarget s (fst x))) xs)) k = Some i"
      by (simp add: case_prod_unfold)
    from Cons.IH [OF RemoveTarget_ok [OF Cons.prems(1)] this] show ?thesis
      by (auto simp: bound_RemoveTarget [OF Cons.prems(1)] split: option.splits if_splits)
  next
    case False
    then have "remove_absent new s x = (s, [])" by (simp add: remove_absent_def del: not_None_eq)
    with Cons.prems have "bound (fst (run_each (remove_absent new) s xs)) k = Some i"
      by (simp only: run_each.simps case_prod_unfold fst_conv)
    from Cons.IH [OF Cons.prems(1) this] False show ?thesis by auto
  qed
qed simp

lemma run_each_remove_absent_ok: "srv_ok s \<Longrightarrow> srv_ok (fst (run_each (remove_absent new) s xs))"
  by (rule run_each_invariant) (simp_all add: remove_absent_def RemoveTarget_ok)

lemma bound_register:
  "bound (fst (RegisterTarget listen s info)) k = Some i \<Longrightarrow> bound s k = Some i \<or> i = info"
  by (cases "conflicting s info") (auto simp: register_conflict bound_RegisterTarget split: if_splits)

lemma bound_register_changed:
  assumes "srv_ok s" and "bound (fst (register_changed listen current s x)) k = Some i"
  shows "bound s k = Some i \<or> i = snd x"
proof -
  have "bound s k = Some i" if "bound (fst (RemoveTarget s (fst x))) k = Some i"
    using that by (auto simp: bound_RemoveTarget [OF assms(1)] split: option.splits if_splits)
  moreover have "fst (register_changed listen current s x) \<in>
      {s, fst (RegisterTarget listen s (snd x)), fst (RegisterTarget listen (fst (RemoveTarget s (fst x))) (snd x))}"
    by (simp add: register_changed_def case_prod_unfold split: option.split)
  ultimately show ?thesis using assms(2) bound_register [of listen _ "snd x" k i] by auto
qed

lemma register_changed_ok: "srv_ok s \<Longrightarrow> srv_ok (fst (register_changed listen current s x))"
  by (simp add: register_changed_def case_prod_unfold RegisterTarget_ok RemoveTarget_ok split: option.split)

lemma Update_only_configured:
  assumes ok: "srv_ok s" and "bound (fst (Update listen s news)) k = Some i"
  shows "ContainerID i \<in> ContainerID ` set news"
proof -
  let ?new = "targets_by_id news" and ?cur = "currentTargetsByID s"
  let ?s1 = "fst (run_each (remove_absent ?new) s ?cur)"
  have new: "dom (map_of ?new) = ContainerID ` set news"
    by (simp add: targets_by_id_def dom_foldl_update)
  have ids: "ContainerID (snd x) = fst x" if "x \<in> set ?new" for x
  proof -
    have "\<forall>x \<in> set m. ContainerID (snd x) = fst x \<Longrightarrow>
        \<forall>x \<in> set (foldl (\<lambda>m t. AList.update (ContainerID t) t m) m ts). ContainerID (snd x) = fst x"
      for m :: "(string \<times> TargetInfo) list" and ts
    proof (induction ts arbitrary: m)
      case (Cons t ts)
      have "set (AList.update (ContainerID t) t m) \<subseteq> insert (ContainerID t, t) (set m)"
        by (induction m) auto
      with Cons.prems have "\<forall>x \<in> set (AList.update (ContainerID t) t m). ContainerID (snd x) = fst x" by auto
      from Cons.IH [OF this] show ?case by simp
    qed simp
    from this [of "[]" news] that show ?thesis by (simp add: targets_by_id_def)
  qed
  have s1: "ContainerID j \<in> ContainerID ` set news" if "bound ?s1 l = Some j" for l j
  proof -
    note b = bound_remove_absent [OF ok that]
    with bound_is_current [of s l j] have "ContainerID j \<in> fst ` set ?cur" by (simp add: dom_map_of_conv_image_fst)
    with b have "ContainerID j \<in> dom (map_of ?new)" by blast
    with new show ?thesis by simp
  qed
  let ?P = "\<lambda>s. srv_ok s \<and> (\<forall>l j. bound s l = Some j \<longrightarrow> ContainerID j \<in> ContainerID ` set news)"
  have "?P (fst (run_each (register_changed listen ?cur) ?s1 ?new))"
  proof (rule run_each_invariant)
    show "?P ?s1" using run_each_remove_absent_ok [OF ok] s1 by blast
    fix t x assume x: "x \<in> set ?new" and P: "?P t"
    have "ContainerID (snd x) \<in> ContainerID ` set news"
      using ids [OF x] x new by (metis domI dom_map_of_conv_image_fst imageI)
    with bound_register_changed [of t listen ?cur x] P register_changed_ok [of t listen ?cur x]
    show "?P (fst (register_changed listen ?cur t x))" by blast
  qed
  moreover have "fst (Update listen s news) = fst (run_each (register_changed listen ?cur) ?s1 ?new)"
    by (simp add: Update_def reconcile_def case_prod_unfold)
  ultimately show ?thesis using assms(2) by metis
qed

subsection \<open>Scheduler calls\<close>

definition sched_calls :: "server_effect list \<Rightarrow> sched_call list" where
  "sched_calls es = List.map_filter (\<lambda>e. case e of Sched c \<Rightarrow> Some c | _ \<Rightarrow> None) es"

lemma sched_calls_append [simp]: "sched_calls (xs @ ys) = sched_calls xs @ sched_calls ys"
  by (simp add: sched_calls_def map_filter_eq_concat)

lemma sched_calls_none:
  "(\<And>e c. e \<in> set es \<Longrightarrow> e \<noteq> Sched c) \<Longrightarrow> sched_calls es = []"
  by (induction es) (auto simp: sched_calls_def List.map_filter_def split: server_effect.splits)

lemma sched_calls_RemoveTarget:
  "sched_calls (snd (RemoveTarget s c)) = (if srv_sched s then [SchedUnregister c] else [])"
proof -
  have 1: "sched_calls (concat (map (\<lambda>(p, x). if P x then collect s [k p] @ [f p] else []) m)) = []"
    if "\<And>p c. f p \<noteq> Sched c" for P k f and m :: "(int \<times> 'x) list"
  proof (rule sched_calls_none)
    fix e c assume "e \<in> set (concat (map (\<lambda>(p, x). if P x then collect s [k p] @ [f p] else []) m))"
    then show "e \<noteq> Sched c" using that [THEN not_sym] by (auto simp: collect_def split: if_splits)
  qed
  show ?thesis
    by (simp add: RemoveTarget_def Let_def 1) (simp add: sched_calls_def List.map_filter_def)
qed

subsection \<open>Properties\<close>

text \<open>
  C1: registering a target is all or nothing. If one of its declared TCP or UDP ports is held by
  another container, neither the server nor anything outside changes. Otherwise the target is
  bound to every declared port that was already its own or that the system grants, and every
  other port keeps its owner; no port of another container is ever taken.
\<close>

theorem register_is_all_or_nothing:
  "(conflicting s info \<longrightarrow> RegisterTarget listen s info = (s, []))
   \<and> (\<not> conflicting s info \<longrightarrow> (\<forall>k. bound (fst (RegisterTarget listen s info)) k =
        (if k \<in> declared info \<and> (bound s k \<noteq> None \<or> listen (fst k) (snd k)) then Some info else bound s k)))
   \<and> (\<forall>k i. bound s k = Some i \<and> ContainerID i \<noteq> ContainerID info
        \<longrightarrow> bound (fst (RegisterTarget listen s info)) k = Some i)"
proof (cases "conflicting s info")
  case True
  then show ?thesis by (simp add: register_conflict)
next
  case False
  then have "k \<notin> declared info" if "bound s k = Some i" "ContainerID i \<noteq> ContainerID info" for k i
    using that by (auto simp: conflicting_def)
  with False show ?thesis by (auto simp: bound_RegisterTarget)
qed

definition demo_web :: TargetInfo where
  "demo_web = zero_info\<lparr>ContainerID := ''c1'', ContainerName := ''web'',
     Ports := Some [\<lparr>ListenPort = 80, TargetPort = 8080\<rparr>]\<rparr>"

definition demo_api :: TargetInfo where
  "demo_api = zero_info\<lparr>ContainerID := ''c2'', ContainerName := ''api'',
     Ports := Some [\<lparr>ListenPort = 90, TargetPort = 9090\<rparr>]\<rparr>"

definition demo_server :: ProxyServer where
  "demo_server = fst (RegisterTarget (\<lambda>_ _. True) (NewServer 0 0 0 0 False) demo_web)"

lemma declared_demo [simp]: "declared demo_web = {(False, 80)}" "declared demo_api = {(False, 90)}"
  by (simp_all add: declared_def demo_web_def demo_api_def zero_info_def)

lemma demo_ids [simp]: "ContainerID demo_web = ''c1''" "ContainerID demo_api = ''c2''"
  by (simp_all add: demo_web_def demo_api_def)

lemma demo_serves: "serves demo_server {demo_web}"
  unfolding demo_server_def by (rule serves_register [OF serves_empty]) simp_all

theorem register_is_all_or_nothing_witness:
  "bound (fst (RegisterTarget (\<lambda>_ _. True) demo_server (demo_api\<lparr>Ports := Some [\<lparr>ListenPort = 80, TargetPort = 1\<rparr>]\<rparr>))) (False, 80)
    = Some demo_web"
proof -
  have "bound demo_server (False, 80) = Some demo_web"
    using servesD(3) [OF demo_serves] by simp
  moreover have "ContainerID demo_web \<noteq> ContainerID (demo_api\<lparr>Ports := Some [\<lparr>ListenPort = 80, TargetPort = 1\<rparr>]\<rparr>)"
    by (simp add: demo_api_def)
  ultimately show ?thesis using register_is_all_or_nothing by blast
qed

text \<open>
  C33: removing a target leaves nothing of it behind: no TCP or UDP port and no port-less entry
  names the container, every other binding is as before, and replaying the calls it makes on
  the cron scheduler leaves the container without any job.
\<close>

theorem remove_leaves_nothing:
  assumes "srv_ok s" and "srv_sched s"
    and "cron_library_ok add rem jobs valid" and "sched_ok jobs sc"
  shows "(\<forall>k i. bound (fst (RemoveTarget s c)) k = Some i \<longleftrightarrow> bound s k = Some i \<and> ContainerID i \<noteq> c)
    \<and> (\<forall>d. cron_bound (fst (RemoveTarget s c)) d = (if d = c then None else cron_bound s d))
    \<and> srv_ok (fst (RemoveTarget s c))
    \<and> schedule_of jobs (foldl (run_sched_call add rem) sc (sched_calls (snd (RemoveTarget s c)))) c = {}"
proof -
  have "schedule_of jobs (Unregister rem sc c) c = {}"
    using cs.unregister_schedule [of add rem jobs valid sc c c] assms(3,4) by simp
  then show ?thesis
    using assms by (auto simp: bound_RemoveTarget cron_RemoveTarget RemoveTarget_ok sched_calls_RemoveTarget
        run_sched_call_def split: option.splits)
qed

theorem remove_leaves_nothing_witness:
  "bound (fst (RemoveTarget (SetScheduler demo_server) ''c1'')) (False, 80) = None"
proof -
  have "srv_ok (SetScheduler demo_server)"
    using servesD(1) [OF demo_serves] by (simp add: srv_ok_def SetScheduler_def)
  moreover have "srv_sched (SetScheduler demo_server)" by (simp add: SetScheduler_def)
  moreover have "sched_ok table_jobs (New_Scheduler (0, []))"
    by (simp add: sched_ok_def New_Scheduler_def owned_def job_owner_def table_jobs_def)
  moreover have "bound (SetScheduler demo_server) (False, 80) = Some demo_web"
    using servesD(3) [OF demo_serves, of "(False, 80)" demo_web] by (simp add: SetScheduler_def bound_def)
  ultimately show ?thesis
    using remove_leaves_nothing [of "SetScheduler demo_server" table_add table_rem table_jobs _ "New_Scheduler (0, [])" "''c1''"]
      table_library
    by (metis demo_ids(1) not_Some_eq option.inject)
qed



text \<open>
  A reload that changes nothing does nothing: if the server already serves the configured
  targets, \<open>Update\<close> leaves the state alone, touches no listener and calls nobody.
\<close>

theorem update_is_idempotent:
  assumes "serves s (set news)" and "distinct (map ContainerID news)"
  shows "Update listen s news = (s, [])"
proof -
  note cur = current_of_serves [OF assms(1)]
  have "remove_absent (targets_by_id news) s x = (s, [])" if "x \<in> set (currentTargetsByID s)" for x
  proof -
    have "map_of (currentTargetsByID s) (fst x) = Some (snd x)"
      using that in_alist_iff [OF current_keys_distinct, of "fst x" "snd x" s] by simp
    then have "snd x \<in> set news \<and> ContainerID (snd x) = fst x" using cur by blast
    then have "fst x \<in> ContainerID ` set news" by (metis imageI)
    then have "map_of (targets_by_id news) (fst x) \<noteq> None"
      by (simp add: targets_by_id_distinct [OF assms(2)] map_of_eq_None_iff image_image)
    then show ?thesis by (simp add: remove_absent_def del: not_None_eq)
  qed
  moreover have "register_changed listen (currentTargetsByID s) s x = (s, [])" if "x \<in> set (targets_by_id news)" for x
  proof -
    have "snd x \<in> set news \<and> ContainerID (snd x) = fst x"
      using that by (auto simp: targets_by_id_distinct [OF assms(2)])
    then have "map_of (currentTargetsByID s) (fst x) = Some (snd x)" using cur by blast
    then show ?thesis by (simp add: register_changed_def)
  qed
  ultimately show ?thesis by (simp add: Update_def reconcile_def run_each_idle)
qed

theorem update_is_idempotent_witness: "Update (\<lambda>_ _. False) demo_server [demo_web] = (demo_server, [])"
  using demo_serves by (intro update_is_idempotent) simp_all


text \<open>
  A reload that hands a port from one changed target to another can lose a target. When a
  changed target claims a port that another container still holds at the moment it is processed,
  \<open>Update\<close> has already removed it and its registration is rejected as a whole, so no port is
  bound to it any more.
\<close>

theorem handed_over_port_loses_target:
  assumes "serves s I" and "cur \<in> I" and "ContainerID cur = ContainerID x" and "\<not> targetInfoEqual cur x"
    and "k \<in> declared x" and "bound s k = Some i" and "ContainerID i \<noteq> ContainerID x"
  shows "\<forall>l j. bound (fst (register_changed listen (currentTargetsByID s) s (ContainerID x, x))) l = Some j
      \<longrightarrow> ContainerID j \<noteq> ContainerID x"
proof -
  note ok = servesD(1) [OF assms(1)]
  let ?s1 = "fst (RemoveTarget s (ContainerID x))"
  have cur: "map_of (currentTargetsByID s) (ContainerID x) = Some cur"
    using current_of_serves [OF assms(1)] assms(2,3) by blast
  have "bound ?s1 k = Some i" using assms(6,7) by (simp add: bound_RemoveTarget [OF ok])
  then have "conflicting ?s1 x" using assms(5,7) by (auto simp: conflicting_def)
  then have "fst (register_changed listen (currentTargetsByID s) s (ContainerID x, x)) = ?s1"
    using cur assms(4) by (simp add: register_changed_def register_conflict case_prod_unfold)
  then show ?thesis by (auto simp: bound_RemoveTarget [OF ok] split: option.splits)
qed

theorem handed_over_port_loses_target_witness:
  "let s = fst (RegisterTarget (\<lambda>_ _. True) demo_server demo_api);
       x = demo_web\<lparr>Ports := Some [\<lparr>ListenPort = 90, TargetPort = 8080\<rparr>]\<rparr>
   in \<forall>l j. bound (fst (register_changed (\<lambda>_ _. True) (currentTargetsByID s) s (''c1'', x))) l = Some j
        \<longrightarrow> ContainerID j \<noteq> ''c1''"
proof -
  let ?s = "fst (RegisterTarget (\<lambda>_ _. True) demo_server demo_api)"
  let ?x = "demo_web\<lparr>Ports := Some [\<lparr>ListenPort = 90, TargetPort = 8080\<rparr>]\<rparr>"
  have sv: "serves ?s {demo_api, demo_web}" by (rule serves_register [OF demo_serves]) simp_all
  have id: "ContainerID ?x = ''c1''" by (simp add: demo_web_def)
  have "\<not> targetInfoEqual demo_web ?x" by (simp add: targetInfoEqual_def demo_web_def zero_info_def)
  moreover have "(False, 90) \<in> declared ?x" by (simp add: declared_def)
  moreover have "bound ?s (False, 90) = Some demo_api" using servesD(3) [OF sv] by simp
  ultimately show ?thesis
    using handed_over_port_loses_target [OF sv, of demo_web ?x "(False, 90)" demo_api "\<lambda>_ _. True"] id
    by (simp add: Let_def)
qed


end
