(* ===== verification/Server_Lifecycle.thy ===== *)
theory Server_Lifecycle
  imports Server_Registry "HOL-Library.Multiset"
begin

text \<open>
  Lifecycle of the registered containers: the running flags, cron starts and stops, cascades,
  the inactivity check and the status list. The contract of a container backend is the locale
  \<open>container_backend\<close>; the backends of \<open>internal/docker\<close> and \<open>internal/k8s\<close> provide it.
\<close>

subsection \<open>Updates of all mappings of a container\<close>

lemma each_frame [frame]:
  "srv_udpTargets (each_tcp c f s) = srv_udpTargets s"
  "srv_cronOnlyTargets (each_tcp c f s) = srv_cronOnlyTargets s"
  "srv_targets (each_udp c g s) = srv_targets s"
  "srv_cronOnlyTargets (each_udp c g s) = srv_cronOnlyTargets s"
  "srv_targets (each_cron c h s) = srv_targets s"
  "srv_udpTargets (each_cron c h s) = srv_udpTargets s"
  "srv_nameToID (each_tcp c f s) = srv_nameToID s"
  "srv_nameToID (each_udp c g s) = srv_nameToID s"
  "srv_nameToID (each_cron c h s) = srv_nameToID s"
  by (simp_all add: each_tcp_def each_udp_def each_cron_def)

lemma each_tcp_ok [keeps]:
  assumes "srv_ok s" and "\<And>ts. ts_listenPort (f ts) = ts_listenPort ts \<and> ts_removed (f ts) = ts_removed ts"
  shows "srv_ok (each_tcp c f s)"
  using assms by (auto simp: srv_ok_def each_tcp_def)

lemma each_udp_ok [keeps]:
  assumes "srv_ok s" and "\<And>u. uls_listenPort (g u) = uls_listenPort u \<and> uls_removed (g u) = uls_removed u"
  shows "srv_ok (each_udp c g s)"
  using assms by (auto simp: srv_ok_def each_udp_def)

lemma each_cron_ok [keeps]:
  assumes "srv_ok s" and "\<And>ct. ct_id (h ct) = ct_id ct"
  shows "srv_ok (each_cron c h s)"
  using assms by (auto simp: srv_ok_def each_cron_def)

lemma tcp_of_each [simp]:
  assumes "\<And>ts. ts_id (f ts) = ts_id ts"
  shows "tcp_of (each_tcp c f s) d = (if d = c then map f (tcp_of s d) else tcp_of s d)"
proof -
  have "filter (\<lambda>ts. ts_id ts = d) (map snd (map_values (\<lambda>_ ts. if ts_id ts = c then f ts else ts) m))
      = (if d = c then map f (filter (\<lambda>ts. ts_id ts = d) (map snd m)) else filter (\<lambda>ts. ts_id ts = d) (map snd m))" for m
    using assms by (induction m) auto
  from this [of "srv_targets s"] show ?thesis unfolding tcp_of_def each_tcp_def by simp
qed

lemma udp_of_each [simp]:
  assumes "\<And>u. uls_id (g u) = uls_id u"
  shows "udp_of (each_udp c g s) d = (if d = c then map g (udp_of s d) else udp_of s d)"
proof -
  have "filter (\<lambda>u. uls_id u = d) (map snd (map_values (\<lambda>_ u. if uls_id u = c then g u else u) m))
      = (if d = c then map g (filter (\<lambda>u. uls_id u = d) (map snd m)) else filter (\<lambda>u. uls_id u = d) (map snd m))" for m
    using assms by (induction m) auto
  from this [of "srv_udpTargets s"] show ?thesis unfolding udp_of_def each_udp_def by simp
qed

lemma of_frame [simp]:
  "tcp_of (each_udp c g s) d = tcp_of s d" "tcp_of (each_cron c h s) d = tcp_of s d"
  "udp_of (each_tcp c f s) d = udp_of s d" "udp_of (each_cron c h s) d = udp_of s d"
  by (simp_all add: tcp_of_def udp_of_def frame)

lemma cron_of_each [simp]:
  "map_of (srv_cronOnlyTargets (each_cron c h s)) d
    = (if d = c then map_option h (map_of (srv_cronOnlyTargets s) d) else map_of (srv_cronOnlyTargets s) d)"
  by (simp add: each_cron_def option.map_ident_strong)

lemma set_running_ok [keeps]: "srv_ok s \<Longrightarrow> srv_ok (set_running b c s)"
  by (simp add: set_running_def each_tcp_ok each_udp_ok each_cron_ok)

subsection \<open>The running flags of a container\<close>

text \<open>All mappings of \<open>c\<close>, and its port-less entry, carry the running flag \<open>b\<close>.\<close>

definition flags :: "ProxyServer \<Rightarrow> string \<Rightarrow> bool \<Rightarrow> bool" where
  "flags s c b \<longleftrightarrow> (\<forall>ts \<in> set (tcp_of s c). ts_running ts = b) \<and> (\<forall>u \<in> set (udp_of s c). uls_running u = b)
     \<and> (\<forall>ct. map_of (srv_cronOnlyTargets s) c = Some ct \<longrightarrow> ct_running ct = b)"

lemma flags_set_running: "flags (set_running b c s) c b"
  by (auto simp: flags_def set_running_def frame)

lemma flags_set_running_other: "d \<noteq> c \<Longrightarrow> flags (set_running b c s) d v \<longleftrightarrow> flags s d v"
  by (simp add: flags_def set_running_def frame)

lemma isRunning_flags:
  assumes "flags s c b" and "snd (isRunning s c)"
  shows "fst (isRunning s c) = b"
proof -
  from assms(2) consider ts where "ts \<in> set (tcp_of s c)" | u where "u \<in> set (udp_of s c)"
    | ct where "map_of (srv_cronOnlyTargets s) c = Some ct"
    unfolding isRunning_def Let_def snd_conv by (metis last_in_set not_None_eq)
  then show ?thesis
    using assms(1) by cases (auto simp: isRunning_def flags_def Let_def list_ex_iff split: option.splits)
qed

subsection \<open>The inactivity check\<close>

text \<open>The mappings the check looks at, and when it finds a container idle.\<close>

definition eligible_tcp :: "string \<Rightarrow> int \<times> targetState \<Rightarrow> bool" where
  "eligible_tcp c x \<longleftrightarrow> \<not> ts_removed (snd x) \<and> EffectiveAvailability (ts_info (snd x)) = AvailabilityOnDemand
     \<and> ts_id (snd x) = c"

definition eligible_udp :: "string \<Rightarrow> int \<times> udpListenerState \<Rightarrow> bool" where
  "eligible_udp c y \<longleftrightarrow> \<not> uls_removed (snd y) \<and> EffectiveAvailability (uls_info (snd y)) = AvailabilityOnDemand
     \<and> uls_id (snd y) = c"

definition idle_over ::
  "instant \<Rightarrow> ProxyServer \<Rightarrow> (int \<times> targetState) set \<Rightarrow> (int \<times> udpListenerState) set \<Rightarrow> string \<Rightarrow> bool" where
  "idle_over now s X Y c \<longleftrightarrow> (\<forall>x \<in> X. eligible_tcp c x \<longrightarrow> \<not> tcp_busy now s (snd x))
     \<and> (\<forall>y \<in> Y. eligible_udp c y \<longrightarrow> \<not> udp_busy now s (snd y))"

definition managed_over ::
  "(int \<times> targetState) set \<Rightarrow> (int \<times> udpListenerState) set \<Rightarrow> string \<Rightarrow> bool" where
  "managed_over X Y c \<longleftrightarrow> (\<exists>x \<in> X. eligible_tcp c x) \<or> (\<exists>y \<in> Y. eligible_udp c y)"

abbreviation "container_idle now s c \<equiv>
  managed_over (set (srv_targets s)) (set (srv_udpTargets s)) c
  \<and> idle_over now s (set (srv_targets s)) (set (srv_udpTargets s)) c"

definition grouped_ok ::
  "instant \<Rightarrow> ProxyServer \<Rightarrow> (int \<times> targetState) set \<Rightarrow> (int \<times> udpListenerState) set
     \<Rightarrow> (string \<times> idle_entry) list \<Rightarrow> bool" where
  "grouped_ok now s X Y by \<longleftrightarrow> keys_distinct by
     \<and> (\<forall>c. (map_of by c \<noteq> None) = managed_over X Y c)
     \<and> (\<forall>c e. map_of by c = Some e \<longrightarrow> en_allIdle e = idle_over now s X Y c
          \<and> set (en_tcp e) = {fst x | x. x \<in> X \<and> eligible_tcp c x}
          \<and> set (en_udp e) = {fst y | y. y \<in> Y \<and> eligible_udp c y})"

lemma grouped_okD:
  assumes "grouped_ok now s X Y by"
  shows "keys_distinct by" "\<And>c. (map_of by c \<noteq> None) = managed_over X Y c"
    "\<And>c e. map_of by c = Some e \<Longrightarrow> en_allIdle e = idle_over now s X Y c
          \<and> set (en_tcp e) = {fst x | x. x \<in> X \<and> eligible_tcp c x}
          \<and> set (en_udp e) = {fst y | y. y \<in> Y \<and> eligible_udp c y}"
  using assms unfolding grouped_ok_def by blast+

text \<open>The entry a mapping is added to: the container's own, or a fresh one when none was seen.\<close>

lemma lookup_entry_spec:
  assumes "grouped_ok now s X Y by"
  shows "en_allIdle (lookup_entry info by) = idle_over now s X Y (ContainerID info)
    \<and> set (en_tcp (lookup_entry info by)) = {fst x | x. x \<in> X \<and> eligible_tcp (ContainerID info) x}
    \<and> set (en_udp (lookup_entry info by)) = {fst y | y. y \<in> Y \<and> eligible_udp (ContainerID info) y}"
proof (cases "map_of by (ContainerID info)")
  case None
  then have "\<not> managed_over X Y (ContainerID info)" using grouped_okD(2) [OF assms] by blast
  with None show ?thesis by (auto simp: lookup_entry_def new_entry_def managed_over_def idle_over_def)
next
  case (Some e)
  with grouped_okD(3) [OF assms] show ?thesis by (simp add: lookup_entry_def)
qed

lemma collect_insert:
  "{f y | y. y \<in> insert x X \<and> P y} = {f y | y. y \<in> X \<and> P y} \<union> (if P x then {f x} else {})"
  by auto

lemma group_tcp_ok:
  assumes "grouped_ok now s X Y by"
  shows "grouped_ok now s (insert x X) Y (group_tcp now s by x)"
proof (cases "eligible_tcp (ts_id (snd x)) x")
  case False
  then have none: "\<not> eligible_tcp c x" for c by (auto simp: eligible_tcp_def)
  then have "group_tcp now s by x = by"
    by (auto simp: group_tcp_def eligible_tcp_def case_prod_unfold)
  moreover have "idle_over now s (insert x X) Y = idle_over now s X Y" "managed_over (insert x X) Y = managed_over X Y"
    using none by (auto simp: idle_over_def managed_over_def fun_eq_iff)
  moreover have "{fst y | y. y \<in> insert x X \<and> eligible_tcp c y} = {fst y | y. y \<in> X \<and> eligible_tcp c y}" for c
    using none by blast
  ultimately show ?thesis using assms by (simp add: grouped_ok_def)
next
  case True
  let ?d = "ts_id (snd x)" and ?e = "lookup_entry (ts_info (snd x)) by"
  let ?e' = "?e\<lparr>en_tcp := en_tcp ?e @ [fst x], en_allIdle := (en_allIdle ?e \<and> \<not> tcp_busy now s (snd x))\<rparr>"
  have step: "group_tcp now s by x = AList.update ?d ?e' by"
    using True by (auto simp: group_tcp_def eligible_tcp_def case_prod_unfold Let_def)
  note e = lookup_entry_spec [OF assms, of "ts_info (snd x)"]
  have only: "eligible_tcp c x \<longleftrightarrow> c = ?d" for c using True by (auto simp: eligible_tcp_def)
  have idle: "idle_over now s (insert x X) Y c \<longleftrightarrow> idle_over now s X Y c \<and> (c = ?d \<longrightarrow> \<not> tcp_busy now s (snd x))" for c
    by (auto simp: idle_over_def only)
  have mng: "managed_over (insert x X) Y c \<longleftrightarrow> c = ?d \<or> managed_over X Y c" for c
    by (auto simp: managed_over_def only)
  have ports: "{fst y | y. y \<in> insert x X \<and> eligible_tcp c y}
      = {fst y | y. y \<in> X \<and> eligible_tcp c y} \<union> (if c = ?d then {fst x} else {})" for c
    unfolding collect_insert only by (rule refl)
  show ?thesis
    unfolding grouped_ok_def step idle mng ports
  proof (intro conjI allI impI)
    show "keys_distinct (AList.update ?d ?e' by)" using grouped_okD(1) [OF assms] by simp
    fix c
    show "(map_of (AList.update ?d ?e' by) c \<noteq> None) = (c = ?d \<or> managed_over X Y c)"
      using grouped_okD(2) [OF assms, of c] by (simp add: update_conv')
    fix e' assume m: "map_of (AList.update ?d ?e' by) c = Some e'"
    have "en_allIdle e' = (idle_over now s X Y c \<and> (c = ?d \<longrightarrow> \<not> tcp_busy now s (snd x)))
      \<and> set (en_tcp e') = {fst y | y. y \<in> X \<and> eligible_tcp c y} \<union> (if c = ?d then {fst x} else {})
      \<and> set (en_udp e') = {fst y | y. y \<in> Y \<and> eligible_udp c y}"
    proof (cases "c = ?d")
      case True
      with m have "e' = ?e'" by (simp add: update_conv')
      with True e show ?thesis by simp
    next
      case False
      with m have "map_of by c = Some e'" by (simp add: update_conv')
      from grouped_okD(3) [OF assms this] False show ?thesis by simp
    qed
    then show "en_allIdle e' = (idle_over now s X Y c \<and> (c = ?d \<longrightarrow> \<not> tcp_busy now s (snd x)))"
      "set (en_tcp e') = {fst y | y. y \<in> X \<and> eligible_tcp c y} \<union> (if c = ?d then {fst x} else {})"
      "set (en_udp e') = {fst y | y. y \<in> Y \<and> eligible_udp c y}" by blast+
  qed
qed

lemma group_udp_ok:
  assumes "grouped_ok now s X Y by"
  shows "grouped_ok now s X (insert x Y) (group_udp now s by x)"
proof (cases "eligible_udp (uls_id (snd x)) x")
  case False
  then have none: "\<not> eligible_udp c x" for c by (auto simp: eligible_udp_def)
  then have "group_udp now s by x = by"
    by (auto simp: group_udp_def eligible_udp_def case_prod_unfold)
  moreover have "idle_over now s X (insert x Y) = idle_over now s X Y" "managed_over X (insert x Y) = managed_over X Y"
    using none by (auto simp: idle_over_def managed_over_def fun_eq_iff)
  moreover have "{fst y | y. y \<in> insert x Y \<and> eligible_udp c y} = {fst y | y. y \<in> Y \<and> eligible_udp c y}" for c
    using none by blast
  ultimately show ?thesis using assms by (simp add: grouped_ok_def)
next
  case True
  let ?d = "uls_id (snd x)" and ?e = "lookup_entry (uls_info (snd x)) by"
  let ?e' = "?e\<lparr>en_udp := en_udp ?e @ [fst x], en_allIdle := (en_allIdle ?e \<and> \<not> udp_busy now s (snd x))\<rparr>"
  have step: "group_udp now s by x = AList.update ?d ?e' by"
    using True by (auto simp: group_udp_def eligible_udp_def case_prod_unfold Let_def)
  note e = lookup_entry_spec [OF assms, of "uls_info (snd x)"]
  have only: "eligible_udp c x \<longleftrightarrow> c = ?d" for c using True by (auto simp: eligible_udp_def)
  have idle: "idle_over now s X (insert x Y) c \<longleftrightarrow> idle_over now s X Y c \<and> (c = ?d \<longrightarrow> \<not> udp_busy now s (snd x))" for c
    by (auto simp: idle_over_def only)
  have mng: "managed_over X (insert x Y) c \<longleftrightarrow> c = ?d \<or> managed_over X Y c" for c
    by (auto simp: managed_over_def only)
  have ports: "{fst y | y. y \<in> insert x Y \<and> eligible_udp c y}
      = {fst y | y. y \<in> Y \<and> eligible_udp c y} \<union> (if c = ?d then {fst x} else {})" for c
    unfolding collect_insert only by (rule refl)
  show ?thesis
    unfolding grouped_ok_def step idle mng ports
  proof (intro conjI allI impI)
    show "keys_distinct (AList.update ?d ?e' by)" using grouped_okD(1) [OF assms] by simp
    fix c
    show "(map_of (AList.update ?d ?e' by) c \<noteq> None) = (c = ?d \<or> managed_over X Y c)"
      using grouped_okD(2) [OF assms, of c] by (simp add: update_conv')
    fix e' assume m: "map_of (AList.update ?d ?e' by) c = Some e'"
    have "en_allIdle e' = (idle_over now s X Y c \<and> (c = ?d \<longrightarrow> \<not> udp_busy now s (snd x)))
      \<and> set (en_tcp e') = {fst y | y. y \<in> X \<and> eligible_tcp c y}
      \<and> set (en_udp e') = {fst y | y. y \<in> Y \<and> eligible_udp c y} \<union> (if c = ?d then {fst x} else {})"
    proof (cases "c = ?d")
      case True
      with m have "e' = ?e'" by (simp add: update_conv')
      with True e show ?thesis by simp
    next
      case False
      with m have "map_of by c = Some e'" by (simp add: update_conv')
      from grouped_okD(3) [OF assms this] False show ?thesis by simp
    qed
    then show "en_allIdle e' = (idle_over now s X Y c \<and> (c = ?d \<longrightarrow> \<not> udp_busy now s (snd x)))"
      "set (en_tcp e') = {fst y | y. y \<in> X \<and> eligible_tcp c y}"
      "set (en_udp e') = {fst y | y. y \<in> Y \<and> eligible_udp c y} \<union> (if c = ?d then {fst x} else {})" by blast+
  qed
qed

lemma group_tcp_all:
  "grouped_ok now s X Y by \<Longrightarrow> grouped_ok now s (X \<union> set xs) Y (foldl (group_tcp now s) by xs)"
proof (induction xs arbitrary: X "by")
  case (Cons x xs)
  then show ?case using Cons.IH [OF group_tcp_ok [OF Cons.prems, of x]] by simp
qed simp

lemma group_udp_all:
  "grouped_ok now s X Y by \<Longrightarrow> grouped_ok now s X (Y \<union> set ys) (foldl (group_udp now s) by ys)"
proof (induction ys arbitrary: Y "by")
  case (Cons y ys)
  then show ?case using Cons.IH [OF group_udp_ok [OF Cons.prems, of y]] by simp
qed simp

lemma by_container_ok:
  "grouped_ok now s (set (srv_targets s)) (set (srv_udpTargets s)) (by_container now s)"
proof -
  have "grouped_ok now s {} {} []" by (simp add: grouped_ok_def managed_over_def)
  from group_udp_all [OF group_tcp_all [OF this, of "srv_targets s"], of "srv_udpTargets s"]
  show ?thesis by (simp add: by_container_def)
qed

lemma entry_of_idle:
  "(\<exists>e. (c, e) \<in> set (by_container now s) \<and> en_allIdle e) \<longleftrightarrow> container_idle now s c"
proof -
  note g = grouped_okD [OF by_container_ok [of now s]]
  show ?thesis
    using g(2) [of c] g(3) [of c] by (auto simp: in_alist_iff [OF g(1)])
qed


lemma entry_stopped_calls: "CallStop c n \<notin> set (snd (entry_stopped s ce))"
  by (cases ce) (auto simp: entry_stopped_def collect_def lifecycle_webhook_def fireWebhook_def stop_cascade_of_def)

lemma stop_idle_entry_calls:
  "CallStop c n \<in> set (snd (stop_idle_entry stop bs (d, e))) \<longleftrightarrow> c = d \<and> en_allIdle e \<and> n = en_name e"
  using entry_stopped_calls [of c n "snd bs" "(d, e)"]
  by (auto simp: stop_idle_entry_def case_prod_unfold split: bool.splits)

lemma checkInactivity_calls:
  "CallStop c n \<in> set (snd (checkInactivity stop now bs))
    \<longleftrightarrow> (\<exists>e. (c, e) \<in> set (by_container now (snd bs)) \<and> en_allIdle e \<and> n = en_name e)"
proof -
  have "CallStop c n \<in> set (snd (run_each (stop_idle_entry stop) bs es))
      \<longleftrightarrow> (\<exists>e. (c, e) \<in> set es \<and> en_allIdle e \<and> n = en_name e)" for es
    by (induction es arbitrary: bs) (auto simp: case_prod_unfold stop_idle_entry_calls)
  then show ?thesis by (simp add: checkInactivity_def)
qed

lemma stopped_iff_idle:
  "(\<exists>n. CallStop c n \<in> set (snd (checkInactivity stop now bs))) \<longleftrightarrow> container_idle now (snd bs) c"
  using entry_of_idle [of c now "snd bs"] by (simp add: checkInactivity_calls)

lemma entry_stopped_ok [keeps]: "srv_ok s \<Longrightarrow> srv_ok (fst (entry_stopped s ce))"
  by (cases ce) (auto simp: entry_stopped_def srv_ok_def)

lemma checkInactivity_ok [keeps]:
  fixes bs :: "'b \<times> ProxyServer"
  assumes "srv_ok (snd bs)"
  shows "srv_ok (snd (fst (checkInactivity stop now bs)))"
  unfolding checkInactivity_def
proof (rule run_each_invariant [where P = "\<lambda>bs. srv_ok (snd bs)", OF assms])
  fix bs' :: "'b \<times> ProxyServer" and x
  assume "srv_ok (snd bs')"
  then show "srv_ok (snd (fst (stop_idle_entry stop bs' x)))"
    by (auto simp: stop_idle_entry_def case_prod_unfold entry_stopped_ok split: bool.splits)
qed

subsection \<open>Backends\<close>

text \<open>
  What the server relies on when it calls a backend: a successful \<open>EnsureRunning\<close> leaves the
  container up, a successful \<open>StopContainer\<close> leaves it down, and neither touches a container of
  another unit. The unit of a target ID is what the backend acts on under that ID; two IDs may name
  the same one (a container's name and its ID, \<open>x\<close> and \<open>default/x\<close>).
\<close>

locale container_backend =
  fixes ensure :: "'b \<Rightarrow> string \<Rightarrow> 'b \<times> bool"
    and stop :: "'b \<Rightarrow> string \<Rightarrow> string \<Rightarrow> 'b \<times> bool"
    and up :: "'b \<Rightarrow> string \<Rightarrow> bool"
    and unit_of :: "'b \<Rightarrow> string \<Rightarrow> 'u"
    and ok :: "'b \<Rightarrow> bool"
  assumes ensure_ok: "ok b \<Longrightarrow> ok (fst (ensure b c)) \<and> unit_of (fst (ensure b c)) = unit_of b"
    and stop_ok: "ok b \<Longrightarrow> ok (fst (stop b c n)) \<and> unit_of (fst (stop b c n)) = unit_of b"
    and ensure_up: "ok b \<Longrightarrow> snd (ensure b c) \<Longrightarrow> up (fst (ensure b c)) c"
    and ensure_other: "ok b \<Longrightarrow> unit_of b d \<noteq> unit_of b c \<Longrightarrow> up (fst (ensure b c)) d = up b d"
    and stop_down: "ok b \<Longrightarrow> snd (stop b c n) \<Longrightarrow> \<not> up (fst (stop b c n)) c"
    and stop_other: "ok b \<Longrightarrow> unit_of b d \<noteq> unit_of b c \<Longrightarrow> up (fst (stop b c n)) d = up b d"
begin

lemma idle_entry_other:
  assumes "ok (fst bs)"
  shows "ok (fst (fst (stop_idle_entry stop bs ce)))
    \<and> unit_of (fst (fst (stop_idle_entry stop bs ce))) = unit_of (fst bs)
    \<and> (unit_of (fst bs) d \<noteq> unit_of (fst bs) (fst ce) \<or> \<not> en_allIdle (snd ce)
         \<longrightarrow> up (fst (fst (stop_idle_entry stop bs ce))) d = up (fst bs) d)"
  using assms stop_ok [OF assms, of "fst ce" "en_name (snd ce)"] stop_other [OF assms, of d "fst ce" "en_name (snd ce)"]
  by (auto simp: stop_idle_entry_def case_prod_unfold split: bool.splits)

lemma check_only_stops_idle:
  assumes "ok (fst bs)" and "\<And>c. container_idle now (snd bs) c \<Longrightarrow> unit_of (fst bs) c \<noteq> unit_of (fst bs) d"
  shows "up (fst (fst (checkInactivity stop now bs))) d = up (fst bs) d"
proof -
  have "up (fst (fst (run_each (stop_idle_entry stop) bs es))) d = up (fst bs) d"
    if "\<forall>c e. (c, e) \<in> set es \<longrightarrow> en_allIdle e \<longrightarrow> unit_of (fst bs) c \<noteq> unit_of (fst bs) d" "ok (fst bs)" for es bs
    using that
  proof (induction es arbitrary: bs)
    case (Cons x es)
    have "unit_of (fst bs) d \<noteq> unit_of (fst bs) (fst x) \<or> \<not> en_allIdle (snd x)"
      using Cons.prems(1) by (metis list.set_intros(1) prod.collapse)
    note one = idle_entry_other [OF Cons.prems(2), of x d]
    have "up (fst (fst (run_each (stop_idle_entry stop) (fst (stop_idle_entry stop bs x)) es))) d
        = up (fst (fst (stop_idle_entry stop bs x))) d"
      by (rule Cons.IH) (use one Cons.prems(1) in simp_all)
    with one \<open>unit_of (fst bs) d \<noteq> _ \<or> _\<close> show ?case by (simp add: case_prod_unfold)
  qed simp
  with assms entry_of_idle [of _ now "snd bs"] show ?thesis unfolding checkInactivity_def by blast
qed

lemma cron_start_up:
  assumes "ok b" and "snd (isRunning s c)" and "fst (isRunning s c) \<longrightarrow> map_of (srv_cronOnlyTargets s) c \<noteq> None"
  shows "snd (ensure b c) \<longrightarrow> up (fst (fst (CronStart_run ensure now (b, s) c n))) c
      \<and> flags (snd (fst (CronStart_run ensure now (b, s) c n))) c True"
    and "\<not> snd (ensure b c) \<longrightarrow> snd (fst (CronStart_run ensure now (b, s) c n)) = s"
    and "unit_of b d \<noteq> unit_of b c \<Longrightarrow> up (fst (fst (CronStart_run ensure now (b, s) c n))) d = up b d"
  using assms(2,3) ensure_up [OF assms(1), of c] ensure_other [OF assms(1), of d c]
  by (auto simp: CronStart_run_def cron_started_def Let_def case_prod_unfold flags_set_running split: bool.splits)

lemma cron_stop_down:
  assumes "ok b" and "snd (isRunning s c)" and "fst (isRunning s c)"
  shows "snd (stop b c n) \<longrightarrow> \<not> up (fst (fst (CronStop_run stop (b, s) c n))) c
      \<and> flags (snd (fst (CronStop_run stop (b, s) c n))) c False"
    and "\<not> snd (stop b c n) \<longrightarrow> snd (fst (CronStop_run stop (b, s) c n)) = s"
    and "unit_of b d \<noteq> unit_of b c \<Longrightarrow> up (fst (fst (CronStop_run stop (b, s) c n))) d = up b d"
  using assms(2,3) stop_down [OF assms(1), of c n] stop_other [OF assms(1), of d c n]
  by (auto simp: CronStop_run_def cron_stopped_def Let_def case_prod_unfold flags_set_running split: bool.splits)

text \<open>A cascade only touches registered dependants.\<close>

lemma cascade_start_other:
  assumes "ok (fst bs)"
    and "\<forall>dep \<in> set (elems (Dependants u)). \<forall>c. srv_nameToID (snd bs) dep = Some c \<longrightarrow> unit_of (fst bs) d \<noteq> unit_of (fst bs) c"
  shows "up (fst (fst (cascadeStart ensure bs u))) d = up (fst bs) d"
proof -
  have "up (fst (fst (run_each (cascade_start_one ensure) bs ds))) d = up (fst bs) d"
    if "ok (fst bs)" "\<forall>dep \<in> set ds. \<forall>c. srv_nameToID (snd bs) dep = Some c \<longrightarrow> unit_of (fst bs) d \<noteq> unit_of (fst bs) c" for ds bs
    using that
  proof (induction ds arbitrary: bs)
    case (Cons x ds)
    let ?bs1 = "fst (cascade_start_one ensure bs x)"
    have "ok (fst ?bs1) \<and> unit_of (fst ?bs1) = unit_of (fst bs) \<and> srv_nameToID (snd ?bs1) = srv_nameToID (snd bs)
        \<and> up (fst ?bs1) d = up (fst bs) d"
      using Cons.prems ensure_ok [OF Cons.prems(1)] ensure_other [OF Cons.prems(1), of d]
      by (auto simp: cascade_start_one_def case_prod_unfold frame split: option.splits bool.splits)
    with Cons.IH [of ?bs1] Cons.prems(2) show ?case by (simp add: case_prod_unfold)
  qed simp
  with assms show ?thesis unfolding cascadeStart_def by blast
qed

end

subsection \<open>Properties\<close>

text \<open>When a container is at rest, stated on the registry without the grouping the check uses.\<close>

definition quiet_tcp :: "instant \<Rightarrow> ProxyServer \<Rightarrow> targetState \<Rightarrow> bool" where
  "quiet_tcp now s ts \<longleftrightarrow> ts_running ts \<and> ts_activeConns ts \<le> 0
     \<and> effectiveTimeout (ts_idleTimeout ts) (srv_idleTimeout s) \<le> time_sub now (ts_lastActive ts)"

definition quiet_udp :: "instant \<Rightarrow> ProxyServer \<Rightarrow> udpListenerState \<Rightarrow> bool" where
  "quiet_udp now s uls \<longleftrightarrow> uls_running uls \<and> uls_flows uls = [] \<and> uls_pending uls = []
     \<and> effectiveTimeout (uls_idleTimeout uls) (srv_idleTimeout s) \<le> time_sub now (uls_lastActive uls)"

definition declares_on_demand :: "ProxyServer \<Rightarrow> string \<Rightarrow> bool" where
  "declares_on_demand s c \<longleftrightarrow>
     list_ex (eligible_tcp c) (srv_targets s) \<or> list_ex (eligible_udp c) (srv_udpTargets s)"

definition all_quiet :: "instant \<Rightarrow> ProxyServer \<Rightarrow> string \<Rightarrow> bool" where
  "all_quiet now s c \<longleftrightarrow>
     list_all (\<lambda>x. quiet_tcp now s (snd x)) (filter (eligible_tcp c) (srv_targets s))
     \<and> list_all (\<lambda>x. quiet_udp now s (snd x)) (filter (eligible_udp c) (srv_udpTargets s))"

lemma not_busy:
  "\<not> tcp_busy now s ts \<longleftrightarrow> quiet_tcp now s ts"
  "\<not> udp_busy now s uls \<longleftrightarrow> quiet_udp now s uls"
  by (auto simp: tcp_busy_def udp_busy_def quiet_tcp_def quiet_udp_def)

lemma container_idle_iff:
  "container_idle now s c \<longleftrightarrow> declares_on_demand s c \<and> all_quiet now s c"
  by (simp add: managed_over_def declares_on_demand_def idle_over_def all_quiet_def list_ex_iff
      list.pred_set not_busy imp_conjL Ball_def)

text \<open>
  C3: the inactivity check asks the backend to stop exactly the idle containers: those with at
  least one on-demand mapping all of whose on-demand mappings, TCP and UDP, are marked running,
  have no open connection, flow or pending flow, and were last active at least their idle
  timeout ago.
\<close>

theorem idle_check_stops_exactly_idle:
  "(\<exists>n. CallStop c n \<in> set (snd (checkInactivity stop now (b, s))))
    \<longleftrightarrow> declares_on_demand s c \<and> all_quiet now s c"
  using stopped_iff_idle [of c stop now "(b, s)"] container_idle_iff by simp

lemma ContainerStarted_state:
  "flags (fst (ContainerStarted now s c)) c True"
  "d \<noteq> c \<Longrightarrow> flags (fst (ContainerStarted now s c)) d v = flags s d v"
  by (auto simp: ContainerStarted_def Let_def flags_def frame)

lemma ContainerStopped_state:
  "flags (fst (ContainerStopped s c)) c False"
  "d \<noteq> c \<Longrightarrow> flags (fst (ContainerStopped s c)) d v = flags s d v"
  by (auto simp: ContainerStopped_def Let_def flags_def set_running_def reset_upstream_def frame)

lemma ContainerRemoved_state:
  "d \<noteq> c \<Longrightarrow> flags (ContainerRemoved s c) d v = flags s d v"
  "\<forall>ts \<in> set (tcp_of (ContainerRemoved s c) c). \<not> ts_running ts \<and> ts_missing ts"
  "\<forall>u \<in> set (udp_of (ContainerRemoved s c) c). \<not> uls_running u \<and> uls_missing u \<and> \<not> uls_upstreamReady u"
  by (auto simp: ContainerRemoved_def flags_def reset_upstream_def frame)

text \<open>
  A start event marks every TCP, UDP and port-less entry of the container as running and a
  stop event as not running; a stop or removal also forgets that the UDP upstream had answered,
  and none of the three touches the flags of another container.
\<close>

theorem container_events_set_flags:
  "flags (fst (ContainerStarted now s c)) c True \<and> flags (fst (ContainerStopped s c)) c False
   \<and> list_all (\<lambda>u. \<not> uls_upstreamReady u \<and> \<not> uls_upstreamStarting u) (udp_of (fst (ContainerStopped s c)) c)
   \<and> list_all (\<lambda>u. \<not> uls_upstreamReady u \<and> \<not> uls_upstreamStarting u) (udp_of (ContainerRemoved s c) c)
   \<and> list_all (\<lambda>ts. \<not> ts_running ts \<and> ts_missing ts) (tcp_of (ContainerRemoved s c) c)
   \<and> (d = c \<or> flags (fst (ContainerStarted now s c)) d v = flags s d v
          \<and> flags (fst (ContainerStopped s c)) d v = flags s d v \<and> flags (ContainerRemoved s c) d v = flags s d v)"
proof -
  have "list_all (\<lambda>u. \<not> uls_upstreamReady u \<and> \<not> uls_upstreamStarting u) (udp_of (fst (ContainerStopped s c)) c)"
    by (simp add: ContainerStopped_def Let_def set_running_def reset_upstream_def list.pred_map list.pred_True comp_def)
  moreover have "list_all (\<lambda>u. \<not> uls_upstreamReady u \<and> \<not> uls_upstreamStarting u) (udp_of (ContainerRemoved s c) c)"
    by (simp add: ContainerRemoved_def reset_upstream_def list.pred_map list.pred_True comp_def)
  moreover have "list_all (\<lambda>ts. \<not> ts_running ts \<and> ts_missing ts) (tcp_of (ContainerRemoved s c) c)"
    using ContainerRemoved_state(2) by (simp add: list_all_iff)
  ultimately show ?thesis
    using ContainerStarted_state ContainerStopped_state ContainerRemoved_state(1) by blast
qed

text \<open>
  A start cascade asks the backend to start every registered dependant once per mention, in
  the declared order, whatever the outcome of the earlier ones; unregistered names are skipped.
\<close>

theorem cascade_starts_registered_dependants:
  "snd (cascadeStart ensure (b, s) info)
    = map CallEnsure (List.map_filter (srv_nameToID s) (elems (Dependants info)))"
proof -
  have "snd (run_each (cascade_start_one ensure) (b, s) ds) = map CallEnsure (List.map_filter (srv_nameToID s) ds)" for ds
  proof (induction ds arbitrary: b s)
    case (Cons d ds)
    let ?r = "fst (cascade_start_one ensure (b, s) d)"
    have "srv_nameToID (snd ?r) = srv_nameToID s"
      by (auto simp: cascade_start_one_def case_prod_unfold frame split: option.splits bool.splits)
    with Cons.IH [of "fst ?r" "snd ?r"] show ?case
      by (auto simp: case_prod_unfold List.map_filter_def cascade_start_one_def split: option.splits bool.splits)
  qed (simp add: List.map_filter_def)
  then show ?thesis by (simp add: cascadeStart_def)
qed

text \<open>Whether some mapping of a container is marked running, which a stop cascade looks at.\<close>

definition port_running :: "ProxyServer \<Rightarrow> string \<Rightarrow> bool" where
  "port_running s c \<longleftrightarrow> list_ex ts_running (tcp_of s c) \<or> list_ex uls_running (udp_of s c)"

definition running_dependant :: "ProxyServer \<Rightarrow> string \<Rightarrow> server_effect option" where
  "running_dependant s dep =
     (case srv_nameToID s dep of Some c \<Rightarrow> if port_running s c then Some (CallStop c dep) else None | None \<Rightarrow> None)"

lemma cascade_stop_one_effect:
  "snd (cascade_stop_one stop (b, s) dep) = (case running_dependant s dep of None \<Rightarrow> [] | Some e \<Rightarrow> [e])"
  by (auto simp: cascade_stop_one_def running_dependant_def port_running_def case_prod_unfold
      split: option.splits bool.splits)

lemma cascade_stop_one_other:
  assumes "srv_nameToID s dep \<noteq> Some c"
  shows "port_running (snd (fst (cascade_stop_one stop (b, s) dep))) c = port_running s c"
    and "srv_nameToID (snd (fst (cascade_stop_one stop (b, s) dep))) = srv_nameToID s"
  using assms by (auto simp: cascade_stop_one_def port_running_def case_prod_unfold frame split: option.splits bool.splits)

text \<open>
  A stop cascade asks the backend to stop exactly the registered dependants that have a
  mapping marked running, in the declared order, when the dependants are distinct containers.
\<close>

theorem cascade_stops_running_dependants:
  assumes "distinct (List.map_filter (srv_nameToID s) (elems (Dependants info)))"
  shows "snd (cascadeStop stop (b, s) info) = List.map_filter (running_dependant s) (elems (Dependants info))"
proof -
  have "snd (run_each (cascade_stop_one stop) (b, s) ds) = List.map_filter (running_dependant s') ds"
    if "distinct (List.map_filter (srv_nameToID s') ds)" "srv_nameToID s = srv_nameToID s'"
      "\<forall>c \<in> set (List.map_filter (srv_nameToID s') ds). port_running s c = port_running s' c" for ds b s s'
    using that
  proof (induction ds arbitrary: b s)
    case (Cons d ds)
    let ?r = "fst (cascade_stop_one stop (b, s) d)"
    have rd: "running_dependant s d = running_dependant s' d"
      using Cons.prems(2,3) by (auto simp: running_dependant_def List.map_filter_def split: option.splits)
    have names: "srv_nameToID (snd ?r) = srv_nameToID s'"
      using Cons.prems(2) by (auto simp: cascade_stop_one_def case_prod_unfold frame split: option.splits bool.splits)
    have "port_running (snd ?r) c = port_running s' c" if "c \<in> set (List.map_filter (srv_nameToID s') ds)" for c
    proof -
      have "srv_nameToID s d \<noteq> Some c"
      proof
        assume "srv_nameToID s d = Some c"
        then have "distinct (c # List.map_filter (srv_nameToID s') ds)"
          using Cons.prems(1,2) by (simp add: List.map_filter_def)
        with that show False by simp
      qed
      moreover have "port_running s c = port_running s' c"
      proof -
        have "c \<in> set (List.map_filter (srv_nameToID s') (d # ds))"
          using that by (cases "srv_nameToID s' d") (simp_all add: List.map_filter_def)
        with Cons.prems(3) show ?thesis by blast
      qed
      ultimately show ?thesis by (simp add: cascade_stop_one_other)
    qed
    moreover have "distinct (List.map_filter (srv_nameToID s') ds)"
      using Cons.prems(1) by (auto simp: List.map_filter_def split: option.splits if_splits)
    ultimately have "snd (run_each (cascade_stop_one stop) ?r ds) = List.map_filter (running_dependant s') ds"
      using Cons.IH [of "snd ?r" "fst ?r"] names by simp
    with rd show ?case
      by (simp add: case_prod_unfold cascade_stop_one_effect List.map_filter_def split: option.splits)
  qed (simp add: List.map_filter_def)
  with assms show ?thesis unfolding cascadeStop_def by blast
qed

theorem cascade_stops_running_dependants_witness:
  "snd (cascadeStop (\<lambda>b _ _. (b, True)) ((), fst (ContainerStarted 0 demo_server ''c1''))
     (zero_info\<lparr>Dependants := Some [''web'', ''db'']\<rparr>)) = [CallStop ''c1'' ''web'']"
proof -
  let ?s = "fst (ContainerStarted 0 demo_server ''c1'')"
  have n: "srv_nameToID ?s ''web'' = Some ''c1''" "srv_nameToID ?s ''db'' = None"
    by (simp_all add: ContainerStarted_def Let_def frame demo_server_def RegisterTarget_def NewServer_def
        demo_web_def zero_info_def register_tcp_def tcp_conflict_def)
  have "bound demo_server (False, 80) = Some demo_web" using servesD(3) [OF demo_serves] by simp
  then obtain ts where "map_of (srv_targets demo_server) 80 = Some ts" "ts_info ts = demo_web"
    by (auto simp: bound_def)
  then have "ts \<in> set (tcp_of demo_server ''c1'')"
    by (auto simp: tcp_of_def intro!: image_eqI [of _ snd "(80, ts)"] dest: map_of_SomeD)
  then have "tcp_of ?s ''c1'' \<noteq> []" by (auto simp: ContainerStarted_def Let_def)
  moreover have "\<forall>ts \<in> set (tcp_of ?s ''c1''). ts_running ts"
    using ContainerStarted_state(1) [of 0 demo_server "''c1''"] by (simp add: flags_def)
  ultimately have "port_running ?s ''c1''" by (cases "tcp_of ?s ''c1''") (auto simp: port_running_def)
  with n show ?thesis
    using cascade_stops_running_dependants [of ?s "zero_info\<lparr>Dependants := Some [''web'', ''db'']\<rparr>" "\<lambda>b _ _. (b, True)" "()"]
    by (simp add: List.map_filter_def running_dependant_def)
qed

text \<open>
  A target with UDP ports only cascades its stop but never its start: \<open>ContainerStarted\<close>
  launches no start cascade for it, although \<open>ContainerStopped\<close> launches the stop cascade of the
  same declared dependants.
\<close>

theorem udp_only_target_never_cascades_start:
  assumes "tcp_of s c = []" and "map_of (srv_cronOnlyTargets s) c = None"
    and "udp_of s c = [u]" and "elems (Dependants (uls_info u)) \<noteq> []"
  shows "StartCascade i \<notin> set (snd (ContainerStarted now s c))
    \<and> StopCascade (uls_info u) \<in> set (snd (ContainerStopped s c))"
  using assms
  by (auto simp: ContainerStarted_def ContainerStopped_def Let_def last_tcp_info_def last_udp_info_def
      or_cron_info_def start_cascade_of_def stop_cascade_of_def collect_def zero_info_def frame split: if_splits)

theorem udp_only_target_never_cascades_start_witness:
  "let i = zero_info\<lparr>ContainerID := ''d'', ContainerName := ''dns'', Dependants := Some [''web''],
             UDPPorts := Some [\<lparr>ListenPort = 53, TargetPort = 53\<rparr>]\<rparr>;
       s = fst (RegisterTarget (\<lambda>_ _. True) (NewServer 0 0 0 0 False) i)
   in StartCascade i \<notin> set (snd (ContainerStarted 0 s ''d'')) \<and> StopCascade i \<in> set (snd (ContainerStopped s ''d''))"
proof -
  let ?i = "zero_info\<lparr>ContainerID := ''d'', ContainerName := ''dns'', Dependants := Some [''web''],
             UDPPorts := Some [\<lparr>ListenPort = 53, TargetPort = 53\<rparr>]\<rparr>"
  let ?n = "NewServer 0 0 0 0 False"
  let ?s = "fst (RegisterTarget (\<lambda>_ _. True) ?n ?i)"
  let ?u = "new_udp ?n ?i \<lparr>ListenPort = 53, TargetPort = 53\<rparr>"
  have st: "srv_targets ?s = []" "srv_cronOnlyTargets ?s = []" "srv_udpTargets ?s = [(53, ?u)]"
    by (simp_all add: RegisterTarget_def NewServer_def zero_info_def register_udp_def udp_conflict_def Let_def)
  have "uls_info ?u = ?i" by (simp add: new_udp_def)
  moreover from this have "udp_of ?s ''d'' = [?u]" by (simp add: udp_of_def st(3))
  ultimately show ?thesis
    using udp_only_target_never_cascades_start [of ?s "''d''" ?u ?i 0] st by (simp add: tcp_of_def Let_def)
qed

text \<open>
  The status list has exactly one entry per registered TCP port, UDP port and port-less
  target, ordered by container name, TCP before UDP, then listen port.
\<close>

theorem snapshot_sorted_and_complete:
  "sorted (map snapshot_key (Snapshot_of_targets stat now s))
   \<and> mset (Snapshot_of_targets stat now s)
     = image_mset (tcp_snapshot stat now s) (mset (srv_targets s))
       + image_mset (udp_snapshot stat now s) (mset (srv_udpTargets s))
       + image_mset (cron_snapshot stat now s) (mset (srv_cronOnlyTargets s))"
  by (simp add: Snapshot_of_targets_def)


end
