(* ===== verification/Proxy_Conn.thy ===== *)
theory Proxy_Conn
  imports Server_Lifecycle Access_List
begin

text \<open>
  The TCP connection path of \<open>internal/proxy/server.go\<close>: \<open>handleConn\<close> from the access check to
  the copied bytes, the readiness polls and dial retries, and the HTTP mode with API keys and
  basic authentication. What the network, the upstream and the clock answer is a record of the
  connection's environment; \<open>EnsureRunning\<close> is the backend argument of the server model;
  \<open>bcrypt\<close> (golang.org/x/crypto) is an argument of the authentication.
\<close>

unbundle bit_operations_syntax

subsection \<open>Connection IDs\<close>

definition hex_digit :: "nat \<Rightarrow> char" where
  "hex_digit n = ''0123456789abcdef'' ! n"

definition hex_encode :: "byte list \<Rightarrow> string" where
  "hex_encode bs = concat (map (\<lambda>b. [hex_digit (unat b div 16), hex_digit (unat b mod 16)]) bs)"

text \<open>\<open>random\<close> is the outcome of reading 16 random bytes, \<open>None\<close> on an error.\<close>

definition newConnectionID :: "byte list option \<Rightarrow> string" where
  "newConnectionID random =
     (case random of
        None \<Rightarrow> ''00000000-0000-0000-0000-000000000000''
      | Some b0 \<Rightarrow>
          let b1 = b0[6 := (b0 ! 6 AND 0x0f) OR 0x40];
              b = b1[8 := (b1 ! 8 AND 0x3f) OR 0x80]
          in hex_encode (take 4 b) @ ''-'' @ hex_encode (take 2 (drop 4 b)) @ ''-''
             @ hex_encode (take 2 (drop 6 b)) @ ''-'' @ hex_encode (take 2 (drop 8 b)) @ ''-''
             @ hex_encode (drop 10 b))"

subsection \<open>Readiness and dialling\<close>

definition dialInterval :: duration where "dialInterval = second"

datatype health_url = HealthURL string | NoAddress

text \<open>\<open>upstream\<close> is the result of \<open>GetUpstreamHost\<close>, \<open>None\<close> on an error.\<close>

definition resolveHealthURL :: "string option \<Rightarrow> string \<Rightarrow> health_url" where
  "resolveHealthURL upstream rawURL =
     (if \<not> contains rawURL container_placeholder then HealthURL rawURL
      else case upstream of
             None \<Rightarrow> NoAddress
           | Some host \<Rightarrow> if host = '''' then NoAddress
                          else HealthURL (replace_all rawURL container_placeholder host))"

text \<open>
  The polling loop: \<open>probe n\<close> is the status of the \<open>n\<close>-th request, \<open>None\<close> on an error. The result
  is the number of requests made and whether one was answered with a 2xx status.
\<close>

fun poll_ready :: "(nat \<Rightarrow> int option) \<Rightarrow> nat \<Rightarrow> nat \<Rightarrow> nat \<times> bool" where
  "poll_ready probe attempt 0 = (attempt - 1, False)"
| "poll_ready probe attempt (Suc left) =
     (case probe attempt of
        Some status \<Rightarrow> if status \<ge> 200 \<and> status < 300 then (attempt, True) else poll_ready probe (Suc attempt) left
      | None \<Rightarrow> poll_ready probe (Suc attempt) left)"

definition waitForHTTPReady :: "(string \<Rightarrow> bool) \<Rightarrow> (nat \<Rightarrow> int option) \<Rightarrow> string \<Rightarrow> duration \<Rightarrow> nat \<times> bool" where
  "waitForHTTPReady request_ok probe url timeout =
     (if \<not> request_ok url then (0, False)
      else poll_ready probe 1 (nat (retry_budget timeout dialInterval)))"

text \<open>
  The dial loop: \<open>host n\<close> is the upstream host found on the \<open>n\<close>-th attempt, \<open>dial n host port\<close>
  whether dialling it succeeds. The result is the successful attempt.
\<close>

fun dial_retry :: "(nat \<Rightarrow> string option) \<Rightarrow> (nat \<Rightarrow> string \<Rightarrow> int \<Rightarrow> bool) \<Rightarrow> int \<Rightarrow> nat \<Rightarrow> nat \<Rightarrow> nat option" where
  "dial_retry host dial port attempt 0 = None"
| "dial_retry host dial port attempt (Suc left) =
     (case host attempt of
        None \<Rightarrow> dial_retry host dial port (Suc attempt) left
      | Some h \<Rightarrow> if dial attempt h port then Some attempt else dial_retry host dial port (Suc attempt) left)"

subsection \<open>HTTP mode\<close>

definition base64_val :: "char \<Rightarrow> nat option" where
  "base64_val c =
     (let n = of_char c :: nat in
      if 65 \<le> n \<and> n \<le> 90 then Some (n - 65)
      else if 97 \<le> n \<and> n \<le> 122 then Some (n - 71)
      else if 48 \<le> n \<and> n \<le> 57 then Some (n + 4)
      else if n = 43 then Some 62 else if n = 47 then Some 63 else None)"

text \<open>
  \<open>base64.StdEncoding.DecodeString\<close>: line breaks are skipped, the input comes in groups of
  four, and only the last group may be padded.
\<close>

fun base64_groups :: "string \<Rightarrow> string option" where
  "base64_groups [] = Some []"
| "base64_groups (a # b # c # d # rest) =
     (case (base64_val a, base64_val b) of
        (Some x, Some y) \<Rightarrow>
          if c = CHR ''='' then
            (if d = CHR ''='' \<and> rest = [] then Some [char_of (4 * x + y div 16)] else None)
          else (case base64_val c of None \<Rightarrow> None
            | Some z \<Rightarrow>
              if d = CHR ''='' then
                (if rest = [] then Some [char_of (4 * x + y div 16), char_of (16 * (y mod 16) + z div 4)] else None)
              else (case base64_val d of None \<Rightarrow> None
                | Some w \<Rightarrow> map_option (\<lambda>r. char_of (4 * x + y div 16) # char_of (16 * (y mod 16) + z div 4)
                                              # char_of (64 * (z mod 4) + w) # r) (base64_groups rest)))
      | _ \<Rightarrow> None)"
| "base64_groups _ = None"

definition base64_decode :: "string \<Rightarrow> string option" where
  "base64_decode s = base64_groups (filter (\<lambda>c. c \<noteq> CHR 0x0A \<and> c \<noteq> CHR 0x0D) s)"

definition cred_matches :: "(string \<Rightarrow> string \<Rightarrow> bool) \<Rightarrow> string \<Rightarrow> string \<Rightarrow> string \<Rightarrow> bool" where
  "cred_matches bcrypt inUser inPass cred =
     (let sep = index_byte cred (CHR '':'') in
      sep \<ge> 0 \<and> inUser = slice_to cred sep \<and> bcrypt (slice_from cred (sep + 1)) inPass)"

definition basic_auth_ok :: "(string \<Rightarrow> string \<Rightarrow> bool) \<Rightarrow> string list \<Rightarrow> string \<Rightarrow> bool" where
  "basic_auth_ok bcrypt creds authHeader =
     (if prefix ''Basic '' authHeader
      then case base64_decode (drop 6 authHeader) of
             None \<Rightarrow> False
           | Some decoded \<Rightarrow>
               let colonIdx = index_byte decoded (CHR '':'') in
               colonIdx \<ge> 0
               \<and> list_ex (cred_matches bcrypt (slice_to decoded colonIdx) (slice_from decoded (colonIdx + 1))) creds
      else False)"

text \<open>One request as read from the client, and how the upstream answers it.\<close>

record http_exchange =
  rq_Authorization :: string
  rq_APIKey :: string
  rq_http11 :: bool
  rq_bytes :: int
  rq_written :: bool
  rs_read :: bool
  rs_close :: bool
  rs_bytes :: int
  rs_written :: bool

datatype http_event = Forwarded http_exchange | Unauthorized

text \<open>
  The request loop. The list holds the requests the client sends before the connection ends or
  sends something malformed; \<open>sent\<close> and \<open>recv\<close> are the counting writers.
\<close>

fun http_loop ::
  "(string \<Rightarrow> string \<Rightarrow> bool) \<Rightarrow> string list \<Rightarrow> string list \<Rightarrow> int \<Rightarrow> int \<Rightarrow> http_exchange list
     \<Rightarrow> http_event list \<times> int \<times> int" where
  "http_loop bcrypt creds keys sent recv [] = ([], 0, 0)"
| "http_loop bcrypt creds keys sent recv (rq # rest) =
     (if creds \<noteq> [] \<and> \<not> basic_auth_ok bcrypt creds (rq_Authorization rq) then ([Unauthorized], 0, 0)
      else
        let rq1 = (if creds \<noteq> [] then rq\<lparr>rq_Authorization := ''''\<rparr> else rq) in
        if keys \<noteq> [] \<and> rq_APIKey rq1 \<notin> set keys then ([Unauthorized], 0, 0)
        else
          let rq2 = (if keys \<noteq> [] then rq1\<lparr>rq_APIKey := ''''\<rparr> else rq1);
              sent1 = wrap64 (sent + rq_bytes rq2) in
          if \<not> rq_written rq2 then ([Forwarded rq2], sent1, recv)
          else if \<not> rs_read rq2 then ([Forwarded rq2], sent1, recv)
          else
            let recv1 = wrap64 (recv + rs_bytes rq2) in
            if \<not> rs_written rq2 then ([Forwarded rq2], sent1, recv1)
            else if \<not> (rq_http11 rq2 \<and> \<not> rs_close rq2) then ([Forwarded rq2], sent1, recv1)
            else (case http_loop bcrypt creds keys sent1 recv1 rest of
                    (es, s, r) \<Rightarrow> (Forwarded rq2 # es, s, r)))"

definition handleHTTPProxy ::
  "(string \<Rightarrow> string \<Rightarrow> bool) \<Rightarrow> targetState \<Rightarrow> http_exchange list \<Rightarrow> http_event list \<times> int \<times> int" where
  "handleHTTPProxy bcrypt ts rqs = http_loop bcrypt (elems (ts_basicAuth ts)) (elems (ts_apiKey ts)) 0 0 rqs"

subsection \<open>One connection\<close>

record conn_env =
  env_remote :: string
  env_connID :: string
  env_shared :: bool
  env_coldStartMs :: int
  env_startedAt :: instant
  env_host :: "string \<Rightarrow> string \<Rightarrow> nat \<Rightarrow> string option"
  env_request_ok :: "string \<Rightarrow> bool"
  env_probe :: "nat \<Rightarrow> int option"
  env_healthy :: "string \<Rightarrow> duration \<Rightarrow> bool"
  env_dial :: "nat \<Rightarrow> string \<Rightarrow> int \<Rightarrow> bool"
  env_exchanges :: "http_exchange list"
  env_sent :: int
  env_recv :: int
  env_endedAt :: instant
  env_durationMs :: int

datatype conn_outcome = NoTarget | AccessBlocked | StartFailed | NotReady | DialFailed | Proxied "http_event list"

definition update_tcp :: "int \<Rightarrow> (targetState \<Rightarrow> targetState) \<Rightarrow> ProxyServer \<Rightarrow> ProxyServer" where
  "update_tcp p f s = s\<lparr>srv_targets := map_values (\<lambda>q ts. if q = p then f ts else ts) (srv_targets s)\<rparr>"

definition conn_open :: "int \<Rightarrow> ProxyServer \<Rightarrow> ProxyServer" where
  "conn_open p s = update_tcp p (\<lambda>ts. ts\<lparr>ts_activeConns := wrap32 (ts_activeConns ts + 1)\<rparr>) s"

definition conn_close :: "int \<Rightarrow> ProxyServer \<Rightarrow> ProxyServer" where
  "conn_close p s = update_tcp p (\<lambda>ts. ts\<lparr>ts_activeConns := wrap32 (ts_activeConns ts - 1)\<rparr>) s"

definition conn_touch :: "int \<Rightarrow> instant \<Rightarrow> ProxyServer \<Rightarrow> ProxyServer" where
  "conn_touch p t s = update_tcp p (\<lambda>ts. ts\<lparr>ts_lastActive := t\<rparr>) s"

text \<open>After a successful start every mapping of the container is marked running.\<close>

definition conn_started :: "instant \<Rightarrow> string \<Rightarrow> ProxyServer \<Rightarrow> ProxyServer \<times> server_effect list" where
  "conn_started now cid s =
     (each_udp cid (\<lambda>u. u\<lparr>uls_running := True\<rparr>) (each_tcp cid (\<lambda>t. t\<lparr>ts_running := True\<rparr>) s),
      concat (map (\<lambda>t. collect s [MOnContainerRunning (ts_listenPort t) False now]) (tcp_of s cid))
      @ concat (map (\<lambda>u. collect s [MOnContainerRunning (uls_listenPort u) True now]) (udp_of s cid)))"

definition network_hint :: "TargetInfo \<Rightarrow> string" where
  "network_hint info = (case elems (NetworkIDs info) of [] \<Rightarrow> '''' | n # _ \<Rightarrow> n)"

text \<open>The part between the start of the container and the dialled upstream.\<close>

definition conn_ready :: "conn_env \<Rightarrow> targetState \<Rightarrow> bool" where
  "conn_ready env ts =
     (let info = ts_info ts; hint = network_hint info; cid = ContainerID info in
      if ts_httpHealthCheck ts \<noteq> '''' then
        (case resolveHealthURL (env_host env cid hint 0) (ts_httpHealthCheck ts) of
           NoAddress \<Rightarrow> True
         | HealthURL url \<Rightarrow> snd (waitForHTTPReady (env_request_ok env) (env_probe env) url (ts_startTimeout ts)))
      else if ts_hasHealthCheck ts then env_healthy env cid (ts_startTimeout ts)
      else True)"

definition conn_dial :: "conn_env \<Rightarrow> targetState \<Rightarrow> nat option" where
  "conn_dial env ts =
     dial_retry (env_host env (ts_id ts) (network_hint (ts_info ts))) (env_dial env) (ts_targetPort ts) 1
       (nat (retry_budget (ts_startTimeout ts) dialInterval))"

text \<open>Everything after the container is up: readiness, dialling and the transfer.\<close>

definition conn_serve ::
  "(string \<Rightarrow> string \<Rightarrow> bool) \<Rightarrow> conn_env \<Rightarrow> targetState \<Rightarrow> int \<Rightarrow> ProxyServer
     \<Rightarrow> ProxyServer \<times> server_effect list \<times> conn_outcome" where
  "conn_serve bcrypt env ts p s =
     (if \<not> conn_ready env ts then (s, [], NotReady)
      else case conn_dial env ts of
             None \<Rightarrow> (s, collect s [MConnectionFailed (ts_listenPort ts) False], DialFailed)
           | Some _ \<Rightarrow>
               if elems (ts_apiKey ts) \<noteq> [] \<or> elems (ts_basicAuth ts) \<noteq> [] then
                 (case handleHTTPProxy bcrypt ts (env_exchanges env) of
                    (es, sent, recv) \<Rightarrow> (conn_touch p (env_endedAt env) s,
                                        collect s [MAddBytes (ts_listenPort ts) False sent recv], Proxied es))
               else (conn_touch p (env_endedAt env) s,
                     collect s [MAddBytes (ts_listenPort ts) False (env_sent env) (env_recv env)], Proxied []))"

definition starts_on_connection :: "TargetInfo \<Rightarrow> bool" where
  "starts_on_connection info \<longleftrightarrow> Availability info \<noteq> AvailabilityCron \<and> Availability info \<noteq> AvailabilityManual"

definition handleConn ::
  "(string \<Rightarrow> string \<Rightarrow> bool) \<Rightarrow> ('b \<Rightarrow> string \<Rightarrow> 'b \<times> bool) \<Rightarrow> conn_env \<Rightarrow> 'b \<times> ProxyServer \<Rightarrow> int
     \<Rightarrow> ('b \<times> ProxyServer) \<times> server_effect list \<times> conn_outcome" where
  "handleConn bcrypt ensure env bs p =
     (case bs of (b, s0) \<Rightarrow>
      case map_of (srv_targets s0) p of
        None \<Rightarrow> (bs, [], NoTarget)
      | Some ts \<Rightarrow>
        let s = conn_open p s0; info = ts_info ts; cid = ContainerID info; name = ContainerName info in
        if ipBlocked (env_remote env) info then ((b, conn_close p s), [], AccessBlocked)
        else
          let (remoteIP, portStr) = (case split_host_port (env_remote env) of Some hp \<Rightarrow> hp | None \<Rightarrow> ('''', ''''));
              remotePort = (case atoi portStr of Some n \<Rightarrow> n | None \<Rightarrow> 0);
              began = collect s [MConnectionStarted (ts_listenPort ts) False]
                @ (if WebhookURL info \<noteq> '''' then [fireWebhook (WebhookURL info) ''tcp_conn_start'' cid name (env_connID env) remoteIP remotePort] else []);
              ended = (if WebhookURL info \<noteq> '''' then [fireWebhook (WebhookURL info) ''tcp_conn_end'' cid name (env_connID env) remoteIP remotePort] else [])
                @ collect s [MConnectionEnded (ts_listenPort ts) False (env_durationMs env)]
          in if starts_on_connection info then
               (case ensure b cid of
                  (b', False) \<Rightarrow> ((b', conn_close p s),
                     began @ [CallEnsure cid] @ collect s [MConnectionFailed (ts_listenPort ts) False] @ ended, StartFailed)
                | (b', True) \<Rightarrow>
                    let cold = (if env_shared env then [] else collect s [MRecordColdStart (ts_listenPort ts) False (env_coldStartMs env)]);
                        (s1, run) = conn_started (env_startedAt env) cid s;
                        (s2, served, outcome) = conn_serve bcrypt env ts p s1
                    in ((b', conn_close p s2),
                        began @ [CallEnsure cid] @ cold @ run @ lifecycle_webhook info ''container_started'' cid name
                        @ served @ ended, outcome))
             else
               (case conn_serve bcrypt env ts p s of
                  (s2, served, outcome) \<Rightarrow> ((b, conn_close p s2), began @ served @ ended, outcome)))"

subsection \<open>The dial and poll loops\<close>

lemma dial_retry_spec:
  "dial_retry host dial port a left = Some n \<longleftrightarrow>
     a \<le> n \<and> n < a + left \<and> (\<exists>h. host n = Some h \<and> dial n h port)
     \<and> (\<forall>m. a \<le> m \<and> m < n \<longrightarrow> \<not> (\<exists>h. host m = Some h \<and> dial m h port))"
proof (induction left arbitrary: a)
  case (Suc left)
  show ?case
  proof (cases "\<exists>h. host a = Some h \<and> dial a h port")
    case True
    then obtain h where "host a = Some h" "dial a h port" by blast
    then have "dial_retry host dial port a (Suc left) = Some a" by simp
    moreover have "a = n \<longleftrightarrow> a \<le> n \<and> n < a + Suc left \<and> (\<exists>h. host n = Some h \<and> dial n h port)
       \<and> (\<forall>m. a \<le> m \<and> m < n \<longrightarrow> \<not> (\<exists>h. host m = Some h \<and> dial m h port))"
      using True by (metis add_Suc_right le_add1 le_imp_less_Suc le_neq_implies_less order_refl leD)
    ultimately show ?thesis by simp
  next
    case False
    then have step: "dial_retry host dial port a (Suc left) = dial_retry host dial port (Suc a) left"
      by (auto split: option.splits)
    have "Suc a \<le> n \<and> n < Suc a + left \<and> (\<exists>h. host n = Some h \<and> dial n h port)
        \<and> (\<forall>m. Suc a \<le> m \<and> m < n \<longrightarrow> \<not> (\<exists>h. host m = Some h \<and> dial m h port))
      \<longleftrightarrow> a \<le> n \<and> n < a + Suc left \<and> (\<exists>h. host n = Some h \<and> dial n h port)
        \<and> (\<forall>m. a \<le> m \<and> m < n \<longrightarrow> \<not> (\<exists>h. host m = Some h \<and> dial m h port))"
      using False by (metis Suc_leD Suc_leI add_Suc add_Suc_right le_neq_implies_less)
    with step Suc.IH [of "Suc a"] show ?thesis by simp
  qed
qed simp

lemma range_Suc:
  "(\<forall>m. a \<le> m \<and> m < a + Suc left \<longrightarrow> P m) \<longleftrightarrow> P a \<and> (\<forall>m. Suc a \<le> m \<and> m < Suc a + left \<longrightarrow> P m)"
proof -
  have "a \<le> m \<and> m < a + Suc left \<longleftrightarrow> m = a \<or> Suc a \<le> m \<and> m < Suc a + left" for m by auto
  then have "(\<forall>m. a \<le> m \<and> m < a + Suc left \<longrightarrow> P m)
      \<longleftrightarrow> (\<forall>m. m = a \<or> Suc a \<le> m \<and> m < Suc a + left \<longrightarrow> P m)" by (simp only:)
  also have "\<dots> \<longleftrightarrow> P a \<and> (\<forall>m. Suc a \<le> m \<and> m < Suc a + left \<longrightarrow> P m)" by fast
  finally show ?thesis .
qed

lemma dial_retry_None:
  "dial_retry host dial port a left = None \<longleftrightarrow>
     (\<forall>m. a \<le> m \<and> m < a + left \<longrightarrow> \<not> (\<exists>h. host m = Some h \<and> dial m h port))"
proof (induction left arbitrary: a)
  case (Suc left)
  have "dial_retry host dial port a (Suc left) = None \<longleftrightarrow>
      \<not> (\<exists>h. host a = Some h \<and> dial a h port) \<and> dial_retry host dial port (Suc a) left = None"
    by (auto split: option.splits)
  with Suc.IH [of "Suc a"] show ?case by (simp only: range_Suc)
qed auto

lemma poll_ready_spec:
  assumes "poll_ready probe a left = (n, r)" and "0 < a"
  shows "n < a + left \<and> (r \<longrightarrow> a \<le> n \<and> (\<exists>st. probe n = Some st \<and> 200 \<le> st \<and> st < 300))
    \<and> (\<not> r \<longrightarrow> n + 1 = a + left)"
  using assms
proof (induction left arbitrary: a)
  case (Suc left)
  show ?case
  proof (cases "\<exists>st. probe a = Some st \<and> 200 \<le> st \<and> st < 300")
    case True
    then show ?thesis using Suc.prems by auto
  next
    case False
    then have "poll_ready probe (Suc a) left = (n, r)"
      using Suc.prems by (auto split: option.splits if_splits)
    from Suc.IH [OF this] show ?thesis by auto
  qed
qed auto

subsection \<open>The gauge of open connections\<close>

lemma wrap32_idem [simp]: "wrap32 (wrap32 i) = wrap32 i"
  using wrap32_add [of i 0] by simp

definition gauge :: "ProxyServer \<Rightarrow> int \<Rightarrow> int option" where
  "gauge s p = map_option (\<lambda>ts. wrap32 (ts_activeConns ts)) (map_of (srv_targets s) p)"

lemma map_of_update_tcp [simp]:
  "map_of (srv_targets (update_tcp p f s)) q
    = (if q = p then map_option f (map_of (srv_targets s) q) else map_of (srv_targets s) q)"
  by (simp add: update_tcp_def option.map_ident_strong)

lemma gauge_open: "gauge (conn_open p s) q = (if q = p then map_option (\<lambda>n. wrap32 (n + 1)) (gauge s q) else gauge s q)"
  by (simp add: gauge_def conn_open_def option.map_comp comp_def)

lemma gauge_close: "gauge (conn_close p s) q = (if q = p then map_option (\<lambda>n. wrap32 (n - 1)) (gauge s q) else gauge s q)"
  by (simp add: gauge_def conn_close_def option.map_comp comp_def)

lemma gauge_touch: "gauge (conn_touch p t s) q = gauge s q"
  by (simp add: gauge_def conn_touch_def option.map_comp comp_def)

lemma gauge_started: "gauge (fst (conn_started now c s)) q = gauge s q"
  by (cases "map_of (srv_targets s) q") (simp_all add: gauge_def conn_started_def each_tcp_def each_udp_def)

lemma gauge_serve: "gauge (fst (conn_serve bcrypt env ts p s)) q = gauge s q"
  by (auto simp: conn_serve_def gauge_touch case_prod_unfold split: option.splits)

lemma gauge_idem: "map_option wrap32 (gauge s q) = gauge s q"
  by (simp add: gauge_def option.map_comp comp_def)

lemma gauge_open_close:
  "gauge s' q = gauge (conn_open p s) q \<Longrightarrow> gauge (conn_close p s') q = gauge s q"
  using gauge_idem [of s q]
  by (auto simp: gauge_close gauge_open option.map_comp comp_def)

lemma handleConn_gauge:
  "gauge (snd (fst (handleConn bcrypt ensure env bs p))) q = gauge (snd bs) q"
proof (cases "map_of (srv_targets (snd bs)) p")
  case None
  then show ?thesis by (simp add: handleConn_def case_prod_unfold)
next
  case (Some ts)
  let ?s = "conn_open p (snd bs)"
  have 1: "gauge (conn_close p (fst (conn_serve bcrypt env ts p ?s))) q = gauge (snd bs) q"
    by (rule gauge_open_close) (rule gauge_serve)
  have 2: "gauge (conn_close p (fst (conn_serve bcrypt env ts p (fst (conn_started t c ?s))))) q = gauge (snd bs) q" for t c
    by (rule gauge_open_close) (simp add: gauge_serve gauge_started)
  have 3: "gauge (conn_close p ?s) q = gauge (snd bs) q" by (rule gauge_open_close) (rule refl)
  from Some 1 2 3 show ?thesis
    by (auto simp: handleConn_def case_prod_unfold Let_def split: bool.splits)
qed

lemma http_loop_forwarded:
  "Forwarded rq' \<in> set (fst (http_loop bcrypt creds keys sent recv rqs)) \<Longrightarrow>
    \<exists>rq \<in> set rqs. (creds \<noteq> [] \<longrightarrow> basic_auth_ok bcrypt creds (rq_Authorization rq))
      \<and> (keys \<noteq> [] \<longrightarrow> rq_APIKey rq \<in> set keys)
      \<and> rq' = rq\<lparr>rq_Authorization := (if creds \<noteq> [] then '''' else rq_Authorization rq),
                rq_APIKey := (if keys \<noteq> [] then '''' else rq_APIKey rq)\<rparr>"
proof (induction rqs arbitrary: sent recv)
  case (Cons rq rest)
  let ?rq2 = "rq\<lparr>rq_Authorization := (if creds \<noteq> [] then '''' else rq_Authorization rq),
                rq_APIKey := (if keys \<noteq> [] then '''' else rq_APIKey rq)\<rparr>"
  have ok: "(creds \<noteq> [] \<longrightarrow> basic_auth_ok bcrypt creds (rq_Authorization rq)) \<and> (keys \<noteq> [] \<longrightarrow> rq_APIKey rq \<in> set keys)"
    using Cons.prems by (auto simp: Let_def split: if_splits)
  have "rq' = ?rq2 \<or> (\<exists>s r. Forwarded rq' \<in> set (fst (http_loop bcrypt creds keys s r rest)))"
    using Cons.prems ok by (auto simp: Let_def case_prod_unfold split: if_splits)
  with ok Cons.IH show ?case by (metis list.set_intros(1,2))
qed simp

subsection \<open>Basic authentication against the standard header\<close>

definition base64_digit :: "nat \<Rightarrow> char" where
  "base64_digit n = char_of (if n < 26 then n + 65 else if n < 52 then n + 71
     else if n < 62 then n - 4 else if n = 62 then 43 else 47 :: nat)"

text \<open>The encoding a client applies (RFC 4648).\<close>

fun base64_encode :: "string \<Rightarrow> string" where
  "base64_encode [] = []"
| "base64_encode [a] =
     (let x = of_char a :: nat in [base64_digit (x div 4), base64_digit (16 * (x mod 4)), CHR ''='', CHR ''=''])"
| "base64_encode [a, b] =
     (let x = of_char a :: nat; y = of_char b :: nat
      in [base64_digit (x div 4), base64_digit (16 * (x mod 4) + y div 16), base64_digit (4 * (y mod 16)), CHR ''=''])"
| "base64_encode (a # b # c # rest) =
     (let x = of_char a :: nat; y = of_char b :: nat; z = of_char c :: nat
      in base64_digit (x div 4) # base64_digit (16 * (x mod 4) + y div 16) # base64_digit (4 * (y mod 16) + z div 64)
         # base64_digit (z mod 64) # base64_encode rest)"

lemma of_base64_digit:
  "n < 64 \<Longrightarrow> (of_char (base64_digit n) :: nat)
    = (if n < 26 then n + 65 else if n < 52 then n + 71 else if n < 62 then n - 4 else if n = 62 then 43 else 47)"
  unfolding base64_digit_def of_char_of by auto

lemma base64_digit [simp]:
  assumes "n < 64"
  shows "base64_val (base64_digit n) = Some n" "base64_digit n \<noteq> CHR ''=''"
    "base64_digit n \<noteq> CHR 0x0A" "base64_digit n \<noteq> CHR 0x0D"
proof -
  note d = of_base64_digit [OF assms]
  show "base64_val (base64_digit n) = Some n"
    unfolding base64_val_def Let_def d using assms by auto
  have "(of_char (base64_digit n) :: nat) \<noteq> 61 \<and> (of_char (base64_digit n) :: nat) \<noteq> 10
      \<and> (of_char (base64_digit n) :: nat) \<noteq> 13"
    unfolding d using assms by auto
  moreover have "(of_char (CHR ''='') :: nat) = 61" "(of_char (CHR 0x0A) :: nat) = 10" "(of_char (CHR 0x0D) :: nat) = 13"
    by simp_all
  ultimately show "base64_digit n \<noteq> CHR ''=''" "base64_digit n \<noteq> CHR 0x0A" "base64_digit n \<noteq> CHR 0x0D"
    by metis+
qed

lemmas of_char_bound = nat_of_char_less_256

lemma sextet_bounds:
  assumes "x < (256 :: nat)" "y < (256 :: nat)"
  shows "x div 4 < 64" "16 * (x mod 4) < 64" "16 * (x mod 4) + y div 16 < 64"
    "4 * (x mod 16) < 64" "4 * (x mod 16) + y div 64 < 64" "x mod 64 < 64"
proof -
  have "x mod 4 < 4" "x mod 16 < 16" "y div 16 < 16" "y div 64 < 4" using assms by (simp_all add: less_mult_imp_div_less)
  then show "x div 4 < 64" "16 * (x mod 4) < 64" "16 * (x mod 4) + y div 16 < 64"
    "4 * (x mod 16) < 64" "4 * (x mod 16) + y div 64 < 64" "x mod 64 < 64"
    using assms by (simp_all add: less_mult_imp_div_less)
qed

lemma octets:
  "4 * (x div 4) + 16 * (x mod 4) div 16 = (x :: nat)"
  "y < 256 \<Longrightarrow> 4 * (x div 4) + (16 * (x mod 4) + y div 16) div 16 = (x :: nat)"
  "y < 256 \<Longrightarrow> 16 * ((16 * (x mod 4) + y div 16) mod 16) + 4 * (y mod 16) div 4 = (y :: nat)"
  "y < 256 \<Longrightarrow> z < 256 \<Longrightarrow> 16 * ((16 * (x mod 4) + y div 16) mod 16) + (4 * (y mod 16) + z div 64) div 4 = (y :: nat)"
  "z < 256 \<Longrightarrow> 64 * ((4 * (y mod 16) + z div 64) mod 4) + z mod 64 = (z :: nat)"
proof -
  have d: "y div 16 < 16" "z div 64 < 4" if "y < 256" "z < 256" for y z :: nat
    using that by (simp_all add: less_mult_imp_div_less)
  have m: "(16 * a + b) div 16 = a" "(16 * a + b) mod 16 = b" if "b < 16" for a b :: nat using that by simp_all
  have q: "(4 * a + b) div 4 = a" "(4 * a + b) mod 4 = b" if "b < 4" for a b :: nat using that by simp_all
  show "4 * (x div 4) + 16 * (x mod 4) div 16 = (x :: nat)" by simp
  show "y < 256 \<Longrightarrow> 4 * (x div 4) + (16 * (x mod 4) + y div 16) div 16 = (x :: nat)"
    using d(1) [of y 0] by (simp only: m) simp
  show "y < 256 \<Longrightarrow> 16 * ((16 * (x mod 4) + y div 16) mod 16) + 4 * (y mod 16) div 4 = (y :: nat)"
    using d(1) [of y 0] by (simp only: m) simp
  show "y < 256 \<Longrightarrow> z < 256 \<Longrightarrow> 16 * ((16 * (x mod 4) + y div 16) mod 16) + (4 * (y mod 16) + z div 64) div 4 = (y :: nat)"
    using d [of y z] by (simp only: m q) simp
  show "z < 256 \<Longrightarrow> 64 * ((4 * (y mod 16) + z div 64) mod 4) + z mod 64 = (z :: nat)"
    using d(2) [of 0 z] by (simp only: q) simp
qed

lemma base64_groups_encode: "base64_groups (base64_encode s) = Some s"
proof (induction s rule: base64_encode.induct)
  case (2 a)
  show ?case
    using sextet_bounds [OF of_char_bound [of a] of_char_bound [of a]] octets(1) [of "of_char a"]
    by (simp add: Let_def)
next
  case (3 a b)
  show ?case
    using sextet_bounds [OF of_char_bound [of a] of_char_bound [of b]] sextet_bounds(4) [OF of_char_bound [of b] of_char_bound [of b]]
      octets(2,3) [OF of_char_bound [of b], of "of_char a"]
    by (simp add: Let_def)
next
  case (4 a b c rest)
  show ?case
    using sextet_bounds [OF of_char_bound [of a] of_char_bound [of b]] sextet_bounds [OF of_char_bound [of b] of_char_bound [of c]]
      sextet_bounds(6) [OF of_char_bound [of c] of_char_bound [of c]]
      octets(2) [OF of_char_bound [of b], of "of_char a"] octets(4) [OF of_char_bound [of b] of_char_bound [of c], of "of_char a"]
      octets(5) [OF of_char_bound [of c], of "of_char b"] 4
    by (simp add: Let_def)
qed simp

lemma base64_no_break: "list_all (\<lambda>c. c \<noteq> CHR 0x0A \<and> c \<noteq> CHR 0x0D) (base64_encode s)"
proof (induction s rule: base64_encode.induct)
  case (2 a)
  show ?case using sextet_bounds(1,2) [OF of_char_bound [of a] of_char_bound [of a]] by (simp add: Let_def)
next
  case (3 a b)
  show ?case
    using sextet_bounds(1,3) [OF of_char_bound [of a] of_char_bound [of b]] sextet_bounds(4) [OF of_char_bound [of b] of_char_bound [of b]]
    by (simp add: Let_def)
next
  case (4 a b c rest)
  show ?case
    using sextet_bounds(1,3) [OF of_char_bound [of a] of_char_bound [of b]] sextet_bounds(5) [OF of_char_bound [of b] of_char_bound [of c]]
      sextet_bounds(6) [OF of_char_bound [of c] of_char_bound [of c]] 4
    by (simp add: Let_def)
qed simp

lemma base64_decode_encode [simp]: "base64_decode (base64_encode s) = Some s"
proof -
  have "filter (\<lambda>c. c \<noteq> CHR 0x0A \<and> c \<noteq> CHR 0x0D) (base64_encode s) = base64_encode s"
    using base64_no_break by (simp add: filter_id_conv list_all_iff)
  then show ?thesis by (simp add: base64_decode_def base64_groups_encode)
qed

lemma index_byte_append: "c \<notin> set a \<Longrightarrow> index_byte (a @ c # b) c = int (length a)"
proof -
  assume "c \<notin> set a"
  then have "takeWhile (\<lambda>x. x \<noteq> c) (a @ c # b) = a" by (induction a) auto
  then show ?thesis by (simp add: index_byte_def)
qed

lemma index_byte_split:
  assumes "index_byte s c \<ge> 0"
  shows "s = slice_to s (index_byte s c) @ c # slice_from s (index_byte s c + 1)" "c \<notin> set (slice_to s (index_byte s c))"
proof -
  have "c \<in> set s" using assms by (auto simp: index_byte_def split: if_splits)
  then obtain a b where "s = a @ c # b" "c \<notin> set a" by (meson split_list_first)
  then show "s = slice_to s (index_byte s c) @ c # slice_from s (index_byte s c + 1)"
    "c \<notin> set (slice_to s (index_byte s c))"
    by (simp_all add: index_byte_append nat_add_distrib)
qed

lemma cred_matches_iff:
  assumes "CHR '':'' \<notin> set user"
  shows "cred_matches bcrypt user pw cred \<longleftrightarrow> (\<exists>hash. cred = user @ CHR '':'' # hash \<and> bcrypt hash pw)"
proof
  assume "cred_matches bcrypt user pw cred"
  then show "\<exists>hash. cred = user @ CHR '':'' # hash \<and> bcrypt hash pw"
    using index_byte_split(1) [of cred "CHR '':''"] by (auto simp: cred_matches_def Let_def)
next
  assume "\<exists>hash. cred = user @ CHR '':'' # hash \<and> bcrypt hash pw"
  then show "cred_matches bcrypt user pw cred"
    using index_byte_append [OF assms] by (auto simp: cred_matches_def Let_def nat_add_distrib)
qed

subsection \<open>Metrics balance\<close>

definition metric_count :: "(collector_call \<Rightarrow> bool) \<Rightarrow> server_effect list \<Rightarrow> nat" where
  "metric_count P es = length (filter (\<lambda>e. case e of Collect c \<Rightarrow> P c | _ \<Rightarrow> False) es)"

lemma metric_count_simps [simp]:
  "metric_count P [] = 0"
  "metric_count P (xs @ ys) = metric_count P xs + metric_count P ys"
  "metric_count P (Collect c # es) = (if P c then 1 else 0) + metric_count P es"
  "metric_count P (CallEnsure x # es) = metric_count P es"
  "metric_count P (fireWebhook u v w n a r rp # es) = metric_count P es"
  by (simp_all add: metric_count_def fireWebhook_def)

lemma metric_count_zero: "(\<And>c. Collect c \<in> set es \<Longrightarrow> \<not> P c) \<Longrightarrow> metric_count P es = 0"
  by (auto simp: metric_count_def filter_empty_conv split: server_effect.splits)

definition is_started :: "int \<Rightarrow> collector_call \<Rightarrow> bool" where "is_started p c \<longleftrightarrow> c = MConnectionStarted p False"
definition is_ended :: "int \<Rightarrow> collector_call \<Rightarrow> bool" where "is_ended p c \<longleftrightarrow> (\<exists>d. c = MConnectionEnded p False d)"

lemma middle_counts:
  "metric_count (is_started q) (snd (conn_started t c s)) = 0" "metric_count (is_ended q) (snd (conn_started t c s)) = 0"
  "metric_count (is_started q) (fst (snd (conn_serve bcrypt env ts p s))) = 0"
  "metric_count (is_ended q) (fst (snd (conn_serve bcrypt env ts p s))) = 0"
  "metric_count (is_started q) (lifecycle_webhook i ev c n) = 0" "metric_count (is_ended q) (lifecycle_webhook i ev c n) = 0"
  by (auto intro!: metric_count_zero simp: conn_started_def conn_serve_def collect_def is_started_def is_ended_def
      lifecycle_webhook_def fireWebhook_def case_prod_unfold split: option.splits if_splits)

lemma handleConn_balance:
  "metric_count (is_started q) (fst (snd (handleConn bcrypt ensure env bs p)))
    = metric_count (is_ended q) (fst (snd (handleConn bcrypt ensure env bs p)))"
proof (cases "map_of (srv_targets (snd bs)) p")
  case None
  then show ?thesis by (simp add: handleConn_def case_prod_unfold)
next
  case (Some ts)
  have c: "metric_count (is_started q) (collect s [MConnectionStarted r False])
      = metric_count (is_ended q) (collect s [MConnectionEnded r False d])"
    "metric_count (is_started q) (collect s [MConnectionEnded r False d]) = 0"
    "metric_count (is_ended q) (collect s [MConnectionStarted r False]) = 0"
    "metric_count (is_started q) (collect s [MConnectionFailed r False]) = 0"
    "metric_count (is_ended q) (collect s [MConnectionFailed r False]) = 0"
    "metric_count (is_started q) (collect s [MRecordColdStart r False d]) = 0"
    "metric_count (is_ended q) (collect s [MRecordColdStart r False d]) = 0" for s r d
    by (simp_all add: collect_def is_started_def is_ended_def)
  show ?thesis
    using Some
    by (simp add: handleConn_def Let_def case_prod_unfold middle_counts c split: bool.split)
qed


subsection \<open>Properties\<close>


definition demo_request :: http_exchange where
  "demo_request = \<lparr>rq_Authorization = '''', rq_APIKey = ''k'', rq_http11 = True, rq_bytes = 100, rq_written = True,
     rs_read = True, rs_close = False, rs_bytes = 200, rs_written = True\<rparr>"

definition demo_ts :: targetState where
  "demo_ts = (new_tcp (NewServer 0 0 0 0 False) demo_web \<lparr>ListenPort = 80, TargetPort = 8080\<rparr>)\<lparr>ts_apiKey := Some [''k'']\<rparr>"

lemma demo_ts_auth [simp]: "ts_apiKey demo_ts = Some [''k'']" "ts_basicAuth demo_ts = None"
  by (simp_all add: demo_ts_def new_tcp_def demo_web_def zero_info_def)

lemma demo_http:
  "handleHTTPProxy bcrypt demo_ts [demo_request] = ([Forwarded (demo_request\<lparr>rq_APIKey := ''''\<rparr>)], 0, 0)"
  by (simp add: handleHTTPProxy_def demo_request_def Let_def)


text \<open>
  Basic authentication accepts exactly the declared users. For a user name without a colon,
  the standard header of that user and a password is accepted if and only if one of the
  target's credentials is that user with a hash the password matches.
\<close>

theorem basic_auth_accepts_standard_header:
  assumes "CHR '':'' \<notin> set user"
  shows "basic_auth_ok bcrypt creds (''Basic '' @ base64_encode (user @ '':'' @ pw))
    \<longleftrightarrow> (\<exists>hash. user @ '':'' @ hash \<in> set creds \<and> bcrypt hash pw)"
  using assms
  by (auto simp: basic_auth_ok_def Let_def index_byte_append nat_add_distrib list_ex_iff cred_matches_iff)

theorem basic_auth_accepts_standard_header_witness:
  "basic_auth_ok (\<lambda>h p. h = p) [''bob:secret''] (''Basic '' @ base64_encode (''bob'' @ '':'' @ ''secret''))"
  using basic_auth_accepts_standard_header [of "''bob''" "\<lambda>h p. h = p" "[''bob:secret'']" "''secret''"] by simp

text \<open>
  C17: a connection whose peer the target's lists exclude has no effect at all: the container is
  not started, no webhook or metric is sent, and the gauges of open connections are unchanged.
\<close>

theorem blocked_connection_has_no_effect:
  assumes "map_of (srv_targets s) p = Some ts" and "ipBlocked (env_remote env) (ts_info ts)"
  shows "fst (fst (handleConn bcrypt ensure env (b, s) p)) = b
    \<and> snd (handleConn bcrypt ensure env (b, s) p) = ([], AccessBlocked)
    \<and> (\<forall>q. gauge (snd (fst (handleConn bcrypt ensure env (b, s) p))) q = gauge s q)"
  using assms handleConn_gauge [of bcrypt ensure env "(b, s)" p] by (simp add: handleConn_def Let_def)

definition demo_env :: conn_env where
  "demo_env = \<lparr>env_remote = ''10.0.0.9:5000'', env_connID = ''id'', env_shared = False, env_coldStartMs = 0,
     env_startedAt = 1, env_host = (\<lambda>_ _ _. Some ''h''), env_request_ok = (\<lambda>_. True), env_probe = (\<lambda>_. None),
     env_healthy = (\<lambda>_ _. True), env_dial = (\<lambda>_ _ _. True), env_exchanges = [], env_sent = 0, env_recv = 0,
     env_endedAt = 2, env_durationMs = 1\<rparr>"

lemma demo_peer_blocked: "ipBlocked (env_remote demo_env) (demo_web\<lparr>BlockList := ParseIPList ''10.0.0.0/8''\<rparr>)"
proof -
  let ?n = "\<lparr>net_ip = [10, 0, 0, 0], net_mask = [255, 0, 0, 0]\<rparr>"
  have "split_host_port ''10.0.0.9:5000'' = Some (''10.0.0.9'', ''5000'')"
    and "parse_ip ''10.0.0.9'' = Some (v4_in_v6_prefix @ [10, 0, 0, 9])"
    and "ParseIPList ''10.0.0.0/8'' = Some [?n]" "ipnet_contains ?n (v4_in_v6_prefix @ [10, 0, 0, 9])"
    by code_simp+
  then show ?thesis by (simp add: ipBlocked_parsed demo_env_def)
qed

theorem blocked_connection_has_no_effect_witness:
  "let i = demo_web\<lparr>BlockList := ParseIPList ''10.0.0.0/8''\<rparr>;
       s = fst (RegisterTarget (\<lambda>_ _. True) (NewServer 0 0 0 0 False) i)
   in snd (handleConn (\<lambda>_ _. False) (\<lambda>b _. (b, True)) demo_env ((), s) 80) = ([], AccessBlocked)"
proof -
  let ?i = "demo_web\<lparr>BlockList := ParseIPList ''10.0.0.0/8''\<rparr>" and ?n = "NewServer 0 0 0 0 False"
  let ?s = "fst (RegisterTarget (\<lambda>_ _. True) ?n ?i)"
  let ?ts = "new_tcp ?n ?i \<lparr>ListenPort = 80, TargetPort = 8080\<rparr>"
  have ts: "map_of (srv_targets ?s) 80 = Some ?ts"
    by (simp add: RegisterTarget_def NewServer_def demo_web_def zero_info_def register_tcp_def tcp_conflict_def Let_def)
  have i: "ts_info ?ts = ?i" by (simp add: new_tcp_def)
  have "ipBlocked (env_remote demo_env) (ts_info ?ts)" unfolding i by (rule demo_peer_blocked)
  from blocked_connection_has_no_effect [OF ts this, THEN conjunct2, THEN conjunct1]
  show ?thesis unfolding Let_def .
qed

text \<open>
  Every connection is accounted for. Whatever happens to it (blocked, failed start, not
  ready, failed dial or proxied), the gauge of open connections of every port is what it was
  before, and it records as many starts as ends of a connection on every port.
\<close>

theorem connections_are_balanced:
  "gauge (snd (fst (handleConn bcrypt ensure env bs p))) q = gauge (snd bs) q
   \<and> metric_count (is_started r) (fst (snd (handleConn bcrypt ensure env bs p)))
     = metric_count (is_ended r) (fst (snd (handleConn bcrypt ensure env bs p)))"
  by (rule conjI [OF handleConn_gauge handleConn_balance])

definition dial_budget :: "targetState \<Rightarrow> nat" where
  "dial_budget ts = nat (retry_budget (ts_startTimeout ts) dialInterval)"

definition attempt_ok :: "conn_env \<Rightarrow> targetState \<Rightarrow> nat \<Rightarrow> bool" where
  "attempt_ok env ts n \<longleftrightarrow> (\<exists>h. env_host env (ts_id ts) (network_hint (ts_info ts)) n = Some h
     \<and> env_dial env n h (ts_targetPort ts))"



text \<open>
  An \<open>http-healthcheck\<close> lets a connection through exactly when one of at most as many polls
  as the start timeout has whole seconds, rounded up, is answered with a 2xx status.
\<close>

theorem health_poll_bounded:
  assumes "waitForHTTPReady request_ok probe url timeout = (n, ready)"
  shows "int n \<le> retry_budget timeout dialInterval
    \<and> (ready \<longrightarrow> request_ok url \<and> (\<exists>st. probe n = Some st \<and> 200 \<le> st \<and> st < 300))
    \<and> (\<not> ready \<and> request_ok url \<longrightarrow> int n = retry_budget timeout dialInterval)"
proof (cases "request_ok url")
  case False
  then show ?thesis using assms retry_budget_pos [of timeout dialInterval] by (auto simp: waitForHTTPReady_def)
next
  case True
  let ?k = "nat (retry_budget timeout dialInterval)"
  have "poll_ready probe 1 ?k = (n, ready)" using assms True by (simp add: waitForHTTPReady_def)
  from poll_ready_spec [OF this] True retry_budget_pos [of timeout dialInterval] show ?thesis by auto
qed

theorem health_poll_bounded_witness:
  "retry_budget (2 * second) dialInterval = 2"
proof -
  have b: "retry_budget (2 * second) dialInterval = 2"
    by (simp add: retry_budget_def dialInterval_def Let_def in_int64_def sdiv_pos)
  have two: "nat 2 = Suc (Suc 0)" by simp
  have "waitForHTTPReady (\<lambda>_. True) (\<lambda>_. None) ''u'' (2 * second) = (2, False)"
    unfolding waitForHTTPReady_def b two by simp
  from health_poll_bounded [OF this] show ?thesis by simp
qed

text \<open>
  A target whose cron availability is only derived from its schedule (no \<open>availability\<close>
  label, but a cron expression) is still started by an incoming connection: \<open>handleConn\<close> looks at
  the label, not at the effective availability.
\<close>

theorem derived_cron_target_starts_on_connection:
  assumes "map_of (srv_targets s) p = Some ts" and "\<not> ipBlocked (env_remote env) (ts_info ts)"
    and "Availability (ts_info ts) = ''''" and "CronStart (ts_info ts) \<noteq> ''''"
  shows "EffectiveAvailability (ts_info ts) = AvailabilityCron
    \<and> CallEnsure (ts_id ts) \<in> set (fst (snd (handleConn bcrypt ensure env (b, s) p)))"
  using assms
  by (auto simp: handleConn_def EffectiveAvailability_def starts_on_connection_def Let_def case_prod_unfold
      split: bool.splits)

theorem derived_cron_target_starts_on_connection_witness:
  "let i = demo_web\<lparr>CronStart := ''0 9 * * *''\<rparr>;
       s = fst (RegisterTarget (\<lambda>_ _. True) (NewServer 0 0 0 0 False) i)
   in CallEnsure ''c1'' \<in> set (fst (snd (handleConn (\<lambda>_ _. False) (\<lambda>b _. (b, True)) demo_env ((), s) 80)))"
proof -
  let ?i = "demo_web\<lparr>CronStart := ''0 9 * * *''\<rparr>" and ?n = "NewServer 0 0 0 0 False"
  let ?s = "fst (RegisterTarget (\<lambda>_ _. True) ?n ?i)"
  let ?ts = "new_tcp ?n ?i \<lparr>ListenPort = 80, TargetPort = 8080\<rparr>"
  have ts: "map_of (srv_targets ?s) 80 = Some ?ts"
    by (simp add: RegisterTarget_def NewServer_def demo_web_def zero_info_def register_tcp_def tcp_conflict_def Let_def)
  have i: "ts_info ?ts = ?i" by (simp add: new_tcp_def)
  have "\<not> ipBlocked (env_remote demo_env) ?i"
    by (rule ipBlocked_open) (simp_all add: demo_web_def zero_info_def)
  then show ?thesis
    using derived_cron_target_starts_on_connection [OF ts, of demo_env "\<lambda>_ _. False" "\<lambda>b _. (b, True)" "()"] i
    by (simp add: demo_web_def zero_info_def Let_def)
qed

text \<open>
  The bytes of an HTTP-mode connection are lost when the client ends it: if every request is
  answered and keeps the connection alive, the connection ends at the next read, and the
  transfer reported for it is zero bytes in both directions whatever was transferred.
\<close>

theorem keep_alive_connection_reports_no_bytes:
  assumes "\<forall>rq \<in> set rqs. rq_APIKey rq \<in> set (elems (ts_apiKey ts)) \<and> rq_written rq \<and> rs_read rq \<and> rs_written rq
      \<and> rq_http11 rq \<and> \<not> rs_close rq"
    and "elems (ts_basicAuth ts) = []" and "elems (ts_apiKey ts) \<noteq> []"
  shows "length (fst (handleHTTPProxy bcrypt ts rqs)) = length rqs \<and> snd (handleHTTPProxy bcrypt ts rqs) = (0, 0)"
proof -
  have "length (fst (http_loop bcrypt [] keys sent recv rqs)) = length rqs \<and> snd (http_loop bcrypt [] keys sent recv rqs) = (0, 0)"
    if "\<forall>rq \<in> set rqs. rq_APIKey rq \<in> set keys \<and> rq_written rq \<and> rs_read rq \<and> rs_written rq \<and> rq_http11 rq \<and> \<not> rs_close rq"
      "keys \<noteq> []" for sent recv keys
    using that by (induction rqs arbitrary: sent recv) (auto simp: Let_def case_prod_unfold)
  with assms show ?thesis by (simp add: handleHTTPProxy_def)
qed

theorem keep_alive_connection_reports_no_bytes_witness:
  "snd (handleHTTPProxy (\<lambda>_ _. False) demo_ts [demo_request, demo_request]) = (0, 0)"
  using keep_alive_connection_reports_no_bytes [of "[demo_request, demo_request]" demo_ts "\<lambda>_ _. False"]
  by (simp add: demo_request_def)


end
