(* ===== verification/Udp_Flow.thy ===== *)
theory Udp_Flow
  imports Proxy_Conn
begin

text \<open>
  \<open>internal/proxy/udp.go\<close>: one UDP listener, the goroutines that establish its flows and relay
  their replies, and the sweeper. The sections the code runs under \<open>uls.mu\<close>, and the pieces between
  them, are functions; \<open>udp_internal\<close> and \<open>udp_external\<close> interleave them as the scheduler, the
  network and the backend please. A goroutine is named by its upstream socket.
\<close>

subsection \<open>Goroutines\<close>

text \<open>
  Where a goroutine of \<open>startUDPFlow\<close> stands. \<open>Waiting w\<close> is a follower inside \<open>Cond.Wait\<close>, woken
  when \<open>w\<close>; \<open>Probing n\<close> a leader with \<open>n\<close> attempts left; \<open>Publishing r\<close> a leader that knows the
  outcome; \<open>Registered\<close> has its flow in the map but is not yet counted; \<open>Reading\<close> is
  \<open>udpUpstreamReadLoop\<close>.
\<close>

datatype udp_phase =
    Launched | Dialled | Waiting bool | Probing nat | Publishing bool | Direct | Failing
  | Ready | Registered | Reading

record udp_proc =
  up_client :: UDPAddr
  up_first :: string
  up_phase :: udp_phase

record udp_sys =
  sys_uls :: udpListenerState
  sys_procs :: "(nat \<times> udp_proc) list"
  sys_open :: "nat list"

datatype udp_effect = ToUpstream nat string | ToClient UDPAddr string | Srv server_effect

subsection \<open>The dispatch loop\<close>

datatype udp_dispatched = DropBlocked | DropPending | StartFlow | Forward nat

definition udp_dispatch :: "instant \<Rightarrow> udpListenerState \<Rightarrow> UDPAddr \<Rightarrow> udpListenerState \<times> udp_dispatched" where
  "udp_dispatch now uls client =
     (let key = UDPAddr_String client in
      if ipBlocked key (uls_info uls) then (uls, DropBlocked)
      else case map_of (uls_flows uls) key of
        None \<Rightarrow>
          if key \<in> set (uls_pending uls) then (uls, DropPending)
          else (uls\<lparr>uls_pending := key # uls_pending uls\<rparr>, StartFlow)
      | Some flow \<Rightarrow>
          (uls\<lparr>uls_flows := AList.update key (flow\<lparr>fl_lastActive := now\<rparr>) (uls_flows uls), uls_lastActive := now\<rparr>,
           Forward (fl_upstreamConn flow)))"

definition udp_forwarded :: "ProxyServer \<Rightarrow> udpListenerState \<Rightarrow> nat \<Rightarrow> string \<Rightarrow> bool \<Rightarrow> udp_effect list" where
  "udp_forwarded s uls conn data written =
     (if \<not> written then []
      else ToUpstream conn data
        # map Srv (collect s [MAddBytes (uls_listenPort uls) True (int (length data)) 0]))"

subsection \<open>Establishing a flow\<close>

text \<open>
  The start of the container: what the backend answers, and whether the host is found, resolved
  and dialled. \<open>None\<close> is an early return.
\<close>

record start_answer =
  sa_ensured :: bool
  sa_shared :: bool
  sa_coldStartMs :: int
  sa_dialled :: bool

definition udp_start :: "ProxyServer \<Rightarrow> udpListenerState \<Rightarrow> start_answer \<Rightarrow> bool \<times> server_effect list" where
  "udp_start s uls a =
     (let info = uls_info uls; lp = uls_listenPort uls in
      if starts_on_connection info then
        (if \<not> sa_ensured a then (False, CallEnsure (ContainerID info) # collect s [MConnectionFailed lp True])
         else (sa_dialled a,
               CallEnsure (ContainerID info)
               # (if sa_shared a then [] else collect s [MRecordColdStart lp True (sa_coldStartMs a)])))
      else (sa_dialled a, []))"

definition udpReadinessInterval :: duration where
  "udpReadinessInterval = 500 * millisecond"

definition udp_retries :: "udpListenerState \<Rightarrow> nat" where
  "udp_retries uls = nat (retry_budget (uls_startTimeout uls) udpReadinessInterval)"

text \<open>The role of a goroutine, and what a follower does each time it looks at the state.\<close>

definition follower_look :: "udpListenerState \<Rightarrow> udp_phase" where
  "follower_look uls =
     (if uls_upstreamStarting uls \<and> \<not> uls_removed uls then Waiting False
      else if \<not> uls_upstreamReady uls \<or> uls_removed uls then Failing
      else Direct)"

definition choose_role :: "udpListenerState \<Rightarrow> udpListenerState \<times> udp_phase" where
  "choose_role uls =
     (if uls_upstreamReady uls then (uls, Direct)
      else if uls_upstreamStarting uls then (uls, follower_look uls)
      else (uls\<lparr>uls_upstreamStarting := True\<rparr>, Probing (udp_retries uls)))"

text \<open>One attempt of the leader, by what the socket answers.\<close>

datatype probe_answer = WriteFailed | DeadlineFailed | Replied string | NotReady | ReadFailed

definition probe_attempt :: "nat \<Rightarrow> probe_answer \<Rightarrow> udp_phase" where
  "probe_attempt left a =
     (case a of Replied _ \<Rightarrow> Publishing True
      | NotReady \<Rightarrow> if left = 0 then Publishing False else Probing left
      | _ \<Rightarrow> Publishing False)"

definition first_exchange :: "nat \<Rightarrow> udp_proc \<Rightarrow> probe_answer \<Rightarrow> udp_effect list" where
  "first_exchange conn p a =
     (case a of WriteFailed \<Rightarrow> []
      | Replied reply \<Rightarrow> [ToUpstream conn (up_first p), ToClient (up_client p) reply]
      | _ \<Rightarrow> [ToUpstream conn (up_first p)])"

definition udp_publish :: "bool \<Rightarrow> udpListenerState \<Rightarrow> udpListenerState" where
  "udp_publish responded uls =
     uls\<lparr>uls_upstreamStarting := False, uls_upstreamReady := (responded \<or> uls_upstreamReady uls)\<rparr>"

definition published :: "bool \<Rightarrow> udpListenerState \<Rightarrow> udp_phase \<times> udp_effect list" where
  "published responded uls =
     (if responded then (Ready, [])
      else (Failing, [Srv (CallStop (ContainerID (uls_info uls)) (ContainerName (uls_info uls)))]))"

text \<open>A non-leader sends its datagram once and takes a reply when one comes in time.\<close>

definition direct_send :: "probe_answer \<Rightarrow> udp_phase" where
  "direct_send a = (case a of WriteFailed \<Rightarrow> Failing | DeadlineFailed \<Rightarrow> Failing | _ \<Rightarrow> Ready)"

definition udp_cleanup :: "string \<Rightarrow> udpListenerState \<Rightarrow> udpListenerState" where
  "udp_cleanup key uls = uls\<lparr>uls_pending := removeAll key (uls_pending uls)\<rparr>"

definition new_flow :: "instant \<Rightarrow> string \<Rightarrow> nat \<Rightarrow> UDPAddr \<Rightarrow> udpFlow" where
  "new_flow now connID conn client =
     \<lparr>fl_clientAddr = client, fl_upstreamConn = conn, fl_lastActive = now, fl_startTime = now,
      fl_connectionID = connID\<rparr>"

definition register_flow :: "instant \<Rightarrow> string \<Rightarrow> nat \<Rightarrow> UDPAddr \<Rightarrow> udpListenerState \<Rightarrow> udpListenerState" where
  "register_flow now connID conn client uls =
     (let key = UDPAddr_String client in
      uls\<lparr>uls_pending := removeAll key (uls_pending uls),
          uls_flows := AList.update key (new_flow now connID conn client) (uls_flows uls),
          uls_lastActive := now\<rparr>)"

definition flow_webhook :: "udpListenerState \<Rightarrow> string \<Rightarrow> UDPAddr \<Rightarrow> string \<Rightarrow> server_effect list" where
  "flow_webhook uls event client connID =
     (let info = uls_info uls in
      if WebhookURL info \<noteq> ''''
      then [fireWebhook (WebhookURL info) event (ContainerID info) (ContainerName info) connID (IP client) (Port client)]
      else [])"

definition flow_counted :: "udpListenerState \<Rightarrow> udpListenerState" where
  "flow_counted uls = uls\<lparr>uls_activeFlows := wrap32 (uls_activeFlows uls + 1)\<rparr>"

subsection \<open>Relaying replies\<close>

text \<open>The flow's own activity, when it is still in the map, and the listener's.\<close>

definition touch_flow :: "instant \<Rightarrow> nat \<Rightarrow> udpListenerState \<Rightarrow> udpListenerState" where
  "touch_flow now conn uls =
     uls\<lparr>uls_flows := map_values (\<lambda>_ fl. if fl_upstreamConn fl = conn then fl\<lparr>fl_lastActive := now\<rparr> else fl) (uls_flows uls),
         uls_lastActive := now\<rparr>"

definition reply_relayed :: "ProxyServer \<Rightarrow> udpListenerState \<Rightarrow> UDPAddr \<Rightarrow> string \<Rightarrow> bool \<Rightarrow> udp_effect list" where
  "reply_relayed s uls client data written =
     (if \<not> written then []
      else ToClient client data
        # map Srv (collect s [MAddBytes (uls_listenPort uls) True 0 (int (length data))]))"

definition flow_ended :: "udpListenerState \<Rightarrow> udpListenerState" where
  "flow_ended uls = uls\<lparr>uls_activeFlows := wrap32 (uls_activeFlows uls - 1)\<rparr>"

subsection \<open>The sweeper\<close>

definition flow_expired :: "instant \<Rightarrow> duration \<Rightarrow> udpFlow \<Rightarrow> bool" where
  "flow_expired now eff fl \<longleftrightarrow> time_sub now (fl_lastActive fl) > eff"

definition sweep_flows ::
  "instant \<Rightarrow> ProxyServer \<Rightarrow> udpListenerState \<Rightarrow> udpListenerState \<times> nat list \<times> server_effect list" where
  "sweep_flows now s uls =
     (let eff = effectiveTimeout (uls_idleTimeout uls) (srv_idleTimeout s);
          gone = filter (\<lambda>(_, fl). flow_expired now eff fl) (uls_flows uls)
      in (uls\<lparr>uls_flows := filter (\<lambda>(_, fl). \<not> flow_expired now eff fl) (uls_flows uls)\<rparr>,
          map (\<lambda>(_, fl). fl_upstreamConn fl) gone,
          concat (map (\<lambda>(_, fl). flow_webhook uls ''udp_flow_end'' (fl_clientAddr fl) (fl_connectionID fl)) gone)))"

subsection \<open>Interleaving\<close>

definition set_phase :: "nat \<Rightarrow> udp_phase \<Rightarrow> udp_sys \<Rightarrow> udp_sys" where
  "set_phase h ph \<sigma> =
     \<sigma>\<lparr>sys_procs := (case map_of (sys_procs \<sigma>) h of None \<Rightarrow> sys_procs \<sigma>
                     | Some p \<Rightarrow> AList.update h (p\<lparr>up_phase := ph\<rparr>) (sys_procs \<sigma>))\<rparr>"

definition set_uls :: "udpListenerState \<Rightarrow> udp_sys \<Rightarrow> udp_sys" where
  "set_uls uls \<sigma> = \<sigma>\<lparr>sys_uls := uls\<rparr>"

text \<open>\<open>Cond.Broadcast\<close>.\<close>

definition wake :: "udp_proc \<Rightarrow> udp_proc" where
  "wake p = (case up_phase p of Waiting _ \<Rightarrow> p\<lparr>up_phase := Waiting True\<rparr> | _ \<Rightarrow> p)"

definition udp_broadcast :: "udp_sys \<Rightarrow> udp_sys" where
  "udp_broadcast \<sigma> = \<sigma>\<lparr>sys_procs := map_values (\<lambda>_. wake) (sys_procs \<sigma>)\<rparr>"

definition end_proc :: "nat \<Rightarrow> udp_sys \<Rightarrow> udp_sys" where
  "end_proc h \<sigma> = \<sigma>\<lparr>sys_procs := AList.delete h (sys_procs \<sigma>)\<rparr>"

definition open_socket :: "nat \<Rightarrow> udp_sys \<Rightarrow> udp_sys" where
  "open_socket h \<sigma> = \<sigma>\<lparr>sys_open := List.insert h (sys_open \<sigma>)\<rparr>"

definition close_sockets :: "nat list \<Rightarrow> udp_sys \<Rightarrow> udp_sys" where
  "close_sockets hs \<sigma> = \<sigma>\<lparr>sys_open := filter (\<lambda>h. h \<notin> set hs) (sys_open \<sigma>)\<rparr>"

text \<open>Steps of the goroutines that establish flows.\<close>

inductive udp_internal :: "ProxyServer \<Rightarrow> udp_sys \<Rightarrow> udp_effect list \<Rightarrow> udp_sys \<Rightarrow> bool" where
  start_failed:
    "map_of (sys_procs \<sigma>) h = Some p \<Longrightarrow> up_phase p = Launched \<Longrightarrow> udp_start s (sys_uls \<sigma>) a = (False, eff)
     \<Longrightarrow> udp_internal s \<sigma> (map Srv eff) (set_phase h Failing \<sigma>)"
| started:
    "map_of (sys_procs \<sigma>) h = Some p \<Longrightarrow> up_phase p = Launched \<Longrightarrow> udp_start s (sys_uls \<sigma>) a = (True, eff)
     \<Longrightarrow> udp_internal s \<sigma> (map Srv eff) (open_socket h (set_phase h Dialled \<sigma>))"
| role:
    "map_of (sys_procs \<sigma>) h = Some p \<Longrightarrow> up_phase p = Dialled \<Longrightarrow> choose_role (sys_uls \<sigma>) = (uls, ph)
     \<Longrightarrow> udp_internal s \<sigma> [] (set_uls uls (set_phase h ph \<sigma>))"
| woken:
    "map_of (sys_procs \<sigma>) h = Some p \<Longrightarrow> up_phase p = Waiting True
     \<Longrightarrow> udp_internal s \<sigma> [] (set_phase h (follower_look (sys_uls \<sigma>)) \<sigma>)"
| probe:
    "map_of (sys_procs \<sigma>) h = Some p \<Longrightarrow> up_phase p = Probing (Suc left)
     \<Longrightarrow> udp_internal s \<sigma> (first_exchange h p a) (set_phase h (probe_attempt left a) \<sigma>)"
| publish:
    "map_of (sys_procs \<sigma>) h = Some p \<Longrightarrow> up_phase p = Publishing r \<Longrightarrow> published r (sys_uls \<sigma>) = (ph, eff)
     \<Longrightarrow> udp_internal s \<sigma> eff (udp_broadcast (set_uls (udp_publish r (sys_uls \<sigma>)) (set_phase h ph \<sigma>)))"
| direct:
    "map_of (sys_procs \<sigma>) h = Some p \<Longrightarrow> up_phase p = Direct
     \<Longrightarrow> udp_internal s \<sigma> (first_exchange h p a) (set_phase h (direct_send a) \<sigma>)"
| failed:
    "map_of (sys_procs \<sigma>) h = Some p \<Longrightarrow> up_phase p = Failing
     \<Longrightarrow> udp_internal s \<sigma> []
           (close_sockets [h] (end_proc h (set_uls (udp_cleanup (UDPAddr_String (up_client p)) (sys_uls \<sigma>)) \<sigma>)))"
| register:
    "map_of (sys_procs \<sigma>) h = Some p \<Longrightarrow> up_phase p = Ready
     \<Longrightarrow> udp_internal s \<sigma> []
           (set_uls (register_flow now connID h (up_client p) (sys_uls \<sigma>)) (set_phase h Registered \<sigma>))"
| count:
    "map_of (sys_procs \<sigma>) h = Some p \<Longrightarrow> up_phase p = Registered
     \<Longrightarrow> udp_internal s \<sigma>
           (map Srv (flow_webhook (sys_uls \<sigma>) ''udp_flow_start'' (up_client p) connID
              @ collect s [MConnectionStarted (uls_listenPort (sys_uls \<sigma>)) True]))
           (set_uls (flow_counted (sys_uls \<sigma>)) (set_phase h Reading \<sigma>))"

text \<open>
  Steps from outside: a datagram of a client, a reply of the upstream, the end of a read loop, the
  sweeper, the stop of the container and the removal of the target.
\<close>

inductive udp_external :: "ProxyServer \<Rightarrow> udp_sys \<Rightarrow> udp_effect list \<Rightarrow> udp_sys \<Rightarrow> bool" where
  dropped:
    "\<not> uls_removed (sys_uls \<sigma>) \<Longrightarrow> udp_dispatch now (sys_uls \<sigma>) client = (uls, d)
     \<Longrightarrow> d = DropBlocked \<or> d = DropPending \<Longrightarrow> udp_external s \<sigma> [] (set_uls uls \<sigma>)"
| launch:
    "\<not> uls_removed (sys_uls \<sigma>) \<Longrightarrow> udp_dispatch now (sys_uls \<sigma>) client = (uls, StartFlow)
     \<Longrightarrow> map_of (sys_procs \<sigma>) h = None \<Longrightarrow> h \<notin> set (sys_open \<sigma>)
     \<Longrightarrow> h \<notin> (\<lambda>x. fl_upstreamConn (snd x)) ` set (uls_flows (sys_uls \<sigma>))
     \<Longrightarrow> udp_external s \<sigma> []
           (set_uls uls (\<sigma>\<lparr>sys_procs := (h, \<lparr>up_client = client, up_first = data, up_phase = Launched\<rparr>) # sys_procs \<sigma>\<rparr>))"
| forward:
    "\<not> uls_removed (sys_uls \<sigma>) \<Longrightarrow> udp_dispatch now (sys_uls \<sigma>) client = (uls, Forward conn)
     \<Longrightarrow> udp_external s \<sigma> (udp_forwarded s uls conn data written) (set_uls uls \<sigma>)"
| reply:
    "map_of (sys_procs \<sigma>) h = Some p \<Longrightarrow> up_phase p = Reading \<Longrightarrow> h \<in> set (sys_open \<sigma>)
     \<Longrightarrow> udp_external s \<sigma> (reply_relayed s (sys_uls \<sigma>) (up_client p) data written)
           (set_uls (touch_flow now h (sys_uls \<sigma>)) \<sigma>)"
| read_error:
    "map_of (sys_procs \<sigma>) h = Some p \<Longrightarrow> up_phase p = Reading
     \<Longrightarrow> udp_external s \<sigma> (map Srv (collect s [MConnectionEnded (uls_listenPort (sys_uls \<sigma>)) True ms]))
           (end_proc h (set_uls (flow_ended (sys_uls \<sigma>)) \<sigma>))"
| sweep:
    "\<not> uls_removed (sys_uls \<sigma>) \<Longrightarrow> sweep_flows now s (sys_uls \<sigma>) = (uls, hs, eff)
     \<Longrightarrow> udp_external s \<sigma> (map Srv eff) (close_sockets hs (set_uls uls \<sigma>))"
| stopped:
    "udp_external s \<sigma> [] (let \<sigma>' = set_uls (reset_upstream (sys_uls \<sigma>)) \<sigma> in
        if uls_upstreamStarting (sys_uls \<sigma>) then udp_broadcast \<sigma>' else \<sigma>')"
| removed:
    "udp_external s \<sigma> [] (set_uls ((sys_uls \<sigma>)\<lparr>uls_removed := True\<rparr>) \<sigma>)"


subsection \<open>The invariant\<close>

abbreviation "proc \<sigma> h \<equiv> map_of (sys_procs \<sigma>) h"
abbreviation "key_of p \<equiv> UDPAddr_String (up_client p)"

definition establishing :: "udp_phase \<Rightarrow> bool" where
  "establishing ph \<longleftrightarrow> ph \<noteq> Registered \<and> ph \<noteq> Reading"

definition leading :: "udp_phase \<Rightarrow> bool" where
  "leading ph \<longleftrightarrow> (\<exists>n. ph = Probing (Suc n)) \<or> (\<exists>r. ph = Publishing r)"

text \<open>A client is pending exactly while one goroutine establishes its flow.\<close>

definition claims_ok :: "udp_sys \<Rightarrow> bool" where
  "claims_ok \<sigma> \<longleftrightarrow>
     (\<forall>k. k \<in> set (uls_pending (sys_uls \<sigma>)) \<longleftrightarrow> (\<exists>h p. proc \<sigma> h = Some p \<and> establishing (up_phase p) \<and> key_of p = k))
     \<and> (\<forall>h p h' p'. proc \<sigma> h = Some p \<and> proc \<sigma> h' = Some p' \<and> establishing (up_phase p)
            \<and> establishing (up_phase p') \<and> key_of p = key_of p' \<longrightarrow> h = h')"

text \<open>No client is both pending and mapped; every flow has its own open socket.\<close>

definition flows_ok :: "udp_sys \<Rightarrow> bool" where
  "flows_ok \<sigma> \<longleftrightarrow>
     keys_distinct (uls_flows (sys_uls \<sigma>))
     \<and> (\<forall>k fl. map_of (uls_flows (sys_uls \<sigma>)) k = Some fl \<longrightarrow>
           k \<notin> set (uls_pending (sys_uls \<sigma>)) \<and> k = UDPAddr_String (fl_clientAddr fl)
           \<and> fl_upstreamConn fl \<in> set (sys_open \<sigma>)
           \<and> (\<forall>p. proc \<sigma> (fl_upstreamConn fl) = Some p \<longrightarrow> \<not> establishing (up_phase p)))
     \<and> (\<forall>k fl k' fl'. map_of (uls_flows (sys_uls \<sigma>)) k = Some fl \<and> map_of (uls_flows (sys_uls \<sigma>)) k' = Some fl'
           \<and> fl_upstreamConn fl = fl_upstreamConn fl' \<longrightarrow> k = k')"

text \<open>An open socket belongs to a goroutine that establishes a flow, or to a flow of the map.\<close>

definition sockets_ok :: "udp_sys \<Rightarrow> bool" where
  "sockets_ok \<sigma> \<longleftrightarrow>
     (\<forall>h \<in> set (sys_open \<sigma>).
        (\<exists>p. proc \<sigma> h = Some p \<and> establishing (up_phase p))
        \<or> (\<exists>k fl. map_of (uls_flows (sys_uls \<sigma>)) k = Some fl \<and> fl_upstreamConn fl = h))
     \<and> (\<forall>h p. proc \<sigma> h = Some p \<and> establishing (up_phase p) \<and> up_phase p \<noteq> Launched \<and> up_phase p \<noteq> Failing
           \<longrightarrow> h \<in> set (sys_open \<sigma>))"

text \<open>A sleeping follower has a leader that will wake it.\<close>

definition wakeups_ok :: "udp_sys \<Rightarrow> bool" where
  "wakeups_ok \<sigma> \<longleftrightarrow>
     (\<forall>h p. proc \<sigma> h = Some p \<and> up_phase p = Waiting False \<longrightarrow> uls_upstreamStarting (sys_uls \<sigma>))
     \<and> (uls_upstreamStarting (sys_uls \<sigma>) \<longrightarrow> (\<exists>h p. proc \<sigma> h = Some p \<and> leading (up_phase p)))
     \<and> (\<forall>h p. proc \<sigma> h = Some p \<longrightarrow> up_phase p \<noteq> Probing 0)"

definition reading :: "udp_proc \<Rightarrow> nat" where
  "reading p = (if up_phase p = Reading then 1 else 0)"

definition gauge_ok :: "udp_sys \<Rightarrow> bool" where
  "gauge_ok \<sigma> \<longleftrightarrow> uls_activeFlows (sys_uls \<sigma>) = wrap32 (int (map_total reading (sys_procs \<sigma>)))"

definition udp_ok :: "udp_sys \<Rightarrow> bool" where
  "udp_ok \<sigma> \<longleftrightarrow> keys_distinct (sys_procs \<sigma>) \<and> claims_ok \<sigma> \<and> flows_ok \<sigma> \<and> sockets_ok \<sigma> \<and> wakeups_ok \<sigma> \<and> gauge_ok \<sigma>"

subsection \<open>Frame facts\<close>

lemma set_uls_frame [simp]:
  "sys_uls (set_uls u \<sigma>) = u" "sys_procs (set_uls u \<sigma>) = sys_procs \<sigma>" "sys_open (set_uls u \<sigma>) = sys_open \<sigma>"
  by (simp_all add: set_uls_def)

lemma set_phase_frame [simp]:
  "sys_uls (set_phase h ph \<sigma>) = sys_uls \<sigma>" "sys_open (set_phase h ph \<sigma>) = sys_open \<sigma>"
  "keys_distinct (sys_procs \<sigma>) \<Longrightarrow> keys_distinct (sys_procs (set_phase h ph \<sigma>))"
  by (auto simp: set_phase_def split: option.splits)

lemma proc_set_phase:
  "proc \<sigma> h = Some p \<Longrightarrow> map_of (sys_procs (set_phase h ph \<sigma>)) = (map_of (sys_procs \<sigma>))(h \<mapsto> p\<lparr>up_phase := ph\<rparr>)"
  by (simp add: set_phase_def update_conv')

lemma open_socket_frame [simp]:
  "sys_uls (open_socket h \<sigma>) = sys_uls \<sigma>" "sys_procs (open_socket h \<sigma>) = sys_procs \<sigma>"
  "set (sys_open (open_socket h \<sigma>)) = insert h (set (sys_open \<sigma>))"
  by (simp_all add: open_socket_def)

lemma close_sockets_frame [simp]:
  "sys_uls (close_sockets hs \<sigma>) = sys_uls \<sigma>" "sys_procs (close_sockets hs \<sigma>) = sys_procs \<sigma>"
  "set (sys_open (close_sockets hs \<sigma>)) = set (sys_open \<sigma>) - set hs"
  by (auto simp: close_sockets_def)

lemma end_proc_frame [simp]:
  "sys_uls (end_proc h \<sigma>) = sys_uls \<sigma>" "sys_open (end_proc h \<sigma>) = sys_open \<sigma>"
  "map_of (sys_procs (end_proc h \<sigma>)) = (map_of (sys_procs \<sigma>))(h := None)"
  "keys_distinct (sys_procs \<sigma>) \<Longrightarrow> keys_distinct (sys_procs (end_proc h \<sigma>))"
  by (simp_all add: end_proc_def delete_conv')

lemma udp_broadcast_frame [simp]:
  "sys_uls (udp_broadcast \<sigma>) = sys_uls \<sigma>" "sys_open (udp_broadcast \<sigma>) = sys_open \<sigma>"
  "map_of (sys_procs (udp_broadcast \<sigma>)) h = map_option wake (map_of (sys_procs \<sigma>) h)"
  "keys_distinct (sys_procs (udp_broadcast \<sigma>)) = keys_distinct (sys_procs \<sigma>)"
  by (simp_all add: udp_broadcast_def)

lemma wake_simps [simp]:
  "up_client (wake p) = up_client p"
  "establishing (up_phase (wake p)) = establishing (up_phase p)"
  "leading (up_phase (wake p)) = leading (up_phase p)"
  "up_phase (wake p) \<noteq> Waiting False"
  "up_phase (wake p) = Launched \<longleftrightarrow> up_phase p = Launched"
  "up_phase (wake p) = Failing \<longleftrightarrow> up_phase p = Failing"
  "up_phase (wake p) = Probing n \<longleftrightarrow> up_phase p = Probing n"
  "reading (wake p) = reading p"
  by (auto simp: wake_def establishing_def leading_def reading_def split: udp_phase.splits)

lemma phase_simps [simp]:
  "establishing Launched" "establishing Dialled" "establishing (Waiting b)" "establishing (Probing n)"
  "establishing (Publishing r)" "establishing Direct" "establishing Failing" "establishing Ready"
  "\<not> establishing Registered" "\<not> establishing Reading"
  "\<not> leading Launched" "\<not> leading Dialled" "\<not> leading (Waiting b)" "leading (Probing (Suc n))"
  "leading (Publishing r)" "\<not> leading Direct" "\<not> leading Failing" "\<not> leading Ready"
  "\<not> leading Registered" "\<not> leading Reading"
  by (auto simp: establishing_def leading_def)

lemma uls_frame [simp]:
  "uls_pending (udp_publish r u) = uls_pending u" "uls_flows (udp_publish r u) = uls_flows u"
  "uls_activeFlows (udp_publish r u) = uls_activeFlows u" "uls_upstreamStarting (udp_publish r u) = False"
  "uls_pending (udp_cleanup k u) = removeAll k (uls_pending u)" "uls_flows (udp_cleanup k u) = uls_flows u"
  "uls_activeFlows (udp_cleanup k u) = uls_activeFlows u"
  "uls_upstreamStarting (udp_cleanup k u) = uls_upstreamStarting u"
  "uls_pending (flow_counted u) = uls_pending u" "uls_flows (flow_counted u) = uls_flows u"
  "uls_upstreamStarting (flow_counted u) = uls_upstreamStarting u"
  "uls_pending (flow_ended u) = uls_pending u" "uls_flows (flow_ended u) = uls_flows u"
  "uls_upstreamStarting (flow_ended u) = uls_upstreamStarting u"
  "uls_pending (touch_flow now h u) = uls_pending u" "uls_activeFlows (touch_flow now h u) = uls_activeFlows u"
  "uls_upstreamStarting (touch_flow now h u) = uls_upstreamStarting u"
  "uls_pending (reset_upstream u) = uls_pending u" "uls_flows (reset_upstream u) = uls_flows u"
  "uls_activeFlows (reset_upstream u) = uls_activeFlows u" "\<not> uls_upstreamStarting (reset_upstream u)"
  "uls_pending (register_flow now c h a u) = removeAll (UDPAddr_String a) (uls_pending u)"
  "uls_flows (register_flow now c h a u) = AList.update (UDPAddr_String a) (new_flow now c h a) (uls_flows u)"
  "uls_activeFlows (register_flow now c h a u) = uls_activeFlows u"
  "uls_upstreamStarting (register_flow now c h a u) = uls_upstreamStarting u"
  by (simp_all add: udp_publish_def udp_cleanup_def flow_counted_def flow_ended_def touch_flow_def
      reset_upstream_def register_flow_def Let_def)

lemma new_flow_simps [simp]:
  "fl_clientAddr (new_flow now c h a) = a" "fl_upstreamConn (new_flow now c h a) = h"
  by (simp_all add: new_flow_def)


subsection \<open>Steps keep the invariant\<close>

text \<open>What claims and flows see of the goroutines.\<close>

definition view :: "udp_sys \<Rightarrow> nat \<Rightarrow> (UDPAddr \<times> bool) option" where
  "view \<sigma> h = map_option (\<lambda>p. (up_client p, establishing (up_phase p))) (proc \<sigma> h)"

lemma view_Some:
  "view \<sigma> h = Some (c, e) \<longleftrightarrow> (\<exists>p. proc \<sigma> h = Some p \<and> up_client p = c \<and> establishing (up_phase p) = e)"
  by (auto simp: view_def)

lemma view_set_phase:
  "proc \<sigma> h = Some p \<Longrightarrow> establishing ph = establishing (up_phase p) \<Longrightarrow> view (set_phase h ph \<sigma>) = view \<sigma>"
  by (auto simp: view_def proc_set_phase fun_eq_iff)

lemma view_frame [simp]:
  "view (set_uls u \<sigma>) = view \<sigma>" "view (open_socket h \<sigma>) = view \<sigma>" "view (close_sockets hs \<sigma>) = view \<sigma>"
  "view (udp_broadcast \<sigma>) = view \<sigma>" "view (end_proc h \<sigma>) = (view \<sigma>)(h := None)"
  by (auto simp: view_def fun_eq_iff option.map_comp comp_def)

lemma claims_ok_view:
  "claims_ok \<sigma> \<longleftrightarrow>
     (\<forall>k. k \<in> set (uls_pending (sys_uls \<sigma>)) \<longleftrightarrow> (\<exists>h c. view \<sigma> h = Some (c, True) \<and> UDPAddr_String c = k))
     \<and> (\<forall>h c h' c'. view \<sigma> h = Some (c, True) \<and> view \<sigma> h' = Some (c', True)
            \<and> UDPAddr_String c = UDPAddr_String c' \<longrightarrow> h = h')"
  unfolding claims_ok_def view_Some by (intro arg_cong2 [where f = "(\<and>)"] iff_allI) (auto | blast)+

lemma flows_ok_view:
  "flows_ok \<sigma> \<longleftrightarrow>
     keys_distinct (uls_flows (sys_uls \<sigma>))
     \<and> (\<forall>k fl. map_of (uls_flows (sys_uls \<sigma>)) k = Some fl \<longrightarrow>
           k \<notin> set (uls_pending (sys_uls \<sigma>)) \<and> k = UDPAddr_String (fl_clientAddr fl)
           \<and> fl_upstreamConn fl \<in> set (sys_open \<sigma>)
           \<and> (\<forall>c. view \<sigma> (fl_upstreamConn fl) \<noteq> Some (c, True)))
     \<and> (\<forall>k fl k' fl'. map_of (uls_flows (sys_uls \<sigma>)) k = Some fl \<and> map_of (uls_flows (sys_uls \<sigma>)) k' = Some fl'
           \<and> fl_upstreamConn fl = fl_upstreamConn fl' \<longrightarrow> k = k')"
  unfolding flows_ok_def view_Some by (simp add: view_def)

text \<open>Most steps change neither who claims what nor which flow has which socket.\<close>

definition flow_ids :: "udpListenerState \<Rightarrow> string \<Rightarrow> (UDPAddr \<times> nat) option" where
  "flow_ids u k = map_option (\<lambda>fl. (fl_clientAddr fl, fl_upstreamConn fl)) (map_of (uls_flows u) k)"

lemma flow_ids_Some:
  "flow_ids u k = Some (c, h) \<longleftrightarrow> (\<exists>fl. map_of (uls_flows u) k = Some fl \<and> fl_clientAddr fl = c \<and> fl_upstreamConn fl = h)"
  by (auto simp: flow_ids_def)

lemma flows_ok_ids:
  "flows_ok \<sigma> \<longleftrightarrow>
     keys_distinct (uls_flows (sys_uls \<sigma>))
     \<and> (\<forall>k c h. flow_ids (sys_uls \<sigma>) k = Some (c, h) \<longrightarrow>
           k \<notin> set (uls_pending (sys_uls \<sigma>)) \<and> k = UDPAddr_String c \<and> h \<in> set (sys_open \<sigma>)
           \<and> (\<forall>d. view \<sigma> h \<noteq> Some (d, True)))
     \<and> (\<forall>k c k' c' h. flow_ids (sys_uls \<sigma>) k = Some (c, h) \<and> flow_ids (sys_uls \<sigma>) k' = Some (c', h) \<longrightarrow> k = k')"
  unfolding flows_ok_view flow_ids_Some by (intro arg_cong2 [where f = "(\<and>)"] refl) (blast | metis)+

lemma sockets_ok_ids:
  "sockets_ok \<sigma> \<longleftrightarrow>
     (\<forall>h \<in> set (sys_open \<sigma>). (\<exists>c. view \<sigma> h = Some (c, True)) \<or> (\<exists>k c. flow_ids (sys_uls \<sigma>) k = Some (c, h)))
     \<and> (\<forall>h p. proc \<sigma> h = Some p \<and> establishing (up_phase p) \<and> up_phase p \<noteq> Launched \<and> up_phase p \<noteq> Failing
           \<longrightarrow> h \<in> set (sys_open \<sigma>))"
  unfolding sockets_ok_def flow_ids_Some view_Some by (intro arg_cong2 [where f = "(\<and>)"] refl) blast

lemma quiet_step:
  assumes "view \<sigma>' = view \<sigma>" and "uls_pending (sys_uls \<sigma>') = uls_pending (sys_uls \<sigma>)"
    and "flow_ids (sys_uls \<sigma>') = flow_ids (sys_uls \<sigma>)"
    and "keys_distinct (uls_flows (sys_uls \<sigma>)) \<Longrightarrow> keys_distinct (uls_flows (sys_uls \<sigma>'))"
    and "set (sys_open \<sigma>) \<subseteq> set (sys_open \<sigma>')"
    and "claims_ok \<sigma>" and "flows_ok \<sigma>"
  shows "claims_ok \<sigma>' \<and> flows_ok \<sigma>'"
proof
  show "claims_ok \<sigma>'" using assms(6) unfolding claims_ok_view assms(1,2) .
  show "flows_ok \<sigma>'" using assms(4,5,7) unfolding flows_ok_ids assms(1-3) by blast
qed

lemma flow_ids_frame [simp]:
  "flow_ids (udp_publish r u) = flow_ids u" "flow_ids (udp_cleanup k u) = flow_ids u"
  "flow_ids (flow_counted u) = flow_ids u" "flow_ids (flow_ended u) = flow_ids u"
  "flow_ids (reset_upstream u) = flow_ids u" "flow_ids (u\<lparr>uls_removed := b\<rparr>) = flow_ids u"
  "flow_ids (touch_flow now h u) = flow_ids u"
  "flow_ids (register_flow now c h a u) = (flow_ids u)(UDPAddr_String a \<mapsto> (a, h))"
  by (auto simp: flow_ids_def fun_eq_iff option.map_comp comp_def touch_flow_def update_conv' intro!: map_option_cong)

lemma choose_role_frame:
  assumes "choose_role u = (u', ph)"
  shows "uls_pending u' = uls_pending u \<and> uls_flows u' = uls_flows u \<and> uls_activeFlows u' = uls_activeFlows u
    \<and> establishing ph \<and> ph \<noteq> Launched"
  using assms by (auto simp: choose_role_def follower_look_def split: if_splits)

lemma establishing_results [simp]:
  "establishing (follower_look u)" "establishing (probe_attempt n a)" "establishing (direct_send a)"
  "published r u = (ph, eff) \<Longrightarrow> establishing ph"
  by (auto simp: follower_look_def probe_attempt_def direct_send_def published_def split: probe_answer.splits if_splits)

lemma claims_drop:
  assumes ok: "claims_ok \<sigma>" and v: "view \<sigma> h = Some (c, True)" and x: "\<And>d. x \<noteq> Some (d, True)"
    and v': "view \<sigma>' = (view \<sigma>)(h := x)"
    and p': "set (uls_pending (sys_uls \<sigma>')) = set (uls_pending (sys_uls \<sigma>)) - {UDPAddr_String c}"
  shows "claims_ok \<sigma>'"
proof -
  have claimed: "k \<in> set (uls_pending (sys_uls \<sigma>)) \<longleftrightarrow> (\<exists>h c. view \<sigma> h = Some (c, True) \<and> UDPAddr_String c = k)" for k
    using ok unfolding claims_ok_view by blast
  have inj: "h1 = h2" if "view \<sigma> h1 = Some (c1, True)" "view \<sigma> h2 = Some (c2, True)" "UDPAddr_String c1 = UDPAddr_String c2"
    for h1 h2 c1 c2 using ok that unfolding claims_ok_view by blast
  have other: "(view \<sigma>' h1 = Some (c1, True)) = (view \<sigma> h1 = Some (c1, True) \<and> h1 \<noteq> h)" for h1 c1
    using x by (simp add: v')
  have apart: "h1 \<noteq> h \<longleftrightarrow> UDPAddr_String c1 \<noteq> UDPAddr_String c" if "view \<sigma> h1 = Some (c1, True)" for h1 c1
    using inj [OF that v] that v by auto
  show ?thesis unfolding claims_ok_view
  proof (intro conjI allI impI)
    fix k
    show "k \<in> set (uls_pending (sys_uls \<sigma>')) \<longleftrightarrow> (\<exists>h c. view \<sigma>' h = Some (c, True) \<and> UDPAddr_String c = k)"
      unfolding other p' using claimed [of k] apart by blast
  next
    fix h1 c1 h2 c2
    assume "view \<sigma>' h1 = Some (c1, True) \<and> view \<sigma>' h2 = Some (c2, True) \<and> UDPAddr_String c1 = UDPAddr_String c2"
    then show "h1 = h2" unfolding other using inj by blast
  qed
qed

lemma failed_step:
  assumes p: "proc \<sigma> h = Some p" "establishing (up_phase p)" and ok: "claims_ok \<sigma>" "flows_ok \<sigma>"
    and \<sigma>': "\<sigma>' = close_sockets [h] (end_proc h (set_uls (udp_cleanup (key_of p) (sys_uls \<sigma>)) \<sigma>))"
  shows "claims_ok \<sigma>' \<and> flows_ok \<sigma>'"
proof
  have v: "view \<sigma> h = Some (up_client p, True)" using p by (simp add: view_def)
  have v': "view \<sigma>' = (view \<sigma>)(h := None)" by (simp add: \<sigma>')
  show "claims_ok \<sigma>'" by (rule claims_drop [OF ok(1) v _ v']) (simp_all add: \<sigma>')
  have "x \<noteq> h" if "flow_ids (sys_uls \<sigma>) k = Some (c, x)" for k c x
    using ok(2) that v unfolding flows_ok_ids by metis
  with ok(2) show "flows_ok \<sigma>'" unfolding flows_ok_ids v' by (simp add: \<sigma>')
qed

lemma register_step:
  assumes p: "proc \<sigma> h = Some p" "up_phase p = Ready" and ok: "claims_ok \<sigma>" "flows_ok \<sigma>" and h: "h \<in> set (sys_open \<sigma>)"
    and \<sigma>': "\<sigma>' = set_uls (register_flow now c h (up_client p) (sys_uls \<sigma>)) (set_phase h Registered \<sigma>)"
  shows "claims_ok \<sigma>' \<and> flows_ok \<sigma>'"
proof
  have v: "view \<sigma> h = Some (up_client p, True)" using p by (simp add: view_def)
  have v': "view \<sigma>' = (view \<sigma>)(h := Some (up_client p, False))"
    using p(1) by (auto simp: \<sigma>' view_def fun_eq_iff proc_set_phase)
  show "claims_ok \<sigma>'" by (rule claims_drop [OF ok(1) v _ v']) (simp_all add: \<sigma>')
  have other: "x \<noteq> h" if "flow_ids (sys_uls \<sigma>) k = Some (d, x)" for k d x
    using ok(2) that v unfolding flows_ok_ids by metis
  have ids: "flow_ids (sys_uls \<sigma>') = (flow_ids (sys_uls \<sigma>))(key_of p \<mapsto> (up_client p, h))" by (simp add: \<sigma>')
  have old: "k \<notin> set (uls_pending (sys_uls \<sigma>)) \<and> k = UDPAddr_String d \<and> x \<in> set (sys_open \<sigma>) \<and> view \<sigma> x \<noteq> Some (e, True)"
    if "flow_ids (sys_uls \<sigma>) k = Some (d, x)" for k d x e
    using ok(2) that unfolding flows_ok_ids by blast
  have uniq: "k = k'" if "flow_ids (sys_uls \<sigma>) k = Some (d, x)" "flow_ids (sys_uls \<sigma>) k' = Some (d', x)" for k d x k' d'
    using ok(2) that unfolding flows_ok_ids by blast
  show "flows_ok \<sigma>'" unfolding flows_ok_ids ids v'
  proof (intro conjI allI impI, goal_cases)
    case 1 then show ?case using ok(2) by (simp add: \<sigma>' flows_ok_def)
  next
    case 2 then show ?case using old by (auto simp: \<sigma>' split: if_splits)
  next
    case 3 then show ?case using old by (auto split: if_splits)
  next
    case 4 then show ?case using old h by (auto simp: \<sigma>' split: if_splits)
  next
    case 5 then show ?case using old other by (auto split: if_splits)
  next
    case 6 then show ?case using uniq other by (auto split: if_splits dest: other)
  qed
qed

lemma launch_step:
  assumes d: "udp_dispatch now (sys_uls \<sigma>) client = (u, StartFlow)"
    and fresh: "proc \<sigma> h = None" "h \<notin> set (sys_open \<sigma>)" and ok: "claims_ok \<sigma>" "flows_ok \<sigma>"
    and \<sigma>': "\<sigma>' = set_uls u (\<sigma>\<lparr>sys_procs := (h, \<lparr>up_client = client, up_first = data, up_phase = Launched\<rparr>) # sys_procs \<sigma>\<rparr>)"
  shows "claims_ok \<sigma>' \<and> flows_ok \<sigma>'"
proof
  have u: "u = (sys_uls \<sigma>)\<lparr>uls_pending := UDPAddr_String client # uls_pending (sys_uls \<sigma>)\<rparr>"
    and new: "UDPAddr_String client \<notin> set (uls_pending (sys_uls \<sigma>))" "flow_ids (sys_uls \<sigma>) (UDPAddr_String client) = None"
    using d by (auto simp: udp_dispatch_def Let_def flow_ids_def split: if_splits option.splits)
  have v: "view \<sigma> h = None" using fresh(1) by (simp add: view_def)
  have v': "view \<sigma>' = (view \<sigma>)(h \<mapsto> (client, True))" by (auto simp: \<sigma>' view_def fun_eq_iff)
  have ids: "flow_ids (sys_uls \<sigma>') = flow_ids (sys_uls \<sigma>)" by (simp add: \<sigma>' u flow_ids_def fun_eq_iff)
  have claimed: "k \<in> set (uls_pending (sys_uls \<sigma>)) \<longleftrightarrow> (\<exists>h c. view \<sigma> h = Some (c, True) \<and> UDPAddr_String c = k)" for k
    using ok(1) unfolding claims_ok_view by blast
  have at: "view \<sigma>' x = Some (c, True) \<longleftrightarrow> x = h \<and> c = client \<or> x \<noteq> h \<and> view \<sigma> x = Some (c, True)" for x c
    by (auto simp: v')
  show "claims_ok \<sigma>'" unfolding claims_ok_view at
  proof (intro conjI allI impI, goal_cases)
    case (1 k)
    have "k \<in> set (uls_pending (sys_uls \<sigma>')) \<longleftrightarrow> k = UDPAddr_String client \<or> k \<in> set (uls_pending (sys_uls \<sigma>))"
      by (auto simp: \<sigma>' u)
    moreover have "x \<noteq> h" if "view \<sigma> x = Some (c, True)" for x c using that v by auto
    ultimately show ?case unfolding claimed by blast
  next
    case (2 h1 c1 h2 c2)
    have "\<not> (view \<sigma> x = Some (c, True) \<and> UDPAddr_String c = UDPAddr_String client)" for x c
      using new(1) unfolding claimed by blast
    moreover have "h1 = h2" if "view \<sigma> h1 = Some (c1, True)" "view \<sigma> h2 = Some (c2, True)"
      using 2 that ok(1) unfolding claims_ok_view by blast
    ultimately show ?case using 2 by metis
  qed
  have "x \<noteq> h" if "flow_ids (sys_uls \<sigma>) k = Some (c, x)" for k c x
    using ok(2) that fresh(2) unfolding flows_ok_ids by metis
  moreover have "k \<noteq> UDPAddr_String client" if "flow_ids (sys_uls \<sigma>) k = Some (c, x)" for k c x
    using that new(2) by auto
  ultimately show "flows_ok \<sigma>'"
    using ok(2) unfolding flows_ok_ids ids at by (simp add: \<sigma>' u)
qed

lemma sweep_frame:
  assumes "sweep_flows now s u = (u', hs, eff)" and "keys_distinct (uls_flows u)"
  shows "u' = u\<lparr>uls_flows := uls_flows u'\<rparr>" and "keys_distinct (uls_flows u')"
    and "map_of (uls_flows u') k = (case map_of (uls_flows u) k of None \<Rightarrow> None
           | Some fl \<Rightarrow> if flow_expired now (effectiveTimeout (uls_idleTimeout u) (srv_idleTimeout s)) fl then None else Some fl)"
    and "h \<in> set hs \<longleftrightarrow> (\<exists>k fl. map_of (uls_flows u) k = Some fl \<and> fl_upstreamConn fl = h
           \<and> flow_expired now (effectiveTimeout (uls_idleTimeout u) (srv_idleTimeout s)) fl)"
proof -
  show "u' = u\<lparr>uls_flows := uls_flows u'\<rparr>" and "keys_distinct (uls_flows u')"
    using assms by (auto simp: sweep_flows_def Let_def)
  show "map_of (uls_flows u') k = (case map_of (uls_flows u) k of None \<Rightarrow> None
           | Some fl \<Rightarrow> if flow_expired now (effectiveTimeout (uls_idleTimeout u) (srv_idleTimeout s)) fl then None else Some fl)"
    using assms by (auto simp: sweep_flows_def Let_def map_of_filter_value split: option.splits)
  have "set hs = (\<lambda>x. fl_upstreamConn (snd x)) ` {x \<in> set (uls_flows u).
      flow_expired now (effectiveTimeout (uls_idleTimeout u) (srv_idleTimeout s)) (snd x)}"
    using assms(1) by (force simp: sweep_flows_def Let_def)
  then show "h \<in> set hs \<longleftrightarrow> (\<exists>k fl. map_of (uls_flows u) k = Some fl \<and> fl_upstreamConn fl = h
           \<and> flow_expired now (effectiveTimeout (uls_idleTimeout u) (srv_idleTimeout s)) fl)"
    using in_alist_iff [OF assms(2)] by (auto simp: image_iff; metis snd_conv)
qed


lemma sockets_frame:
  assumes "view \<sigma>' = view \<sigma>" and "flow_ids (sys_uls \<sigma>') = flow_ids (sys_uls \<sigma>)"
    and "set (sys_open \<sigma>') = set (sys_open \<sigma>)" and "sockets_ok \<sigma>"
    and "\<And>h p. proc \<sigma>' h = Some p \<Longrightarrow> establishing (up_phase p) \<Longrightarrow> up_phase p \<noteq> Launched \<Longrightarrow> up_phase p \<noteq> Failing
           \<Longrightarrow> h \<in> set (sys_open \<sigma>)"
  shows "sockets_ok \<sigma>'"
  using assms(4,5) unfolding sockets_ok_ids assms(1-3) by blast

lemma socket_of:
  "sockets_ok \<sigma> \<Longrightarrow> proc \<sigma> h = Some p \<Longrightarrow> establishing (up_phase p) \<Longrightarrow> up_phase p \<noteq> Launched
     \<Longrightarrow> up_phase p \<noteq> Failing \<Longrightarrow> h \<in> set (sys_open \<sigma>)"
  unfolding sockets_ok_def by blast

lemma socket_after_phase:
  assumes "sockets_ok \<sigma>" and "proc \<sigma> h = Some p" and "h \<in> set (sys_open \<sigma>) \<or> ph = Failing"
    and "proc (set_phase h ph \<sigma>) x = Some q" and "establishing (up_phase q)" and "up_phase q \<noteq> Launched"
    and "up_phase q \<noteq> Failing"
  shows "x \<in> set (sys_open \<sigma>)"
  using assms socket_of [OF assms(1)] by (auto simp: proc_set_phase split: if_splits)

lemma sockets_step:
  assumes "udp_internal s \<sigma> e \<sigma>'" and "sockets_ok \<sigma>" and "flows_ok \<sigma>" and "claims_ok \<sigma>"
  shows "sockets_ok \<sigma>'"
  using assms(1)
proof cases
  case (start_failed h p a eff)
  show ?thesis
    by (rule sockets_frame [OF _ _ _ assms(2)])
      (use start_failed socket_after_phase [OF assms(2), of h p Failing] in \<open>auto simp: view_set_phase\<close>)
next
  case (started h p a eff)
  have v: "view \<sigma>' = view \<sigma>" using started by (simp add: view_set_phase)
  have "view \<sigma> h = Some (up_client p, True)" using started by (simp add: view_def)
  moreover have "x \<in> insert h (set (sys_open \<sigma>))"
    if "proc \<sigma>' x = Some q" "establishing (up_phase q)" "up_phase q \<noteq> Launched" "up_phase q \<noteq> Failing" for x q
    using that started socket_of [OF assms(2)] by (auto simp: proc_set_phase split: if_splits)
  ultimately show ?thesis
    using assms(2) started unfolding sockets_ok_ids v by (auto; blast)
next
  case (role h p uls ph)
  note f = choose_role_frame [OF role(5)]
  have "flow_ids uls = flow_ids (sys_uls \<sigma>)" using f by (simp add: flow_ids_def fun_eq_iff)
  then show ?thesis
    using role f socket_of [OF assms(2) role(3)] socket_after_phase [OF assms(2) role(3), of ph]
    by (intro sockets_frame [OF _ _ _ assms(2)]) (auto simp: view_set_phase)
next
  case (woken h p)
  then show ?thesis
    using socket_of [OF assms(2) woken(3)] socket_after_phase [OF assms(2) woken(3)]
    by (intro sockets_frame [OF _ _ _ assms(2)]) (auto simp: view_set_phase)
next
  case (probe h p left a)
  then show ?thesis
    using socket_of [OF assms(2) probe(3)] socket_after_phase [OF assms(2) probe(3)]
    by (intro sockets_frame [OF _ _ _ assms(2)]) (auto simp: view_set_phase)
next
  case (publish h p r ph)
  have "x \<in> set (sys_open \<sigma>)"
    if q: "proc \<sigma>' x = Some q" "establishing (up_phase q)" "up_phase q \<noteq> Launched" "up_phase q \<noteq> Failing" for x q
  proof -
    obtain q0 where "proc (set_phase h ph \<sigma>) x = Some q0" "q = wake q0"
      using q(1) publish(1) by auto
    with q publish show ?thesis
      using socket_of [OF assms(2) publish(2)] socket_after_phase [OF assms(2) publish(2), of ph x q0] by simp
  qed
  with publish show ?thesis
    by (intro sockets_frame [OF _ _ _ assms(2)]) (auto simp: view_set_phase)
next
  case (direct h p a)
  then show ?thesis
    using socket_of [OF assms(2) direct(3)] socket_after_phase [OF assms(2) direct(3)]
    by (intro sockets_frame [OF _ _ _ assms(2)]) (auto simp: view_set_phase)
next
  case (failed h p)
  have v': "view \<sigma>' = (view \<sigma>)(h := None)" using failed by simp
  from failed assms(2) show ?thesis unfolding sockets_ok_ids v' by (auto split: if_splits)
next
  case (register h p now c)
  have v': "view \<sigma>' = (view \<sigma>)(h := Some (up_client p, False))"
    using register by (auto simp: view_def fun_eq_iff proc_set_phase)
  have ids: "flow_ids (sys_uls \<sigma>') = (flow_ids (sys_uls \<sigma>))(key_of p \<mapsto> (up_client p, h))" using register by simp
  have "key_of p \<in> set (uls_pending (sys_uls \<sigma>))"
    using assms(4) register unfolding claims_ok_def by (metis phase_simps(8))
  then have old: "flow_ids (sys_uls \<sigma>) (key_of p) \<noteq> Some (d, x)" for d x
    using assms(3) unfolding flows_ok_ids by blast
  have "(\<exists>c. view \<sigma>' x = Some (c, True)) \<or> (\<exists>k c. flow_ids (sys_uls \<sigma>') k = Some (c, x))"
    if "x \<in> set (sys_open \<sigma>)" for x
    using that assms(2) old unfolding sockets_ok_ids v' ids by (auto split: if_splits) (metis option.distinct(1))+
  moreover have "x \<in> set (sys_open \<sigma>)"
    if "proc \<sigma>' x = Some q" "establishing (up_phase q)" "up_phase q \<noteq> Launched" "up_phase q \<noteq> Failing" for x q
    using that register socket_of [OF assms(2)] by (auto simp: proc_set_phase split: if_splits)
  ultimately show ?thesis unfolding sockets_ok_ids using register by auto
next
  case (count h p c)
  have "x \<in> set (sys_open \<sigma>)"
    if "proc \<sigma>' x = Some q" "establishing (up_phase q)" "up_phase q \<noteq> Launched" "up_phase q \<noteq> Failing" for x q
    using that count socket_of [OF assms(2)] by (auto simp: proc_set_phase split: if_splits)
  with count show ?thesis
    by (intro sockets_frame [OF _ _ _ assms(2)]) (auto simp: view_set_phase)
qed

lemma claims_flows_step:
  assumes "udp_internal s \<sigma> e \<sigma>'" and "sockets_ok \<sigma>" and ok: "claims_ok \<sigma>" "flows_ok \<sigma>"
  shows "claims_ok \<sigma>' \<and> flows_ok \<sigma>'"
  using assms(1)
proof cases
  case (role h p uls ph)
  note f = choose_role_frame [OF role(5)]
  have "flow_ids uls = flow_ids (sys_uls \<sigma>)" using f by (simp add: flow_ids_def fun_eq_iff)
  with role f show ?thesis by (intro quiet_step [OF _ _ _ _ _ ok]) (simp_all add: view_set_phase)
next
  case (failed h p)
  then show ?thesis by (intro failed_step [OF _ _ ok]) auto
next
  case (register h p now c)
  then show ?thesis using socket_of [OF assms(2) register(3)] by (intro register_step [OF _ _ ok]) auto
qed (rule quiet_step [OF _ _ _ _ _ ok]; auto simp: view_set_phase)+

subsection \<open>Wake-ups\<close>

lemma wakeups_phase:
  assumes ok: "wakeups_ok \<sigma>" and p: "proc \<sigma> h = Some p"
    and \<sigma>': "map_of (sys_procs \<sigma>') = (map_of (sys_procs \<sigma>))(h \<mapsto> p\<lparr>up_phase := ph\<rparr>)"
    and old: "uls_upstreamStarting (sys_uls \<sigma>) \<Longrightarrow> uls_upstreamStarting (sys_uls \<sigma>')"
    and new: "uls_upstreamStarting (sys_uls \<sigma>') \<Longrightarrow> leading ph \<or> uls_upstreamStarting (sys_uls \<sigma>) \<and> \<not> leading (up_phase p)"
    and ph: "ph = Waiting False \<Longrightarrow> uls_upstreamStarting (sys_uls \<sigma>')" "ph \<noteq> Probing 0"
  shows "wakeups_ok \<sigma>'"
  unfolding wakeups_ok_def
proof (intro conjI allI impI)
  fix x q assume q: "proc \<sigma>' x = Some q \<and> up_phase q = Waiting False"
  show "uls_upstreamStarting (sys_uls \<sigma>')"
  proof (cases "x = h")
    case True with q ph(1) show ?thesis by (auto simp: \<sigma>')
  next
    case False
    with q ok have "uls_upstreamStarting (sys_uls \<sigma>)" unfolding wakeups_ok_def \<sigma>' by auto
    then show ?thesis by (rule old)
  qed
next
  assume st: "uls_upstreamStarting (sys_uls \<sigma>')"
  from new [OF st] show "\<exists>x q. proc \<sigma>' x = Some q \<and> leading (up_phase q)"
  proof
    assume "leading ph"
    then have "proc \<sigma>' h = Some (p\<lparr>up_phase := ph\<rparr>) \<and> leading (up_phase (p\<lparr>up_phase := ph\<rparr>))" by (simp add: \<sigma>')
    then show ?thesis by blast
  next
    assume a: "uls_upstreamStarting (sys_uls \<sigma>) \<and> \<not> leading (up_phase p)"
    with ok obtain x q where "proc \<sigma> x = Some q" "leading (up_phase q)" unfolding wakeups_ok_def by blast
    with a p have "proc \<sigma>' x = Some q \<and> leading (up_phase q)" by (auto simp: \<sigma>')
    then show ?thesis by blast
  qed
next
  fix x q assume "proc \<sigma>' x = Some q"
  with ok ph(2) show "up_phase q \<noteq> Probing 0" unfolding wakeups_ok_def \<sigma>' by (auto split: if_splits)
qed

lemma wakeups_none_starting:
  assumes "wakeups_ok \<sigma>" and "\<not> uls_upstreamStarting (sys_uls \<sigma>')"
    and "\<And>x q. proc \<sigma>' x = Some q \<Longrightarrow> up_phase q \<noteq> Probing 0 \<and> up_phase q \<noteq> Waiting False"
  shows "wakeups_ok \<sigma>'"
  using assms(2,3) unfolding wakeups_ok_def by blast

lemma udp_retries_pos: "udp_retries u \<noteq> 0"
  using retry_budget_pos [of "uls_startTimeout u" udpReadinessInterval] by (simp add: udp_retries_def)

lemma wakeups_step:
  assumes "udp_internal s \<sigma> e \<sigma>'" and ok: "wakeups_ok \<sigma>"
  shows "wakeups_ok \<sigma>'"
  using assms(1)
proof cases
  case (start_failed h p a eff)
  then show ?thesis by (intro wakeups_phase [OF ok start_failed(3)]) (auto simp: proc_set_phase)
next
  case (started h p a eff)
  then show ?thesis by (intro wakeups_phase [OF ok started(3)]) (auto simp: proc_set_phase)
next
  case (role h p uls ph)
  then show ?thesis using udp_retries_pos [of "sys_uls \<sigma>"]
    by (intro wakeups_phase [OF ok role(3)])
      (auto simp: proc_set_phase choose_role_def follower_look_def leading_def not0_implies_Suc split: if_splits)
next
  case (woken h p)
  then show ?thesis
    by (intro wakeups_phase [OF ok woken(3)]) (auto simp: proc_set_phase follower_look_def split: if_splits)
next
  case (probe h p left a)
  then show ?thesis
    by (intro wakeups_phase [OF ok probe(3)])
      (auto simp: proc_set_phase probe_attempt_def leading_def not0_implies_Suc split: if_splits probe_answer.splits)
next
  case (publish h p r ph)
  have "up_phase q \<noteq> Probing 0 \<and> up_phase q \<noteq> Waiting False" if q: "proc \<sigma>' x = Some q" for x q
  proof -
    obtain q0 where q0: "proc (set_phase h ph \<sigma>) x = Some q0" "q = wake q0"
      using q publish(1) by auto
    have "up_phase q0 \<noteq> Probing 0"
      using q0(1) publish ok unfolding wakeups_ok_def by (auto simp: proc_set_phase published_def split: if_splits)
    with q0(2) show ?thesis by simp
  qed
  then show ?thesis using publish by (intro wakeups_none_starting [OF ok]) auto
next
  case (direct h p a)
  then show ?thesis
    by (intro wakeups_phase [OF ok direct(3)])
      (auto simp: proc_set_phase direct_send_def split: probe_answer.splits)
next
  case (failed h p)
  then have "\<not> leading (up_phase p)" by simp
  then have other: "proc \<sigma>' x = Some q" if "proc \<sigma> x = Some q" "leading (up_phase q)" for x q
    using that failed by auto
  have old: "proc \<sigma> x = Some q" if "proc \<sigma>' x = Some q" for x q using that failed by (auto split: if_splits)
  have st: "uls_upstreamStarting (sys_uls \<sigma>') = uls_upstreamStarting (sys_uls \<sigma>)" using failed by simp
  show ?thesis using ok old other unfolding wakeups_ok_def st by blast
next
  case (register h p now c)
  then show ?thesis by (intro wakeups_phase [OF ok register(3)]) (auto simp: proc_set_phase)
next
  case (count h p c)
  then show ?thesis by (intro wakeups_phase [OF ok count(3)]) (auto simp: proc_set_phase)
qed

subsection \<open>The gauge\<close>

lemma reading_set_phase:
  assumes "proc \<sigma> h = Some p"
  shows "map_total reading (sys_procs (set_phase h ph \<sigma>)) + reading p
    = map_total reading (sys_procs \<sigma>) + (if ph = Reading then 1 else 0)"
  using map_total_update [OF assms, of reading "p\<lparr>up_phase := ph\<rparr>"] assms by (simp add: set_phase_def reading_def)

lemma gauge_phase:
  assumes "gauge_ok \<sigma>" and "proc \<sigma> h = Some p" and "up_phase p \<noteq> Reading" and "ph \<noteq> Reading"
    and "sys_procs \<sigma>' = sys_procs (set_phase h ph \<sigma>)"
    and "uls_activeFlows (sys_uls \<sigma>') = uls_activeFlows (sys_uls \<sigma>)"
  shows "gauge_ok \<sigma>'"
  using assms reading_set_phase [OF assms(2), of ph] by (simp add: gauge_ok_def reading_def)

lemma gauge_step:
  assumes "udp_internal s \<sigma> e \<sigma>'" and ok: "gauge_ok \<sigma>" and kd: "keys_distinct (sys_procs \<sigma>)"
  shows "gauge_ok \<sigma>'"
  using assms(1)
proof cases
  case (role h p uls ph)
  then show ?thesis using choose_role_frame [OF role(5)] by (intro gauge_phase [OF ok role(3), of ph]) auto
next
  case (failed h p)
  then show ?thesis using ok map_total_delete [OF kd failed(3), of reading]
    by (simp add: gauge_ok_def end_proc_def reading_def)
next
  case (publish h p r ph)
  then have "reading p = 0" "ph \<noteq> Reading" by (auto simp: reading_def published_def split: if_splits)
  with publish show ?thesis using ok reading_set_phase [OF publish(2), of ph]
    by (simp add: gauge_ok_def udp_broadcast_def)
next
  case (count h p c)
  then have "map_total reading (sys_procs \<sigma>') = map_total reading (sys_procs \<sigma>) + 1"
    using reading_set_phase [OF count(3), of Reading] by (simp add: reading_def)
  with count ok show ?thesis by (simp add: gauge_ok_def flow_counted_def add.commute [of 1])
next
  case (start_failed h p a eff)
  then show ?thesis by (intro gauge_phase [OF ok start_failed(3), of Failing]) auto
next
  case (started h p a eff)
  then show ?thesis by (intro gauge_phase [OF ok started(3), of Dialled]) auto
next
  case (woken h p)
  then show ?thesis
    by (intro gauge_phase [OF ok woken(3), of "follower_look (sys_uls \<sigma>)"]) (auto simp: follower_look_def)
next
  case (probe h p left a)
  then show ?thesis
    by (intro gauge_phase [OF ok probe(3), of "probe_attempt left a"]) (auto simp: probe_attempt_def split: probe_answer.splits)
next
  case (direct h p a)
  then show ?thesis
    by (intro gauge_phase [OF ok direct(3), of "direct_send a"]) (auto simp: direct_send_def split: probe_answer.splits)
next
  case (register h p now c)
  then show ?thesis by (intro gauge_phase [OF ok register(3), of Registered]) auto
qed


subsection \<open>Steps from outside\<close>

lemma dispatch_cases:
  assumes "udp_dispatch now u client = (u', d)"
  obtains "d = DropBlocked \<or> d = DropPending" "u' = u"
    | "d = StartFlow"
    | fl where "d = Forward (fl_upstreamConn fl)" "map_of (uls_flows u) (UDPAddr_String client) = Some fl"
        "u' = u\<lparr>uls_flows := AList.update (UDPAddr_String client) (fl\<lparr>fl_lastActive := now\<rparr>) (uls_flows u), uls_lastActive := now\<rparr>"
proof (cases "ipBlocked (UDPAddr_String client) (uls_info u)")
  case True
  with assms show ?thesis by (intro that(1)) (simp_all add: udp_dispatch_def)
next
  case open_: False
  show ?thesis
  proof (cases "map_of (uls_flows u) (UDPAddr_String client)")
    case None
    with assms open_ show ?thesis
      by (cases "UDPAddr_String client \<in> set (uls_pending u)")
        (simp add: udp_dispatch_def that(1), simp add: udp_dispatch_def Let_def that(2))
  next
    case (Some fl)
    with assms open_ show ?thesis by (intro that(3) [OF _ Some]) (simp_all add: udp_dispatch_def Let_def)
  qed
qed

text \<open>Steps that leave the goroutines and sockets alone and keep every flow's identity.\<close>

lemma udp_ok_uls:
  assumes ok: "udp_ok \<sigma>" and "flow_ids u = flow_ids (sys_uls \<sigma>)" and "uls_pending u = uls_pending (sys_uls \<sigma>)"
    and "keys_distinct (uls_flows u)" and "uls_activeFlows u = uls_activeFlows (sys_uls \<sigma>)"
    and "uls_upstreamStarting u = uls_upstreamStarting (sys_uls \<sigma>)"
  shows "udp_ok (set_uls u \<sigma>)"
proof -
  have "claims_ok (set_uls u \<sigma>) \<and> flows_ok (set_uls u \<sigma>)"
    using ok assms(2-4) unfolding udp_ok_def by (intro quiet_step [of _ \<sigma>]) simp_all
  moreover have "sockets_ok (set_uls u \<sigma>)"
  proof (rule sockets_frame)
    show so: "sockets_ok \<sigma>" using ok by (simp add: udp_ok_def)
    show "x \<in> set (sys_open \<sigma>)" if "proc (set_uls u \<sigma>) x = Some q" "establishing (up_phase q)"
      "up_phase q \<noteq> Launched" "up_phase q \<noteq> Failing" for x q
      using socket_of [OF so, of x q] that by simp
  qed (simp_all add: assms(2))
  ultimately show ?thesis using ok assms(5,6) by (simp add: udp_ok_def wakeups_ok_def gauge_ok_def)
qed

lemma claims_cong:
  assumes "\<And>x c. view \<sigma>' x = Some (c, True) \<longleftrightarrow> view \<sigma> x = Some (c, True)"
    and "set (uls_pending (sys_uls \<sigma>')) = set (uls_pending (sys_uls \<sigma>))" and "claims_ok \<sigma>"
  shows "claims_ok \<sigma>'"
  using assms(3) unfolding claims_ok_view assms(1,2) .

lemma launch_ok:
  assumes ok: "udp_ok \<sigma>" and d: "udp_dispatch now (sys_uls \<sigma>) client = (u, StartFlow)"
    and fresh: "proc \<sigma> h = None" "h \<notin> set (sys_open \<sigma>)"
    and \<sigma>': "\<sigma>' = set_uls u (\<sigma>\<lparr>sys_procs := (h, \<lparr>up_client = client, up_first = data, up_phase = Launched\<rparr>) # sys_procs \<sigma>\<rparr>)"
  shows "udp_ok \<sigma>'"
proof -
  have cf: "claims_ok \<sigma>' \<and> flows_ok \<sigma>'"
    using ok unfolding udp_ok_def by (intro launch_step [OF d fresh _ _ \<sigma>']) auto
  have u: "flow_ids u = flow_ids (sys_uls \<sigma>)" "uls_activeFlows u = uls_activeFlows (sys_uls \<sigma>)"
    "uls_upstreamStarting u = uls_upstreamStarting (sys_uls \<sigma>)"
    using d by (auto simp: udp_dispatch_def Let_def flow_ids_def fun_eq_iff split: if_splits option.splits)
  have v': "view \<sigma>' = (view \<sigma>)(h \<mapsto> (client, True))" by (auto simp: \<sigma>' view_def fun_eq_iff)
  have "sockets_ok \<sigma>'"
    using ok fresh(2) unfolding udp_ok_def sockets_ok_ids v' by (auto simp: \<sigma>' u)
  moreover have "wakeups_ok \<sigma>'"
  proof -
    have keep: "proc \<sigma>' x = Some q" if "proc \<sigma> x = Some q" for x q using that fresh(1) by (auto simp: \<sigma>')
    have old: "proc \<sigma> x = Some q" if "proc \<sigma>' x = Some q" "up_phase q \<noteq> Launched" for x q
      using that by (auto simp: \<sigma>' split: if_splits)
    have st: "uls_upstreamStarting (sys_uls \<sigma>') = uls_upstreamStarting (sys_uls \<sigma>)" by (simp add: \<sigma>' u)
    have w: "wakeups_ok \<sigma>" using ok by (simp add: udp_ok_def)
    show ?thesis unfolding wakeups_ok_def st
    proof (intro conjI allI impI)
      fix x q assume "proc \<sigma>' x = Some q \<and> up_phase q = Waiting False"
      then show "uls_upstreamStarting (sys_uls \<sigma>)" using old [of x q] w unfolding wakeups_ok_def by auto
    next
      assume "uls_upstreamStarting (sys_uls \<sigma>)"
      then show "\<exists>x q. proc \<sigma>' x = Some q \<and> leading (up_phase q)" using w keep unfolding wakeups_ok_def by blast
    next
      fix x q assume "proc \<sigma>' x = Some q"
      then show "up_phase q \<noteq> Probing 0" using old [of x q] w unfolding wakeups_ok_def by auto
    qed
  qed
  moreover have "gauge_ok \<sigma>'" using ok by (simp add: \<sigma>' u udp_ok_def gauge_ok_def reading_def)
  moreover have "keys_distinct (sys_procs \<sigma>')"
    using ok fresh(1) by (auto simp: \<sigma>' udp_ok_def keys_distinct_def map_of_eq_None_iff)
  ultimately show ?thesis using cf by (simp add: udp_ok_def)
qed

lemma read_error_ok:
  assumes ok: "udp_ok \<sigma>" and p: "proc \<sigma> h = Some p" "up_phase p = Reading"
    and \<sigma>': "\<sigma>' = end_proc h (set_uls (flow_ended (sys_uls \<sigma>)) \<sigma>)"
  shows "udp_ok \<sigma>'"
proof -
  have v: "view \<sigma> h = Some (up_client p, False)" using p by (simp add: view_def)
  have at: "view \<sigma>' x = Some (c, True) \<longleftrightarrow> view \<sigma> x = Some (c, True)" for x c using v by (auto simp: \<sigma>')
  have old: "proc \<sigma>' x = Some q \<longleftrightarrow> x \<noteq> h \<and> proc \<sigma> x = Some q" for x q by (auto simp: \<sigma>')
  have "claims_ok \<sigma>'" using ok unfolding udp_ok_def by (intro claims_cong [of \<sigma>' \<sigma>]) (simp_all only: at, simp add: \<sigma>')
  moreover have "flows_ok \<sigma>'" using ok unfolding udp_ok_def flows_ok_ids at by (simp add: \<sigma>')
  moreover have "sockets_ok \<sigma>'" using ok unfolding udp_ok_def sockets_ok_ids at by (simp add: \<sigma>')
  moreover have "wakeups_ok \<sigma>'"
  proof -
    have st: "uls_upstreamStarting (sys_uls \<sigma>') = uls_upstreamStarting (sys_uls \<sigma>)" by (simp add: \<sigma>')
    have "x \<noteq> h" if "proc \<sigma> x = Some q" "leading (up_phase q)" for x q using that p by auto
    then show ?thesis using ok unfolding udp_ok_def wakeups_ok_def st old by blast
  qed
  moreover have "gauge_ok \<sigma>'"
    using ok map_total_delete [OF _ p(1), of reading, symmetric] p(2)
    by (simp add: udp_ok_def gauge_ok_def \<sigma>' end_proc_def flow_ended_def reading_def [of p])
  moreover have "keys_distinct (sys_procs \<sigma>')" using ok by (simp add: \<sigma>' udp_ok_def)
  ultimately show ?thesis by (simp add: udp_ok_def)
qed

lemma sweep_ok:
  assumes ok: "udp_ok \<sigma>" and sw: "sweep_flows now s (sys_uls \<sigma>) = (u, hs, eff)"
    and \<sigma>': "\<sigma>' = close_sockets hs (set_uls u \<sigma>)"
  shows "udp_ok \<sigma>'"
proof -
  have kd: "keys_distinct (uls_flows (sys_uls \<sigma>))" using ok by (simp add: udp_ok_def flows_ok_def)
  note fr = sweep_frame [OF sw kd]
  have u: "uls_pending u = uls_pending (sys_uls \<sigma>)" "uls_activeFlows u = uls_activeFlows (sys_uls \<sigma>)"
    "uls_upstreamStarting u = uls_upstreamStarting (sys_uls \<sigma>)"
    by (subst fr(1), simp)+
  have sub: "flow_ids (sys_uls \<sigma>) k = Some (c, h)" if "flow_ids u k = Some (c, h)" for k c h
    using that by (auto simp: flow_ids_def fr(3) split: option.splits if_splits)
  have f: "flows_ok \<sigma>" and so: "sockets_ok \<sigma>" and cl: "claims_ok \<sigma>" using ok by (simp_all add: udp_ok_def)
  have swept: "h \<in> set hs \<longleftrightarrow> (\<exists>k c. flow_ids (sys_uls \<sigma>) k = Some (c, h) \<and> flow_ids u k = None)" for h
    unfolding fr(4) flow_ids_def fr(3) by (auto split: if_splits) (metis option.simps(9))+
  have kept: "h \<notin> set hs" if "flow_ids u k = Some (c, h)" for k c h
    using sub [OF that] that f unfolding swept flows_ok_ids by (metis option.distinct(1))
  have "claims_ok \<sigma>'" by (rule claims_cong [OF _ _ cl]) (simp_all add: \<sigma>' u)
  moreover have "flows_ok \<sigma>'"
    unfolding flows_ok_ids
  proof (intro conjI allI impI, goal_cases)
    case 1 then show ?case using fr(2) by (simp add: \<sigma>')
  next
    case (2 k c h) then show ?case using sub f u(1) unfolding flows_ok_ids by (simp add: \<sigma>')
  next
    case (3 k c h) then show ?case using sub f unfolding flows_ok_ids by (simp add: \<sigma>')
  next
    case (4 k c h) then show ?case using sub kept f unfolding flows_ok_ids by (simp add: \<sigma>') blast
  next
    case (5 k c h d)
    then have "flow_ids (sys_uls \<sigma>) k = Some (c, h)" using sub by (simp add: \<sigma>')
    with f have "view \<sigma> h \<noteq> Some (d, True)" unfolding flows_ok_ids by blast
    then show ?case by (simp add: \<sigma>')
  next
    case (6 k c k' c' h)
    then have "flow_ids (sys_uls \<sigma>) k = Some (c, h)" "flow_ids (sys_uls \<sigma>) k' = Some (c', h)"
      using sub by (simp_all add: \<sigma>')
    with f show ?case unfolding flows_ok_ids by blast
  qed
  moreover have "sockets_ok \<sigma>'"
    unfolding sockets_ok_ids
  proof (intro conjI ballI allI impI, goal_cases)
    case (1 h)
    then have "h \<in> set (sys_open \<sigma>)" and "h \<notin> set hs" by (auto simp: \<sigma>')
    then show ?case using so unfolding sockets_ok_ids swept by (simp add: \<sigma>') (metis not_None_eq sub surj_pair option.inject)
  next
    case (2 h p)
    then have p: "proc \<sigma> h = Some p" "establishing (up_phase p)" "h \<in> set (sys_open \<sigma>)"
      using socket_of [OF so] by (auto simp: \<sigma>')
    then have "view \<sigma> h = Some (up_client p, True)" by (simp add: view_def)
    then have "h \<notin> set hs" using f unfolding swept flows_ok_ids by metis
    then show ?case using p by (simp add: \<sigma>')
  qed
  moreover have "wakeups_ok \<sigma>'" using ok by (simp add: udp_ok_def wakeups_ok_def \<sigma>' u)
  moreover have "gauge_ok \<sigma>'" using ok by (simp add: udp_ok_def gauge_ok_def \<sigma>' u)
  ultimately show ?thesis using ok by (simp add: udp_ok_def \<sigma>')
qed

lemma udp_ok_internal:
  assumes "udp_internal s \<sigma> e \<sigma>'" and "udp_ok \<sigma>"
  shows "udp_ok \<sigma>'"
proof -
  have "keys_distinct (sys_procs \<sigma>')" using assms by cases (simp_all add: udp_ok_def)
  with assms(2) show ?thesis
    using claims_flows_step [OF assms(1)] sockets_step [OF assms(1)] wakeups_step [OF assms(1)]
      gauge_step [OF assms(1)]
    unfolding udp_ok_def by blast
qed

lemma udp_ok_stopped:
  assumes ok: "udp_ok \<sigma>"
  shows "udp_ok (let \<sigma>' = set_uls (reset_upstream (sys_uls \<sigma>)) \<sigma> in
        if uls_upstreamStarting (sys_uls \<sigma>) then udp_broadcast \<sigma>' else \<sigma>')"
proof (cases "uls_upstreamStarting (sys_uls \<sigma>)")
  case False
  have "udp_ok (set_uls (reset_upstream (sys_uls \<sigma>)) \<sigma>)"
    using ok False by (intro udp_ok_uls) (auto simp: udp_ok_def flows_ok_def)
  with False show ?thesis by simp
next
  case True
  let ?\<sigma> = "udp_broadcast (set_uls (reset_upstream (sys_uls \<sigma>)) \<sigma>)"
  have "claims_ok ?\<sigma> \<and> flows_ok ?\<sigma>"
    using ok unfolding udp_ok_def by (intro quiet_step [of _ \<sigma>]) (auto simp: flows_ok_def)
  moreover have "sockets_ok ?\<sigma>"
  proof (rule sockets_frame)
    show so: "sockets_ok \<sigma>" using ok by (simp add: udp_ok_def)
    show "x \<in> set (sys_open \<sigma>)" if "proc ?\<sigma> x = Some q" "establishing (up_phase q)"
      "up_phase q \<noteq> Launched" "up_phase q \<noteq> Failing" for x q
      using socket_of [OF so] that by auto
  qed simp_all
  moreover have "wakeups_ok ?\<sigma>"
  proof (rule wakeups_none_starting)
    show w: "wakeups_ok \<sigma>" using ok by (simp add: udp_ok_def)
    show "up_phase q \<noteq> Probing 0 \<and> up_phase q \<noteq> Waiting False" if "proc ?\<sigma> x = Some q" for x q
    proof -
      from that obtain q0 where "proc \<sigma> x = Some q0" "q = wake q0" by auto
      then show ?thesis using w unfolding wakeups_ok_def by simp
    qed
  qed simp
  moreover have "gauge_ok ?\<sigma>" using ok by (simp add: udp_ok_def gauge_ok_def udp_broadcast_def)
  ultimately have "udp_ok ?\<sigma>" using ok by (simp add: udp_ok_def)
  with True show ?thesis by simp
qed

lemma udp_ok_external:
  assumes "udp_external s \<sigma> e \<sigma>'" and ok: "udp_ok \<sigma>"
  shows "udp_ok \<sigma>'"
  using assms(1)
proof cases
  case (dropped now client uls d)
  from dropped(4) have "uls = sys_uls \<sigma>"
    by (rule dispatch_cases) (use dropped(5) in auto)
  with dropped ok show ?thesis by (simp add: set_uls_def)
next
  case (launch now client uls h data)
  then show ?thesis by (intro launch_ok [OF ok]) auto
next
  case (forward now client uls conn data written)
  from forward(4) obtain fl where fl: "map_of (uls_flows (sys_uls \<sigma>)) (UDPAddr_String client) = Some fl"
    and u: "uls = (sys_uls \<sigma>)\<lparr>uls_flows := AList.update (UDPAddr_String client) (fl\<lparr>fl_lastActive := now\<rparr>)
      (uls_flows (sys_uls \<sigma>)), uls_lastActive := now\<rparr>"
    by (rule dispatch_cases) auto
  have "flow_ids uls = flow_ids (sys_uls \<sigma>)"
    by (rule ext) (simp add: u flow_ids_def update_conv' fl)
  with forward(2) show ?thesis
    using ok by (simp only:) (intro udp_ok_uls [OF ok], auto simp: u udp_ok_def flows_ok_def)
next
  case (reply h p data written now)
  have "keys_distinct (uls_flows (touch_flow now h (sys_uls \<sigma>)))"
    using ok by (simp add: udp_ok_def flows_ok_def touch_flow_def)
  with reply show ?thesis by (simp add: udp_ok_uls [OF ok])
next
  case (read_error h p ms)
  then show ?thesis by (intro read_error_ok [OF ok]) auto
next
  case (sweep now uls hs eff)
  then show ?thesis by (intro sweep_ok [OF ok]) auto
next
  case stopped
  with udp_ok_stopped [OF ok] show ?thesis by simp
next
  case removed
  moreover have "keys_distinct (uls_flows (sys_uls \<sigma>))" using ok by (simp add: udp_ok_def flows_ok_def)
  ultimately show ?thesis by (simp add: udp_ok_uls [OF ok])
qed

subsection \<open>Reachable states\<close>

text \<open>A listener as \<open>RegisterTarget\<close> creates it, with no goroutine.\<close>

definition udp_init :: "ProxyServer \<Rightarrow> TargetInfo \<Rightarrow> PortMapping \<Rightarrow> udp_sys" where
  "udp_init s info m = \<lparr>sys_uls = new_udp s info m, sys_procs = [], sys_open = []\<rparr>"

inductive udp_reachable :: "ProxyServer \<Rightarrow> TargetInfo \<Rightarrow> PortMapping \<Rightarrow> udp_sys \<Rightarrow> bool" for s info m where
  init: "udp_reachable s info m (udp_init s info m)"
| internal: "udp_reachable s info m \<sigma> \<Longrightarrow> udp_internal s \<sigma> e \<sigma>' \<Longrightarrow> udp_reachable s info m \<sigma>'"
| external: "udp_reachable s info m \<sigma> \<Longrightarrow> udp_external s \<sigma> e \<sigma>' \<Longrightarrow> udp_reachable s info m \<sigma>'"

lemma udp_ok_init: "udp_ok (udp_init s info m)"
  by (simp add: udp_ok_def udp_init_def new_udp_def claims_ok_def flows_ok_def sockets_ok_def wakeups_ok_def gauge_ok_def)

lemma udp_reachable_ok: "udp_reachable s info m \<sigma> \<Longrightarrow> udp_ok \<sigma>"
  by (induction rule: udp_reachable.induct) (auto intro: udp_ok_init udp_ok_internal udp_ok_external)

subsection \<open>Establishing ends\<close>

text \<open>How many more steps a goroutine can need, given the leader's retry budget; waking a follower is counted apart.\<close>

fun phase_cost :: "nat \<Rightarrow> udp_phase \<Rightarrow> nat" where
  "phase_cost n Launched = n + 8"
| "phase_cost n Dialled = n + 7"
| "phase_cost n (Waiting w) = 5"
| "phase_cost n (Probing k) = k + 6"
| "phase_cost n (Publishing r) = 6"
| "phase_cost n Direct = 4"
| "phase_cost n Ready = 3"
| "phase_cost n Registered = 2"
| "phase_cost n Failing = 1"
| "phase_cost n Reading = 0"

definition awake :: "udp_proc \<Rightarrow> nat" where
  "awake p = (if up_phase p = Waiting True then 1 else 0)"

definition work :: "udp_sys \<Rightarrow> nat" where
  "work \<sigma> = map_total (\<lambda>p. phase_cost (udp_retries (sys_uls \<sigma>)) (up_phase p)) (sys_procs \<sigma>)"

definition settle_bound :: "udp_sys \<Rightarrow> nat" where
  "settle_bound \<sigma> = work \<sigma> * (length (sys_procs \<sigma>) + 1) + map_total awake (sys_procs \<sigma>)"

text \<open>\<open>n\<close> steps of the establishing goroutines.\<close>

inductive udp_internals :: "ProxyServer \<Rightarrow> nat \<Rightarrow> udp_sys \<Rightarrow> udp_sys \<Rightarrow> bool" for s where
  none: "udp_internals s 0 \<sigma> \<sigma>"
| more: "udp_internal s \<sigma> e \<sigma>1 \<Longrightarrow> udp_internals s n \<sigma>1 \<sigma>' \<Longrightarrow> udp_internals s (Suc n) \<sigma> \<sigma>'"


lemma retries_frame:
  assumes "udp_internal s \<sigma> e \<sigma>'"
  shows "udp_retries (sys_uls \<sigma>') = udp_retries (sys_uls \<sigma>)"
  using assms by cases (auto simp: udp_retries_def choose_role_def udp_publish_def udp_cleanup_def register_flow_def
      flow_counted_def Let_def split: if_splits)

lemma awake_le: "map_total awake m \<le> length m"
  by (induction m) (auto simp: awake_def)

lemma length_update_existing: "map_of m k = Some v \<Longrightarrow> length (AList.update k w m) = length m"
  by (induction m) auto

lemma work_phase:
  assumes "proc \<sigma> h = Some p" and "sys_procs \<sigma>' = sys_procs (set_phase h ph \<sigma>)"
    and "udp_retries (sys_uls \<sigma>') = udp_retries (sys_uls \<sigma>)"
  shows "work \<sigma>' + phase_cost (udp_retries (sys_uls \<sigma>)) (up_phase p)
      = work \<sigma> + phase_cost (udp_retries (sys_uls \<sigma>)) ph"
    and "length (sys_procs \<sigma>') = length (sys_procs \<sigma>)"
    and "map_total awake (sys_procs \<sigma>') + awake p = map_total awake (sys_procs \<sigma>) + (if ph = Waiting True then 1 else 0)"
  using map_total_update [OF assms(1), of "\<lambda>p. phase_cost (udp_retries (sys_uls \<sigma>)) (up_phase p)" "p\<lparr>up_phase := ph\<rparr>"]
    map_total_update [OF assms(1), of awake "p\<lparr>up_phase := ph\<rparr>"] assms
  by (simp_all add: work_def set_phase_def length_update_existing awake_def)

lemma less_work_settles:
  assumes "work \<sigma>' < work \<sigma>" and "length (sys_procs \<sigma>') \<le> length (sys_procs \<sigma>)"
  shows "settle_bound \<sigma>' < settle_bound \<sigma>"
proof -
  have "settle_bound \<sigma>' \<le> work \<sigma>' * (length (sys_procs \<sigma>) + 1) + length (sys_procs \<sigma>)"
    unfolding settle_bound_def using assms(2) awake_le [of "sys_procs \<sigma>'"]
    by (intro add_mono mult_le_mono2) auto
  also have "\<dots> < (work \<sigma>' + 1) * (length (sys_procs \<sigma>) + 1)" by simp
  also have "\<dots> \<le> work \<sigma> * (length (sys_procs \<sigma>) + 1)" using assms(1) by (intro mult_le_mono1) simp
  finally show ?thesis by (simp add: settle_bound_def)
qed

lemma phase_settles:
  assumes "proc \<sigma> h = Some p" and "sys_procs \<sigma>' = sys_procs (set_phase h ph \<sigma>)"
    and "udp_retries (sys_uls \<sigma>') = udp_retries (sys_uls \<sigma>)"
    and "phase_cost (udp_retries (sys_uls \<sigma>)) ph < phase_cost (udp_retries (sys_uls \<sigma>)) (up_phase p)"
  shows "settle_bound \<sigma>' < settle_bound \<sigma>"
  using work_phase [OF assms(1-3)] assms(4) by (intro less_work_settles) simp_all

lemma internal_settles:
  assumes "udp_internal s \<sigma> e \<sigma>'" and kd: "keys_distinct (sys_procs \<sigma>)"
  shows "settle_bound \<sigma>' < settle_bound \<sigma>"
proof -
  note fr = retries_frame [OF assms(1)]
  show ?thesis using assms(1)
  proof cases
    case (start_failed h p a eff)
    then show ?thesis by (intro phase_settles [OF start_failed(3) _ fr, of Failing]) simp_all
  next
    case (started h p a eff)
    then show ?thesis by (intro phase_settles [OF started(3) _ fr, of Dialled]) simp_all
  next
    case (role h p uls ph)
    then show ?thesis
      by (intro phase_settles [OF role(3) _ fr, of ph])
        (auto simp: choose_role_def follower_look_def split: if_splits)
  next
    case (woken h p)
    show ?thesis
    proof (cases "follower_look (sys_uls \<sigma>) = Waiting False")
      case True
      then show ?thesis
        using work_phase [OF woken(3) _ fr, of "follower_look (sys_uls \<sigma>)"] woken by (simp add: settle_bound_def awake_def)
    next
      case False
      with woken show ?thesis
        by (intro phase_settles [OF woken(3) _ fr, of "follower_look (sys_uls \<sigma>)"])
          (auto simp: follower_look_def split: if_splits)
    qed
  next
    case (probe h p left a)
    then show ?thesis
      by (intro phase_settles [OF probe(3) _ fr, of "probe_attempt left a"])
        (auto simp: probe_attempt_def split: probe_answer.splits)
  next
    case (publish h p r ph)
    let ?\<sigma>1 = "set_uls (udp_publish r (sys_uls \<sigma>)) (set_phase h ph \<sigma>)"
    have r: "udp_retries (sys_uls ?\<sigma>1) = udp_retries (sys_uls \<sigma>)" by (simp add: udp_publish_def udp_retries_def)
    have "phase_cost n (up_phase (wake q)) = phase_cost n (up_phase q)" for n q
      by (auto simp: wake_def split: udp_phase.splits)
    then have "work \<sigma>' = work ?\<sigma>1" "length (sys_procs \<sigma>') = length (sys_procs ?\<sigma>1)"
      using publish(1) by (simp_all add: work_def udp_broadcast_def, simp add: map_values_def)
    moreover have "phase_cost (udp_retries (sys_uls \<sigma>)) ph < phase_cost (udp_retries (sys_uls \<sigma>)) (up_phase p)"
      using publish by (auto simp: published_def split: if_splits)
    ultimately show ?thesis
      using work_phase [OF publish(2) _ r, of ph] by (intro less_work_settles) simp_all
  next
    case (direct h p a)
    then show ?thesis
      by (intro phase_settles [OF direct(3) _ fr, of "direct_send a"])
        (auto simp: direct_send_def split: probe_answer.splits)
  next
    case (failed h p)
    then have "work \<sigma>' + 1 = work \<sigma>"
      using map_total_delete [OF kd failed(3), of "\<lambda>p. phase_cost (udp_retries (sys_uls \<sigma>)) (up_phase p)"] fr
      by (simp add: work_def end_proc_def)
    with failed show ?thesis by (intro less_work_settles) (simp_all add: end_proc_def length_delete_le)
  next
    case (register h p now c)
    then show ?thesis by (intro phase_settles [OF register(3) _ fr, of Registered]) simp_all
  next
    case (count h p c)
    then show ?thesis by (intro phase_settles [OF count(3) _ fr, of Reading]) simp_all
  qed
qed

lemma internals_bounded:
  "udp_internals s n \<sigma> \<sigma>' \<Longrightarrow> udp_ok \<sigma> \<Longrightarrow> n \<le> settle_bound \<sigma> \<and> udp_ok \<sigma>'"
proof (induction rule: udp_internals.induct)
  case (more \<sigma> e \<sigma>1 n \<sigma>')
  have "keys_distinct (sys_procs \<sigma>)" using more.prems by (simp add: udp_ok_def)
  from internal_settles [OF more.hyps(1) this] more.IH udp_ok_internal [OF more.hyps(1) more.prems]
  show ?case by simp
qed simp

text \<open>A goroutine that still establishes can move, or sleeps while its leader can.\<close>

lemma awake_can_step:
  assumes p: "proc \<sigma> h = Some p" and ph: "up_phase p \<notin> {Reading, Waiting False, Probing 0}"
  shows "\<exists>e \<sigma>'. udp_internal s \<sigma> e \<sigma>'"
proof (cases "up_phase p")
  case Launched
  let ?a = "\<lparr>sa_ensured = True, sa_shared = False, sa_coldStartMs = 0, sa_dialled = True\<rparr>"
  have "udp_start s (sys_uls \<sigma>) ?a = (True, snd (udp_start s (sys_uls \<sigma>) ?a))"
    by (simp add: udp_start_def Let_def)
  from udp_internal.started [OF p Launched this] show ?thesis by blast
next
  case Dialled
  obtain u ph where "choose_role (sys_uls \<sigma>) = (u, ph)" by (rule prod.exhaust)
  then show ?thesis using p Dialled by (blast intro: udp_internal.role)
next
  case (Waiting w)
  then show ?thesis using p ph by (cases w) (auto intro: udp_internal.woken)
next
  case (Probing n)
  then show ?thesis using p ph by (cases n) (auto intro: udp_internal.probe)
next
  case (Publishing r)
  obtain ph eff where "published r (sys_uls \<sigma>) = (ph, eff)" by (rule prod.exhaust)
  then show ?thesis using p Publishing by (blast intro: udp_internal.publish)
next
  case Direct then show ?thesis using p by (blast intro: udp_internal.direct)
next
  case Failing then show ?thesis using p by (blast intro: udp_internal.failed)
next
  case Ready then show ?thesis using p by (blast intro: udp_internal.register)
next
  case Registered then show ?thesis using p by (blast intro: udp_internal.count)
next
  case Reading then show ?thesis using ph by simp
qed

lemma no_deadlock:
  assumes ok: "udp_ok \<sigma>" and stuck: "\<not> (\<exists>e \<sigma>'. udp_internal s \<sigma> e \<sigma>')" and p: "proc \<sigma> h = Some p"
  shows "up_phase p = Reading"
proof (rule ccontr)
  assume "up_phase p \<noteq> Reading"
  have np: "up_phase q \<noteq> Probing 0" if "proc \<sigma> x = Some q" for x q
    using ok that unfolding udp_ok_def wakeups_ok_def by blast
  have "up_phase p = Waiting False"
    using awake_can_step [OF p, of s] stuck np [OF p] \<open>up_phase p \<noteq> Reading\<close> by blast
  then obtain x q where "proc \<sigma> x = Some q" and "leading (up_phase q)"
    using ok p unfolding udp_ok_def wakeups_ok_def by blast
  then have "up_phase q \<notin> {Reading, Waiting False, Probing 0}" by (auto simp: leading_def)
  with awake_can_step [OF \<open>proc \<sigma> x = Some q\<close>, of s] stuck show False by blast
qed


subsection \<open>Properties\<close>

text \<open>A listener, a client and the first steps of a flow, for the witnesses.\<close>

definition demo_udp_server :: ProxyServer where
  "demo_udp_server = NewServer 0 (120 * second) (15 * second) (30 * second) False"

definition demo_dns :: PortMapping where
  "demo_dns = \<lparr>ListenPort = 5300, TargetPort = 53\<rparr>"

definition demo_client :: UDPAddr where
  "demo_client = \<lparr>IP = ''10.0.0.9'', Zone = '''', Port = 4000\<rparr>"

definition demo_launched :: udp_sys where
  "demo_launched =
     (let uls = new_udp demo_udp_server zero_info demo_dns in
      \<lparr>sys_uls = uls\<lparr>uls_pending := [UDPAddr_String demo_client]\<rparr>,
       sys_procs = [(1, \<lparr>up_client = demo_client, up_first = ''q'', up_phase = Launched\<rparr>)], sys_open = []\<rparr>)"

definition demo_dialled :: udp_sys where
  "demo_dialled = open_socket 1 (set_phase 1 Dialled demo_launched)"

definition demo_failing :: udp_sys where
  "demo_failing = set_phase 1 Failing demo_launched"

definition demo_gone :: udp_sys where
  "demo_gone = close_sockets [1] (end_proc 1 (set_uls (udp_cleanup (UDPAddr_String demo_client) (sys_uls demo_failing)) demo_failing))"

lemma demo_launched_reachable: "udp_reachable demo_udp_server zero_info demo_dns demo_launched"
proof -
  let ?i = "udp_init demo_udp_server zero_info demo_dns"
  have "\<not> ipBlocked (UDPAddr_String demo_client) (uls_info (sys_uls ?i))"
    by (rule ipBlocked_open) (simp_all add: udp_init_def new_udp_def zero_info_def)
  then have "udp_dispatch 7 (sys_uls ?i) demo_client
      = ((sys_uls ?i)\<lparr>uls_pending := [UDPAddr_String demo_client]\<rparr>, StartFlow)"
    by (simp add: udp_dispatch_def udp_init_def new_udp_def Let_def)
  then have "udp_external demo_udp_server ?i [] demo_launched"
    using udp_external.launch [of ?i 7 demo_client _ 1 demo_udp_server "''q''"]
    by (simp add: udp_init_def new_udp_def demo_launched_def set_uls_def Let_def)
  then show ?thesis by (rule udp_reachable.external [OF udp_reachable.init])
qed

lemma demo_start_step:
  "udp_internal demo_udp_server demo_launched (map Srv [CallEnsure '''']) demo_failing"
  unfolding demo_failing_def
  by (rule udp_internal.start_failed [of _ _ "\<lparr>up_client = demo_client, up_first = ''q'', up_phase = Launched\<rparr>" _
      "\<lparr>sa_ensured = False, sa_shared = False, sa_coldStartMs = 0, sa_dialled = False\<rparr>"])
    (simp_all add: demo_launched_def new_udp_def zero_info_def udp_start_def starts_on_connection_def
      demo_udp_server_def NewServer_def collect_def)

lemma demo_dial_step:
  "udp_internal demo_udp_server demo_launched (map Srv [CallEnsure '''']) demo_dialled"
  unfolding demo_dialled_def
  by (rule udp_internal.started [of _ _ "\<lparr>up_client = demo_client, up_first = ''q'', up_phase = Launched\<rparr>" _
      "\<lparr>sa_ensured = True, sa_shared = True, sa_coldStartMs = 0, sa_dialled = True\<rparr>"])
    (simp_all add: demo_launched_def new_udp_def zero_info_def udp_start_def starts_on_connection_def
      demo_udp_server_def NewServer_def collect_def)

lemma demo_fail_step: "udp_internal demo_udp_server demo_failing [] demo_gone"
proof -
  have "proc demo_failing 1 = Some \<lparr>up_client = demo_client, up_first = ''q'', up_phase = Failing\<rparr>"
    by (simp add: demo_failing_def demo_launched_def set_phase_def)
  from udp_internal.failed [OF this, of demo_udp_server] show ?thesis by (simp add: demo_gone_def)
qed

text \<open>
  C8: whatever the interleaving of datagrams, goroutines, the sweeper and container stops, a client
  is marked pending exactly while one goroutine, and only one, establishes its flow, no client is
  both pending and mapped (so a registration never overwrites a live flow), and the gauge of active
  flows is the number of running read loops.
\<close>

theorem one_goroutine_per_pending_client:
  assumes "udp_reachable s info m \<sigma>"
  shows "(k \<in> set (uls_pending (sys_uls \<sigma>)) \<longleftrightarrow>
            (\<exists>!h. \<exists>p. proc \<sigma> h = Some p \<and> establishing (up_phase p) \<and> UDPAddr_String (up_client p) = k))
    \<and> \<not> (k \<in> set (uls_pending (sys_uls \<sigma>)) \<and> k \<in> fst ` set (uls_flows (sys_uls \<sigma>)))
    \<and> uls_activeFlows (sys_uls \<sigma>) = wrap32 (int (length (filter (\<lambda>x. up_phase (snd x) = Reading) (sys_procs \<sigma>))))"
proof -
  have ok: "udp_ok \<sigma>" by (rule udp_reachable_ok [OF assms])
  have "k \<in> set (uls_pending (sys_uls \<sigma>)) \<longleftrightarrow>
      (\<exists>!h. \<exists>p. proc \<sigma> h = Some p \<and> establishing (up_phase p) \<and> key_of p = k)"
    using ok unfolding udp_ok_def claims_ok_def by blast
  moreover have "\<not> (k \<in> set (uls_pending (sys_uls \<sigma>)) \<and> k \<in> fst ` set (uls_flows (sys_uls \<sigma>)))"
    using ok unfolding udp_ok_def flows_ok_def by (metis map_of_eq_None_iff not_None_eq)
  moreover have "map_total reading xs = length (filter (\<lambda>x. up_phase (snd x) = Reading) xs)" for xs :: "(nat \<times> udp_proc) list"
    by (induction xs) (auto simp: reading_def)
  ultimately show ?thesis using ok by (simp add: udp_ok_def gauge_ok_def)
qed

theorem one_goroutine_per_pending_client_witness:
  "\<exists>!h. \<exists>p. proc demo_dialled h = Some p \<and> establishing (up_phase p)
      \<and> UDPAddr_String (up_client p) = UDPAddr_String demo_client"
proof -
  have "udp_reachable demo_udp_server zero_info demo_dns demo_dialled"
    by (rule udp_reachable.internal [OF demo_launched_reachable demo_dial_step])
  from one_goroutine_per_pending_client [OF this, of "UDPAddr_String demo_client"] show ?thesis
    by (simp add: demo_dialled_def demo_launched_def Let_def)
qed





text \<open>
  A flow whose read loop has ended early is a black hole. \<open>udpUpstreamReadLoop\<close> returns on any
  read error, also on the connection-refused of a restarting container, and leaves its flow in the
  map; a client that sends again before the idle timeout is forwarded to that dead flow and keeps
  it alive across every sweep, while nothing relays a reply to it.
\<close>

theorem dead_flow_survives:
  assumes "map_of (uls_flows u) (UDPAddr_String client) = Some fl" and "keys_distinct (uls_flows u)"
    and "\<not> ipBlocked (UDPAddr_String client) (uls_info u)"
    and "udp_dispatch now u client = (u', d)" and "sweep_flows now' s u' = (u'', hs, eff)"
    and "time_sub now' now \<le> effectiveTimeout (uls_idleTimeout u) (srv_idleTimeout s)"
  shows "d = Forward (fl_upstreamConn fl)
    \<and> map_of (uls_flows u'') (UDPAddr_String client) = Some (fl\<lparr>fl_lastActive := now\<rparr>)"
proof -
  have d: "d = Forward (fl_upstreamConn fl)"
    and u': "u' = u\<lparr>uls_flows := AList.update (UDPAddr_String client) (fl\<lparr>fl_lastActive := now\<rparr>) (uls_flows u),
      uls_lastActive := now\<rparr>"
    using assms(1,3,4) by (auto simp: udp_dispatch_def Let_def)
  have "keys_distinct (uls_flows u')" using assms(2) by (simp add: u')
  moreover have "uls_idleTimeout u' = uls_idleTimeout u"
    and "map_of (uls_flows u') (UDPAddr_String client) = Some (fl\<lparr>fl_lastActive := now\<rparr>)"
    by (simp_all add: u' update_conv')
  ultimately show ?thesis using sweep_frame(3) [OF assms(5)] d assms(6) by (simp add: flow_expired_def)
qed

theorem dead_flow_survives_witness:
  "\<exists>u' u'' hs eff. udp_dispatch (10 * second) ((new_udp demo_udp_server zero_info demo_dns)
        \<lparr>uls_flows := [(UDPAddr_String demo_client, new_flow 0 ''c'' 1 demo_client)]\<rparr>) demo_client = (u', Forward 1)
     \<and> sweep_flows (100 * second) demo_udp_server u' = (u'', hs, eff)
     \<and> map_of (uls_flows u'') (UDPAddr_String demo_client) = Some (new_flow 0 ''c'' 1 demo_client\<lparr>fl_lastActive := 10 * second\<rparr>)"
proof -
  let ?u = "(new_udp demo_udp_server zero_info demo_dns)
        \<lparr>uls_flows := [(UDPAddr_String demo_client, new_flow 0 ''c'' 1 demo_client)]\<rparr>"
  obtain u' d where 1: "udp_dispatch (10 * second) ?u demo_client = (u', d)" by (rule prod.exhaust)
  obtain u'' hs eff where 2: "sweep_flows (100 * second) demo_udp_server u' = (u'', hs, eff)" by (rule prod_cases3)
  have 3: "\<not> ipBlocked (UDPAddr_String demo_client) (uls_info ?u)"
    by (rule ipBlocked_open) (simp_all add: new_udp_def zero_info_def)
  have "d = Forward 1 \<and> map_of (uls_flows u'') (UDPAddr_String demo_client)
      = Some (new_flow 0 ''c'' 1 demo_client\<lparr>fl_lastActive := 10 * second\<rparr>)"
    using dead_flow_survives [of ?u demo_client, OF _ _ 3 1 2]
    by (simp add: new_udp_def zero_info_def keys_distinct_def demo_udp_server_def NewServer_def effectiveTimeout_def
        time_sub_def max_duration_def min_duration_def)
  with 1 2 show ?thesis by blast
qed

end
