(* ===== verification/Go_Path.thy ===== *)
theory Go_Path
  imports Go_Strings
begin

text \<open>
  The functions of Go's \<open>path/filepath\<close> (on a Unix system) the program calls: \<open>Base\<close>, \<open>Clean\<close>,
  \<open>Dir\<close> and \<open>Join\<close>.
\<close>

abbreviation slash :: char where "slash \<equiv> CHR ''/''"

text \<open>\<open>filepath.Base\<close>: trailing slashes are dropped first.\<close>

definition path_base :: "string \<Rightarrow> string" where
  "path_base p =
     (if p = '''' then ''.''
      else let q = rev (dropWhile (\<lambda>c. c = CHR ''/'') (rev p)) in
        if q = '''' then ''/'' else rev (takeWhile (\<lambda>c. c \<noteq> CHR ''/'') (rev q)))"

text \<open>
  \<open>filepath.Clean\<close> reads the components from the left and keeps those that stand: empty ones and
  \<open>.\<close> vanish, \<open>..\<close> takes back the one before it, or vanishes at the root, or stays at the front of a
  relative path. The stack has the last component first.
\<close>

definition clean_component :: "bool \<Rightarrow> string list \<Rightarrow> string \<Rightarrow> string list" where
  "clean_component rooted kept c =
     (if c = '''' \<or> c = ''.'' then kept
      else if c \<noteq> ''..'' then c # kept
      else case kept of
        [] \<Rightarrow> if rooted then [] else [c]
      | k # ks \<Rightarrow> if k = ''..'' then c # kept else ks)"

definition clean_components :: "bool \<Rightarrow> string \<Rightarrow> string list" where
  "clean_components rooted p = rev (foldl (clean_component rooted) [] (split_on slash p))"

definition path_clean :: "string \<Rightarrow> string" where
  "path_clean p =
     (if p = '''' then ''.''
      else let body = join ''/'' (clean_components (hd p = slash) p) in
        if hd p = slash then slash # body else if body = '''' then ''.'' else body)"

definition path_join :: "string list \<Rightarrow> string" where
  "path_join parts =
     (case dropWhile (\<lambda>e. e = '''') parts of [] \<Rightarrow> '''' | es \<Rightarrow> path_clean (join ''/'' es))"

text \<open>\<open>filepath.Dir\<close>: everything up to the last slash, cleaned.\<close>

definition path_dir :: "string \<Rightarrow> string" where
  "path_dir p = path_clean (rev (dropWhile (\<lambda>c. c \<noteq> slash) (rev p)))"

subsection \<open>Facts\<close>

lemma path_base_file:
  assumes "n \<noteq> ''''" "slash \<notin> set n"
  shows "path_base (d @ slash # n) = n"
proof -
  obtain c m where n: "rev n = c # m" using assms(1) by (cases "rev n") auto
  then have "set (c # m) = set n" by (metis set_rev)
  with assms(2) have c: "c \<noteq> slash" and m: "\<forall>x \<in> set (c # m). x \<noteq> slash" by auto
  have "takeWhile (\<lambda>x. x \<noteq> slash) ((c # m) @ slash # rev d) = c # m"
    using m by (subst takeWhile_append2) auto
  then have "rev (takeWhile (\<lambda>x. x \<noteq> slash) (rev n @ slash # rev d)) = n"
    using n by (metis rev_rev_ident)
  with c n show ?thesis by (simp add: path_base_def)
qed

text \<open>A component as it stands in a cleaned path.\<close>

definition plain_component :: "string \<Rightarrow> bool" where
  "plain_component c \<longleftrightarrow> c \<noteq> '''' \<and> c \<noteq> ''.'' \<and> c \<noteq> ''..'' \<and> slash \<notin> set c"

lemma clean_empty_component [simp]: "clean_component r ks '''' = ks"
  by (simp add: clean_component_def)

lemma clean_plain_components:
  "list_all plain_component cs \<Longrightarrow> foldl (clean_component r) ks cs = rev cs @ ks"
  by (induction cs arbitrary: ks) (simp_all add: clean_component_def plain_component_def)

lemma plain_no_slash: "list_all plain_component cs \<Longrightarrow> c \<in> set cs \<Longrightarrow> slash \<notin> set c"
  by (simp add: list_all_iff plain_component_def)

lemma split_plain_components:
  assumes "list_all plain_component cs" "cs \<noteq> []"
  shows "split_on slash (join ''/'' cs) = cs"
  by (rule split_on_join [OF assms(2) plain_no_slash [OF assms(1)]])

text \<open>An absolute path of plain components is clean, and so is a file of it.\<close>

lemma path_clean_absolute:
  assumes "list_all plain_component cs"
  shows "path_clean (slash # join ''/'' cs) = slash # join ''/'' cs"
proof (cases "cs = []")
  case True
  then show ?thesis by (simp add: path_clean_def clean_components_def clean_component_def)
next
  case False
  have "foldl (clean_component True) [] (split_on slash (slash # join ''/'' cs)) = rev cs"
    using clean_plain_components [OF assms, of True "[]"] split_plain_components [OF assms False]
    by (simp add: clean_component_def)
  then show ?thesis by (simp add: path_clean_def clean_components_def)
qed

lemma join_snoc: "cs \<noteq> [] \<Longrightarrow> join sep (cs @ [c]) = join sep cs @ sep @ c"
  by (induction cs rule: induct_list012) auto

lemma path_join_absolute:
  assumes "list_all plain_component cs" "cs \<noteq> []" "plain_component n"
  shows "path_join [slash # join ''/'' cs, n] = slash # join ''/'' cs @ slash # n"
proof -
  have "path_clean (slash # join ''/'' (cs @ [n])) = slash # join ''/'' (cs @ [n])"
    using assms by (intro path_clean_absolute) simp
  then show ?thesis using assms(2) by (simp add: path_join_def join_snoc)
qed

lemma path_dir_file:
  assumes "list_all plain_component cs" "cs \<noteq> []" "slash \<notin> set f"
  shows "path_dir (slash # join ''/'' cs @ slash # f) = slash # join ''/'' cs"
proof -
  have "dropWhile (\<lambda>c. c \<noteq> slash) (rev f @ slash # rs) = slash # rs" for rs
    using assms(3) by (subst dropWhile_append2) auto
  from this [of "rev (slash # join ''/'' cs)"]
  have "rev (dropWhile (\<lambda>c. c \<noteq> slash) (rev (slash # join ''/'' cs @ slash # f)))
      = slash # join ''/'' (cs @ [''''])"
    using assms(2) by (simp add: join_snoc)
  then have dir: "path_dir (slash # join ''/'' cs @ slash # f) = path_clean (slash # join ''/'' (cs @ ['''']))"
    by (simp only: path_dir_def)
  have "split_on slash (join ''/'' (cs @ [''''])) = cs @ ['''']"
    by (rule split_on_join) (use plain_no_slash [OF assms(1)] in auto)
  then have "split_on slash (slash # join ''/'' (cs @ [''''])) = '''' # cs @ ['''']" by simp
  then have "clean_components True (slash # join ''/'' (cs @ [''''])) = rev (foldl (clean_component True) [] ('''' # cs @ ['''']))"
    by (simp only: clean_components_def)
  also have "\<dots> = cs" using clean_plain_components [OF assms(1), of True "[]"]
    by simp
  finally have "clean_components True (slash # join ''/'' (cs @ [''''])) = cs" .
  then have "path_clean (slash # join ''/'' (cs @ [''''])) = slash # join ''/'' cs"
    by (simp add: path_clean_def)
  with dir show ?thesis by (rule trans)
qed

end
