(* ===== verification/Docker_Manager.thy ===== *)
theory Docker_Manager
  imports Server_Lifecycle Port_Alloc Go_Path
begin

text \<open>
  \<open>internal/docker/manager.go\<close> and \<open>internal/docker/compose_reprovision.go\<close>: the Docker backend's
  state, how it starts, stops and locates containers and swarm services, and the networks it joins.
  The Docker API (and Docker Compose behind it) is a record of functions on a daemon state \<open>'d\<close>,
  held by the manager like its client; \<open>docker_laws\<close> states what the manager relies on.
\<close>

subsection \<open>The Docker API\<close>

text \<open>The fields of the API's answers that the code reads. An invalid address is \<open>None\<close>.\<close>

record EndpointSettings =
  ep_NetworkID :: string
  ep_IPAddress :: "string option"

record ContainerInspectResult =
  ci_Name :: string
  ci_Labels :: "string \<Rightarrow> string option"
  ci_Networks :: "(string \<times> EndpointSettings) list"
  ci_Running :: bool
  ci_Health :: "string option"

record NetworkInspectResult =
  ni_Name :: string
  ni_Labels :: "string \<Rightarrow> string option"
  ni_Containers :: "string list"

record VirtualIP =
  vip_NetworkID :: string
  vip_Addr :: "string option"

text \<open>\<open>svc_Replicated\<close> is \<open>Spec.Mode.Replicated\<close>: nil, or its \<open>Replicas\<close> pointer.\<close>

record Service =
  svc_ID :: string
  svc_Name :: string
  svc_Labels :: "string \<Rightarrow> string option"
  svc_Replicated :: "nat option option"
  svc_VirtualIPs :: "VirtualIP list"
  svc_RunningTasks :: "nat option"

datatype 'a api_result = Found (found: 'a) | NotFound | ApiError

text \<open>
  \<open>Sleep\<close> is what happens to the daemon while the manager waits one poll interval for a container,
  \<open>Clock\<close> its clock; \<open>Stat\<close> says whether a file of the compose directory exists (paths are taken
  as written, \<open>filepath.Join\<close> only cleans them). \<open>UnitOf\<close> is no call: it names the unit the daemon
  acts on under a reference, the same for a container's name and its ID, a service and its tasks,
  and the containers of one compose project.
\<close>

record 'd docker_api =
  ContainerInspect :: "'d \<Rightarrow> string \<Rightarrow> ContainerInspectResult api_result"
  ContainerStart :: "'d \<Rightarrow> string \<Rightarrow> 'd \<times> bool"
  ContainerStop :: "'d \<Rightarrow> string \<Rightarrow> 'd \<times> bool"
  NetworkInspect :: "'d \<Rightarrow> string \<Rightarrow> NetworkInspectResult option"
  NetworkConnect :: "'d \<Rightarrow> string \<Rightarrow> string \<Rightarrow> 'd \<times> bool"
  NetworkDisconnect :: "'d \<Rightarrow> string \<Rightarrow> string \<Rightarrow> 'd \<times> bool"
  ServiceInspect :: "'d \<Rightarrow> string \<Rightarrow> Service option"
  ServiceUpdate :: "'d \<Rightarrow> string \<Rightarrow> Service \<Rightarrow> 'd \<times> bool"
  Stat :: "string \<Rightarrow> bool"
  ImageLoad :: "'d \<Rightarrow> string \<Rightarrow> 'd \<times> bool"
  ComposeLoad :: "'d \<Rightarrow> string \<Rightarrow> string \<Rightarrow> bool"
  ComposeUp :: "'d \<Rightarrow> string \<Rightarrow> string \<Rightarrow> 'd \<times> bool"
  Sleep :: "'d \<Rightarrow> string \<Rightarrow> 'd"
  Clock :: "'d \<Rightarrow> instant"
  UnitOf :: "string \<Rightarrow> string"

subsection \<open>State\<close>

record 'd Manager =
  cli :: "'d docker_api"
  daemon :: 'd
  selfID :: string
  joinedNets :: "(string \<times> string) list"
  swarmServices :: "(string \<times> int) list"
  configOnlyIDs :: "(string \<times> string) list"
  composeDir :: string

definition NewManager :: "'d docker_api \<Rightarrow> 'd \<Rightarrow> string \<Rightarrow> 'd Manager" where
  "NewManager api d self =
     \<lparr>cli = api, daemon = d, selfID = self, joinedNets = [], swarmServices = [], configOnlyIDs = [], composeDir = ''''\<rparr>"

definition SetManagerComposeDir :: "'d Manager \<Rightarrow> string \<Rightarrow> 'd Manager" where
  "SetManagerComposeDir m dir = m\<lparr>composeDir := dir\<rparr>"

abbreviation inspect :: "'d Manager \<Rightarrow> string \<Rightarrow> ContainerInspectResult api_result" where
  "inspect m c \<equiv> ContainerInspect (cli m) (daemon m) c"

abbreviation service :: "'d Manager \<Rightarrow> string \<Rightarrow> Service option" where
  "service m c \<equiv> ServiceInspect (cli m) (daemon m) c"

text \<open>A call that changes the daemon.\<close>

definition on_daemon :: "('d \<Rightarrow> 'd \<times> bool) \<Rightarrow> 'd Manager \<Rightarrow> 'd Manager \<times> bool" where
  "on_daemon f m = (case f (daemon m) of (d, b) \<Rightarrow> (m\<lparr>daemon := d\<rparr>, b))"

subsection \<open>The proxy's own container\<close>

definition id_of_cgroup_line :: "string \<Rightarrow> string option" where
  "id_of_cgroup_line line =
     (let parts = split_on (CHR '':'') line in
      if length parts < 3 then None
      else let base = path_base (parts ! 2) in
        if length base = 64 then Some base
        else if prefix ''docker-'' base \<and> suffix ''.scope'' base then
          (let cid = trim_suffix (trim_prefix base ''docker-'') ''.scope'' in
           if length cid = 64 then Some cid else None)
        else None)"

text \<open>The lines of \<open>/proc/self/cgroup\<close> and the content of \<open>/etc/hostname\<close>, when they can be read.\<close>

definition SelfContainerID :: "string list option \<Rightarrow> string option \<Rightarrow> string" where
  "SelfContainerID cgroup hostname =
     (let fallback = (case hostname of None \<Rightarrow> ''''
          | Some data \<Rightarrow> let cid = trim_space data in if length cid = 12 \<or> length cid = 64 then cid else '''') in
      case cgroup of None \<Rightarrow> fallback
      | Some ls \<Rightarrow> (case List.map_filter id_of_cgroup_line ls of [] \<Rightarrow> fallback | cid # _ \<Rightarrow> cid))"

subsection \<open>Swarm services\<close>

definition isSwarmService :: "'d Manager \<Rightarrow> string \<Rightarrow> int option" where
  "isSwarmService m targetID = map_of (swarmServices m) targetID"

definition registerSwarmService :: "string \<Rightarrow> int \<Rightarrow> 'd Manager \<Rightarrow> 'd Manager" where
  "registerSwarmService sid replicas m = m\<lparr>swarmServices := AList.update sid replicas (swarmServices m)\<rparr>"

definition unregisterSwarmService :: "string \<Rightarrow> 'd Manager \<Rightarrow> 'd Manager" where
  "unregisterSwarmService sid m = m\<lparr>swarmServices := AList.delete sid (swarmServices m)\<rparr>"

definition NotifyTargets :: "TargetInfo list \<Rightarrow> 'd Manager \<Rightarrow> 'd Manager" where
  "NotifyTargets ts m =
     foldl (\<lambda>m info. if DesiredReplicas info > 0 then registerSwarmService (ContainerID info) (DesiredReplicas info) m else m) m ts"

text \<open>\<open>uint64(desiredReplicas)\<close>.\<close>

definition ensureServiceRunning :: "string \<Rightarrow> int \<Rightarrow> 'd Manager \<Rightarrow> 'd Manager \<times> bool" where
  "ensureServiceRunning sid desiredReplicas m =
     (case service m sid of
        None \<Rightarrow> (m, False)
      | Some svc \<Rightarrow>
          (case svc_Replicated svc of
             None \<Rightarrow> (m, False)
           | Some reps \<Rightarrow>
               if reps \<noteq> None \<and> the reps > 0 then (m, True)
               else on_daemon (\<lambda>d. ServiceUpdate (cli m) d sid
                      (svc\<lparr>svc_Replicated := Some (Some (nat (desiredReplicas mod 2 ^ 64)))\<rparr>)) m))"

definition stopService :: "string \<Rightarrow> 'd Manager \<Rightarrow> 'd Manager \<times> bool" where
  "stopService sid m =
     (case service m sid of
        None \<Rightarrow> (m, False)
      | Some svc \<Rightarrow>
          (case svc_Replicated svc of
             None \<Rightarrow> (m, False)
           | Some reps \<Rightarrow>
               if reps \<noteq> None \<and> the reps = 0 then (m, True)
               else on_daemon (\<lambda>d. ServiceUpdate (cli m) d sid (svc\<lparr>svc_Replicated := Some (Some 0)\<rparr>)) m))"

subsection \<open>Re-provisioning a missing container\<close>

definition composeWaitTimeout :: duration where
  "composeWaitTimeout = 30 * second"

definition findComposeFile :: "'d Manager \<Rightarrow> string \<Rightarrow> string" where
  "findComposeFile m name =
     (case filter (Stat (cli m)) [composeDir m @ ''/'' @ name @ ''.yml'', composeDir m @ ''/'' @ name @ ''.yaml''] of
        [] \<Rightarrow> '''' | p # _ \<Rightarrow> p)"

text \<open>
  The wait for the container, by polls with the given fuel; \<open>None\<close> means the fuel ran out.
\<close>

primrec waitForContainerRunning :: "nat \<Rightarrow> string \<Rightarrow> instant \<Rightarrow> 'd Manager \<Rightarrow> ('d Manager \<times> bool) option" where
  "waitForContainerRunning 0 name deadline m = None"
| "waitForContainerRunning (Suc fuel) name deadline m =
     (case inspect m name of
        Found r \<Rightarrow> if ci_Running r then Some (m, True) else Some (on_daemon (\<lambda>d. ContainerStart (cli m) d name) m)
      | _ \<Rightarrow> if Clock (cli m) (daemon m) > deadline then Some (m, False)
             else waitForContainerRunning fuel name deadline (m\<lparr>daemon := Sleep (cli m) (daemon m) name\<rparr>))"

text \<open>
  The result is \<open>None\<close> when no re-provisioning was attempted. \<open>ComposeLoad\<close> covers the construction
  of the Docker CLI and of the compose project. \<open>wait_fuel\<close> polls are enough, see below.
\<close>

definition wait_fuel :: nat where
  "wait_fuel = 32"

definition loadImageFromTar :: "string \<Rightarrow> 'd Manager \<Rightarrow> 'd Manager \<times> bool" where
  "loadImageFromTar tarPath m = on_daemon (\<lambda>d. ImageLoad (cli m) d tarPath) m"

text \<open>The optional image archive next to the compose file.\<close>

definition load_archive :: "string \<Rightarrow> 'd Manager \<Rightarrow> 'd Manager \<times> bool" where
  "load_archive name m =
     (let tarPath = composeDir m @ ''/'' @ name @ ''.tar.gz'' in
      if Stat (cli m) tarPath then loadImageFromTar tarPath m else (m, True))"

definition reprovisionWithCompose :: "string \<Rightarrow> 'd Manager \<Rightarrow> 'd Manager \<times> bool option" where
  "reprovisionWithCompose name m =
     (if composeDir m = '''' then (m, None)
      else let composeFile = findComposeFile m name in
        if composeFile = '''' then (m, None)
        else let (m1, loaded) = load_archive name m
             in if \<not> loaded then (m1, Some False)
             else if \<not> ComposeLoad (cli m) (daemon m1) name composeFile then (m1, Some False)
             else let (m2, up) = on_daemon (\<lambda>d. ComposeUp (cli m) d name composeFile) m1 in
               (case waitForContainerRunning wait_fuel name (Clock (cli m) (daemon m2) + composeWaitTimeout) m2 of
                  None \<Rightarrow> (m2, Some False)
                | Some (m3, ok) \<Rightarrow> (m3, Some ok)))"

subsection \<open>Starting, stopping, inspecting\<close>

definition EnsureRunning :: "'d Manager \<Rightarrow> string \<Rightarrow> 'd Manager \<times> bool" where
  "EnsureRunning m targetID =
     (case isSwarmService m targetID of
        Some desiredReplicas \<Rightarrow> ensureServiceRunning targetID desiredReplicas m
      | None \<Rightarrow>
          (case inspect m targetID of
             NotFound \<Rightarrow>
               (case reprovisionWithCompose targetID m of
                  (m', Some ok) \<Rightarrow> (m', ok)
                | (m', None) \<Rightarrow> (m', False))
           | ApiError \<Rightarrow> (m, False)
           | Found r \<Rightarrow>
               if ci_Running r then (m, True)
               else on_daemon (\<lambda>d. ContainerStart (cli m) d targetID) m))"

definition StopContainer :: "'d Manager \<Rightarrow> string \<Rightarrow> string \<Rightarrow> 'd Manager \<times> bool" where
  "StopContainer m targetID targetName =
     (case isSwarmService m targetID of
        Some _ \<Rightarrow> stopService targetID m
      | None \<Rightarrow> on_daemon (\<lambda>d. ContainerStop (cli m) d targetID) m)"

text \<open>\<open>(running, exists)\<close>, or \<open>None\<close> for an error.\<close>

definition InspectRunning :: "'d Manager \<Rightarrow> string \<Rightarrow> (bool \<times> bool) option" where
  "InspectRunning m targetID =
     (case inspect m targetID of
        NotFound \<Rightarrow> Some (False, False)
      | ApiError \<Rightarrow> None
      | Found r \<Rightarrow> Some (ci_Running r, True))"

definition healthCheckPollInterval :: duration where
  "healthCheckPollInterval = second"

text \<open>The health poll: what each attempt's inspection says; the result is the attempts made and the verdict.\<close>

datatype health_verdict = Healthy | Unhealthy | InspectFailed | NotHealthyInTime

primrec poll_health :: "(nat \<Rightarrow> ContainerInspectResult api_result) \<Rightarrow> nat \<Rightarrow> nat \<Rightarrow> nat \<times> health_verdict" where
  "poll_health inspect_at attempt 0 = (attempt - 1, NotHealthyInTime)"
| "poll_health inspect_at attempt (Suc left) =
     (case inspect_at attempt of
        Found r \<Rightarrow>
          (let status = (case ci_Health r of None \<Rightarrow> '''' | Some h \<Rightarrow> h) in
           if status = ''healthy'' then (attempt, Healthy)
           else if status = ''unhealthy'' then (attempt, Unhealthy)
           else poll_health inspect_at (Suc attempt) left)
      | _ \<Rightarrow> (attempt, InspectFailed))"

definition WaitUntilHealthy :: "(nat \<Rightarrow> ContainerInspectResult api_result) \<Rightarrow> duration \<Rightarrow> nat \<times> health_verdict" where
  "WaitUntilHealthy inspect_at timeout =
     poll_health inspect_at 1 (nat (retry_budget timeout healthCheckPollInterval))"

subsection \<open>Upstream addresses\<close>

text \<open>The first element with a property, and its address.\<close>

definition first_addr :: "('a \<Rightarrow> string option) \<Rightarrow> ('a \<Rightarrow> bool) \<Rightarrow> 'a list \<Rightarrow> string option" where
  "first_addr addr P xs = (case List.map_filter (\<lambda>x. if P x then addr x else None) xs of [] \<Rightarrow> None | a # _ \<Rightarrow> Some a)"

definition getServiceUpstreamHost :: "'d Manager \<Rightarrow> string \<Rightarrow> string \<Rightarrow> string option" where
  "getServiceUpstreamHost m sid preferNetworkID =
     (case service m sid of
        None \<Rightarrow> None
      | Some svc \<Rightarrow>
          let vips = svc_VirtualIPs svc;
              preferred = (if preferNetworkID \<noteq> ''''
                           then first_addr vip_Addr (\<lambda>v. vip_NetworkID v = preferNetworkID) vips else None);
              joined = first_addr vip_Addr (\<lambda>v. map_of (joinedNets m) (vip_NetworkID v) \<noteq> None) vips
          in (case preferred of Some a \<Rightarrow> Some a
              | None \<Rightarrow> (case joined of Some a \<Rightarrow> Some a | None \<Rightarrow> first_addr vip_Addr (\<lambda>_. True) vips)))"

definition GetUpstreamHost :: "'d Manager \<Rightarrow> string \<Rightarrow> string \<Rightarrow> string option" where
  "GetUpstreamHost m targetID preferNetworkID =
     (case isSwarmService m targetID of
        Some _ \<Rightarrow> getServiceUpstreamHost m targetID preferNetworkID
      | None \<Rightarrow>
          (case inspect m targetID of
             Found r \<Rightarrow>
               let eps = map snd (ci_Networks r);
                   preferred = (if preferNetworkID \<noteq> ''''
                                then first_addr ep_IPAddress (\<lambda>e. ep_NetworkID e = preferNetworkID) eps else None)
               in (case preferred of Some a \<Rightarrow> Some a | None \<Rightarrow> first_addr ep_IPAddress (\<lambda>_. True) eps)
           | _ \<Rightarrow> None))"

subsection \<open>Networks\<close>

definition connected :: "'d Manager \<Rightarrow> NetworkInspectResult \<Rightarrow> bool" where
  "connected m n \<longleftrightarrow> list_ex (\<lambda>cid. prefix (selfID m) cid \<or> prefix cid (selfID m)) (ni_Containers n)"

definition join_one :: "'d Manager \<times> string list \<Rightarrow> string \<Rightarrow> 'd Manager \<times> string list" where
  "join_one mj netID =
     (case mj of (m, joined) \<Rightarrow>
      case NetworkInspect (cli m) (daemon m) netID of
        None \<Rightarrow> (m, joined)
      | Some n \<Rightarrow>
          if connected m n then (m, joined)
          else (case on_daemon (\<lambda>d. NetworkConnect (cli m) d netID (selfID m)) m of
             (m', False) \<Rightarrow> (m', joined)
           | (m', True) \<Rightarrow> (m'\<lparr>joinedNets := AList.update netID (ni_Name n) (joinedNets m')\<rparr>, joined @ [ni_Name n])))"

definition JoinNetworks :: "string list \<Rightarrow> 'd Manager \<Rightarrow> 'd Manager \<times> string list" where
  "JoinNetworks netIDs m = (if selfID m = '''' then (m, []) else foldl join_one (m, []) netIDs)"

definition network_ids :: "ContainerInspectResult \<Rightarrow> string list" where
  "network_ids r = filter (\<lambda>n. n \<noteq> '''') (map (\<lambda>(_, ep). ep_NetworkID ep) (ci_Networks r))"

definition JoinNetworksForContainerNames :: "string list \<Rightarrow> 'd Manager \<Rightarrow> 'd Manager" where
  "JoinNetworksForContainerNames names m =
     foldl (\<lambda>m name. case inspect m name of Found r \<Rightarrow> fst (JoinNetworks (network_ids r) m) | _ \<Rightarrow> m) m names"

definition LeaveNetworks :: "'d Manager \<Rightarrow> 'd Manager" where
  "LeaveNetworks m =
     (if selfID m = '''' then m
      else foldl (\<lambda>m (netID, _). fst (on_daemon (\<lambda>d. NetworkDisconnect (cli m) d netID (selfID m)) m)) m (joinedNets m))"

subsection \<open>Config-only targets\<close>

definition SetConfigOnlyNames :: "(string \<times> string) list \<Rightarrow> 'd Manager \<Rightarrow> 'd Manager" where
  "SetConfigOnlyNames nameToID m = m\<lparr>configOnlyIDs := nameToID\<rparr>"

definition getConfigOnlyID :: "'d Manager \<Rightarrow> string \<Rightarrow> string" where
  "getConfigOnlyID m name = (case map_of (configOnlyIDs m) name of None \<Rightarrow> '''' | Some rid \<Rightarrow> rid)"

definition DefaultTargetID :: "string \<Rightarrow> string" where
  "DefaultTargetID name = name"

subsection \<open>What the manager relies on\<close>

definition running :: "'d docker_api \<Rightarrow> 'd \<Rightarrow> string \<Rightarrow> bool" where
  "running api d c = (case ContainerInspect api d c of Found r \<Rightarrow> ci_Running r | _ \<Rightarrow> False)"

definition scaled_up :: "'d docker_api \<Rightarrow> 'd \<Rightarrow> string \<Rightarrow> bool" where
  "scaled_up api d c =
     (case ServiceInspect api d c of None \<Rightarrow> False
      | Some svc \<Rightarrow> (case svc_Replicated svc of Some (Some n) \<Rightarrow> n > 0 | _ \<Rightarrow> False))"

text \<open>One daemon state differs from another at most in what \<open>c\<close> names.\<close>

definition only_unit :: "'d docker_api \<Rightarrow> string \<Rightarrow> 'd \<Rightarrow> 'd \<Rightarrow> bool" where
  "only_unit api c d d' \<longleftrightarrow>
     (\<forall>e. UnitOf api e \<noteq> UnitOf api c \<longrightarrow> running api d' e = running api d e \<and> scaled_up api d' e = scaled_up api d e)"

definition docker_laws :: "'d docker_api \<Rightarrow> bool" where
  "docker_laws api \<longleftrightarrow>
     (\<forall>d c d'. ContainerStart api d c = (d', True) \<longrightarrow> running api d' c)
     \<and> (\<forall>d c d'. ContainerStop api d c = (d', True) \<longrightarrow> \<not> running api d' c)
     \<and> (\<forall>d c svc d'. ServiceUpdate api d c svc = (d', True) \<longrightarrow>
           (\<exists>svc'. ServiceInspect api d' c = Some svc' \<and> svc_Replicated svc' = svc_Replicated svc))
     \<and> (\<forall>d c. only_unit api c d (fst (ContainerStart api d c)))
     \<and> (\<forall>d c. only_unit api c d (fst (ContainerStop api d c)))
     \<and> (\<forall>d c svc. only_unit api c d (fst (ServiceUpdate api d c svc)))
     \<and> (\<forall>d c f. only_unit api c d (fst (ComposeUp api d c f)))
     \<and> (\<forall>d c. only_unit api c d (Sleep api d c))
     \<and> (\<forall>d f e. running api (fst (ImageLoad api d f)) e = running api d e
                  \<and> scaled_up api (fst (ImageLoad api d f)) e = scaled_up api d e)"

lemma docker_lawsD:
  assumes "docker_laws api"
  shows "snd (ContainerStart api d c) \<Longrightarrow> running api (fst (ContainerStart api d c)) c"
    and "snd (ContainerStop api d c) \<Longrightarrow> \<not> running api (fst (ContainerStop api d c)) c"
    and "snd (ServiceUpdate api d c svc) \<Longrightarrow>
           scaled_up api (fst (ServiceUpdate api d c svc)) c = (\<exists>n > 0. svc_Replicated svc = Some (Some n))"
    and "only_unit api c d (fst (ContainerStart api d c))"
    and "only_unit api c d (fst (ContainerStop api d c))"
    and "only_unit api c d (fst (ServiceUpdate api d c svc))"
    and "only_unit api c d (fst (ComposeUp api d c f))"
    and "only_unit api c d (Sleep api d c)"
    and "running api (fst (ImageLoad api d f)) e = running api d e"
    and "scaled_up api (fst (ImageLoad api d f)) e = scaled_up api d e"
proof -
  show "scaled_up api (fst (ServiceUpdate api d c svc)) c = (\<exists>n > 0. svc_Replicated svc = Some (Some n))"
    if "snd (ServiceUpdate api d c svc)"
  proof -
    have "ServiceUpdate api d c svc = (fst (ServiceUpdate api d c svc), True)" using that by (simp add: prod_eq_iff)
    then obtain svc' where "ServiceInspect api (fst (ServiceUpdate api d c svc)) c = Some svc'"
      and "svc_Replicated svc' = svc_Replicated svc"
      using assms unfolding docker_laws_def by metis
    then show ?thesis by (auto simp: scaled_up_def split: option.splits)
  qed
qed (use assms in \<open>simp_all add: docker_laws_def prod_eq_iff\<close>)

lemma only_unit_refl [simp]: "only_unit api c d d"
  by (simp add: only_unit_def)

lemma only_unit_trans: "only_unit api c d d1 \<Longrightarrow> only_unit api c d1 d2 \<Longrightarrow> only_unit api c d d2"
  by (simp add: only_unit_def)

text \<open>The manager's operations change nothing but the daemon.\<close>

definition same_manager :: "'d Manager \<Rightarrow> 'd Manager \<Rightarrow> bool" where
  "same_manager m m' \<longleftrightarrow> m' = m\<lparr>daemon := daemon m'\<rparr>"

lemma same_manager_refl [simp]: "same_manager m m"
  by (simp add: same_manager_def)

lemma same_manager_trans: "same_manager m m1 \<Longrightarrow> same_manager m1 m2 \<Longrightarrow> same_manager m m2"
  by (metis same_manager_def Manager.surjective Manager.update_convs(2))

lemma same_managerD:
  assumes "same_manager m m'"
  shows "cli m' = cli m" "selfID m' = selfID m" "swarmServices m' = swarmServices m"
    "joinedNets m' = joinedNets m" "configOnlyIDs m' = configOnlyIDs m" "composeDir m' = composeDir m"
  using assms by (metis same_manager_def Manager.select_convs Manager.surjective Manager.update_convs(2))+

lemma on_daemon_same [simp]: "same_manager m (fst (on_daemon f m))"
  by (simp add: on_daemon_def same_manager_def split: prod.splits)

lemma on_daemon_simps [simp]:
  "cli (fst (on_daemon f m)) = cli m" "daemon (fst (on_daemon f m)) = fst (f (daemon m))"
  "snd (on_daemon f m) = snd (f (daemon m))" "swarmServices (fst (on_daemon f m)) = swarmServices m"
  by (simp_all add: on_daemon_def split: prod.splits)

subsection \<open>Re-provisioning\<close>

lemma wait_result:
  assumes laws: "docker_laws (cli m)" and r: "waitForContainerRunning n name deadline m = Some (m', ok)"
  shows "same_manager m m' \<and> only_unit (cli m) name (daemon m) (daemon m')
    \<and> (ok \<longrightarrow> running (cli m) (daemon m') name)"
  using r laws
proof (induction n arbitrary: m)
  case (Suc n)
  note laws = docker_lawsD [OF Suc.prems(2)]
  show ?case
  proof (cases "inspect m name")
    case (Found r)
    show ?thesis
    proof (cases "ci_Running r")
      case True
      with Found Suc.prems(1) show ?thesis by (auto simp: running_def)
    next
      case False
      with Found Suc.prems(1) have
        "(m', ok) = on_daemon (\<lambda>d. ContainerStart (cli m) d name) m" by simp
      then have m': "m' = fst (on_daemon (\<lambda>d. ContainerStart (cli m) d name) m)"
        and ok: "ok = snd (ContainerStart (cli m) (daemon m) name)"
        by (metis fst_conv, metis snd_conv on_daemon_simps(3))
      show ?thesis using laws(1,4) by (simp add: m' ok)
    qed
  next
    case other: NotFound
    let ?m = "m\<lparr>daemon := Sleep (cli m) (daemon m) name\<rparr>"
    show ?thesis
    proof (cases "Clock (cli m) (daemon m) > deadline")
      case True
      with other Suc.prems(1) show ?thesis by auto
    next
      case False
      with other Suc.prems(1) have "waitForContainerRunning n name deadline ?m = Some (m', ok)" by simp
      from Suc.IH [OF this] Suc.prems(2) have
        "same_manager ?m m' \<and> only_unit (cli m) name (daemon ?m) (daemon m') \<and> (ok \<longrightarrow> running (cli m) (daemon m') name)"
        by simp
      moreover have "same_manager m ?m" by (simp add: same_manager_def)
      ultimately show ?thesis using laws(8) only_unit_trans same_manager_trans by fastforce
    qed
  next
    case other: ApiError
    let ?m = "m\<lparr>daemon := Sleep (cli m) (daemon m) name\<rparr>"
    show ?thesis
    proof (cases "Clock (cli m) (daemon m) > deadline")
      case True
      with other Suc.prems(1) show ?thesis by auto
    next
      case False
      with other Suc.prems(1) have "waitForContainerRunning n name deadline ?m = Some (m', ok)" by simp
      from Suc.IH [OF this] Suc.prems(2) have
        "same_manager ?m m' \<and> only_unit (cli m) name (daemon ?m) (daemon m') \<and> (ok \<longrightarrow> running (cli m) (daemon m') name)"
        by simp
      moreover have "same_manager m ?m" by (simp add: same_manager_def)
      ultimately show ?thesis using laws(8) only_unit_trans same_manager_trans by fastforce
    qed
  qed
qed simp

text \<open>The polls end: once the clock has passed the deadline, the next poll is the last.\<close>

definition clock_advances :: "'d docker_api \<Rightarrow> bool" where
  "clock_advances api \<longleftrightarrow> (\<forall>d c. Clock api (Sleep api d c) \<ge> Clock api d + second)"

lemma wait_returns:
  assumes "clock_advances (cli m)" and "deadline < Clock (cli m) (daemon m) + int n * second"
  shows "waitForContainerRunning (Suc n) name deadline m \<noteq> None"
  using assms
proof (induction n arbitrary: m)
  case (Suc n)
  let ?m = "m\<lparr>daemon := Sleep (cli m) (daemon m) name\<rparr>"
  have "waitForContainerRunning (Suc n) name deadline ?m \<noteq> None"
  proof (rule Suc.IH)
    show "clock_advances (cli ?m)" using Suc.prems(1) by simp
    have "Clock (cli m) (Sleep (cli m) (daemon m) name) \<ge> Clock (cli m) (daemon m) + second"
      using Suc.prems(1) by (simp add: clock_advances_def)
    then show "deadline < Clock (cli ?m) (daemon ?m) + int n * second"
      using Suc.prems(2) by (simp add: algebra_simps)
  qed
  then show ?case unfolding waitForContainerRunning.simps(2) [of "Suc n"]
    by (auto split: api_result.splits)
qed (auto split: api_result.splits)

lemma reprovision_result:
  assumes laws: "docker_laws (cli m)" and r: "reprovisionWithCompose name m = (m', res)"
  shows "same_manager m m' \<and> only_unit (cli m) name (daemon m) (daemon m')
    \<and> (res = Some True \<longrightarrow> running (cli m) (daemon m') name)"
proof -
  note laws' = docker_lawsD [OF laws]
  let ?f = "findComposeFile m name"
  obtain m1 loaded where l: "load_archive name m = (m1, loaded)" by (rule prod.exhaust)
  have m1: "same_manager m m1 \<and> only_unit (cli m) name (daemon m) (daemon m1)"
  proof -
    have "m1 = fst (load_archive name m)" using l by simp
    then show ?thesis by (simp add: load_archive_def loadImageFromTar_def Let_def only_unit_def laws'(9,10))
  qed
  obtain m2 u where up: "on_daemon (\<lambda>d. ComposeUp (cli m) d name ?f) m1 = (m2, u)" by (rule prod.exhaust)
  have m2: "same_manager m m2 \<and> only_unit (cli m) name (daemon m) (daemon m2)"
  proof -
    have "m2 = fst (on_daemon (\<lambda>d. ComposeUp (cli m) d name ?f) m1)" using up by simp
    then show ?thesis
      using m1 laws'(7) [of name "daemon m1" ?f] by (auto intro: same_manager_trans only_unit_trans)
  qed
  have cli2: "cli m2 = cli m" using m2 by (blast dest: same_managerD)
  show ?thesis
  proof (cases "composeDir m = '''' \<or> ?f = ''''")
    case True
    then have "reprovisionWithCompose name m = (m, None)"
      by (cases "composeDir m = []") (simp_all add: reprovisionWithCompose_def)
    with r show ?thesis by simp
  next
    case dir: False
    show ?thesis
    proof (cases "loaded \<and> ComposeLoad (cli m) (daemon m1) name ?f")
      case False
      with dir have "reprovisionWithCompose name m = (m1, Some False)"
        by (cases loaded) (simp_all add: reprovisionWithCompose_def l)
      with r m1 show ?thesis by auto
    next
      case True
      let ?w = "waitForContainerRunning wait_fuel name (Clock (cli m) (daemon m2) + composeWaitTimeout) m2"
      have r': "(m', res) = (case ?w of None \<Rightarrow> (m2, Some False) | Some (m3, ok) \<Rightarrow> (m3, Some ok))"
        using r dir l True up by (simp add: reprovisionWithCompose_def Let_def)
      show ?thesis
      proof (cases ?w)
        case None
        with r' m2 show ?thesis by simp
      next
        case (Some x)
        obtain m3 ok where x: "x = (m3, ok)" by (rule prod.exhaust)
        have "same_manager m2 m3 \<and> only_unit (cli m2) name (daemon m2) (daemon m3)
            \<and> (ok \<longrightarrow> running (cli m2) (daemon m3) name)"
          by (rule wait_result) (use laws Some x in \<open>simp_all add: cli2\<close>)
        with r' m2 Some x show ?thesis
          using same_manager_trans only_unit_trans unfolding cli2 by fastforce
      qed
    qed
  qed
qed

subsection \<open>The Docker backend as a container backend\<close>

definition docker_up :: "'d Manager \<Rightarrow> string \<Rightarrow> bool" where
  "docker_up m c = (if isSwarmService m c \<noteq> None then scaled_up (cli m) (daemon m) c else running (cli m) (daemon m) c)"

definition docker_unit :: "'d Manager \<Rightarrow> string \<Rightarrow> string" where
  "docker_unit m c = UnitOf (cli m) c"

text \<open>Registered services have a positive scale.\<close>

definition swarm_ok :: "'d Manager \<Rightarrow> bool" where
  "swarm_ok m \<longleftrightarrow> (\<forall>c n. map_of (swarmServices m) c = Some n \<longrightarrow> 1 \<le> n \<and> in_int64 n)"

definition docker_ok :: "'d Manager \<Rightarrow> bool" where
  "docker_ok m \<longleftrightarrow> docker_laws (cli m) \<and> swarm_ok m"

lemma docker_ok_same: "docker_ok m \<Longrightarrow> same_manager m m' \<Longrightarrow> docker_ok m'"
  by (auto simp: docker_ok_def swarm_ok_def dest: same_managerD)

lemma docker_up_other:
  assumes "same_manager m m'" and "only_unit (cli m) c (daemon m) (daemon m')" and "docker_unit m e \<noteq> docker_unit m c"
  shows "docker_up m' e = docker_up m e"
  using assms by (auto simp: docker_up_def docker_unit_def isSwarmService_def only_unit_def dest: same_managerD)

lemma EnsureRunning_result:
  assumes ok: "docker_ok m"
  shows "same_manager m (fst (EnsureRunning m c)) \<and> only_unit (cli m) c (daemon m) (daemon (fst (EnsureRunning m c)))
    \<and> (snd (EnsureRunning m c) \<longrightarrow> docker_up (fst (EnsureRunning m c)) c)"
proof (cases "isSwarmService m c")
  case sw: (Some n)
  have n: "nat (n mod 2 ^ 64) > 0"
    using ok sw unfolding docker_ok_def swarm_ok_def isSwarmService_def in_int64_def by fastforce
  note laws = docker_lawsD [of "cli m"]
  show ?thesis
  proof (cases "service m c")
    case None
    with sw show ?thesis by (simp add: EnsureRunning_def ensureServiceRunning_def)
  next
    case svc: (Some svc)
    show ?thesis
    proof (cases "svc_Replicated svc")
      case None
      with sw svc show ?thesis by (simp add: EnsureRunning_def ensureServiceRunning_def)
    next
      case rep: (Some reps)
      show ?thesis
      proof (cases "reps \<noteq> None \<and> the reps > 0")
        case True
        with sw svc rep show ?thesis
          by (auto simp: EnsureRunning_def ensureServiceRunning_def docker_up_def scaled_up_def)
      next
        case False
        let ?svc = "svc\<lparr>svc_Replicated := Some (Some (nat (n mod 2 ^ 64)))\<rparr>"
        have e: "EnsureRunning m c = on_daemon (\<lambda>d. ServiceUpdate (cli m) d c ?svc) m"
          using sw svc rep False by (auto simp: EnsureRunning_def ensureServiceRunning_def)
        have "docker_up (fst (EnsureRunning m c)) c" if "snd (EnsureRunning m c)"
        proof -
          have "scaled_up (cli m) (fst (ServiceUpdate (cli m) (daemon m) c ?svc)) c"
            using that ok n docker_lawsD(3) [of "cli m" "daemon m" c ?svc] by (simp add: docker_ok_def e)
          moreover have "isSwarmService (fst (EnsureRunning m c)) c \<noteq> None"
            using sw by (simp add: e isSwarmService_def)
          ultimately show ?thesis by (simp add: docker_up_def e)
        qed
        moreover have "only_unit (cli m) c (daemon m) (daemon (fst (EnsureRunning m c)))"
          using ok docker_lawsD(6) [of "cli m"] by (simp add: e docker_ok_def)
        ultimately show ?thesis by (simp add: e)
      qed
    qed
  qed
next
  case sw: None
  show ?thesis
  proof (cases "inspect m c")
    case (Found r)
    show ?thesis
    proof (cases "ci_Running r")
      case True
      with sw Found show ?thesis by (simp add: EnsureRunning_def docker_up_def running_def)
    next
      case False
      have e: "EnsureRunning m c = on_daemon (\<lambda>d. ContainerStart (cli m) d c) m"
        using sw Found False by (simp add: EnsureRunning_def)
      have "running (cli m) (fst (ContainerStart (cli m) (daemon m) c)) c" if "snd (EnsureRunning m c)"
        using that ok docker_lawsD(1) [of "cli m" "daemon m" c] by (simp add: e docker_ok_def)
      moreover have "isSwarmService (fst (EnsureRunning m c)) c = None"
        using sw by (simp add: e isSwarmService_def)
      ultimately show ?thesis using ok docker_lawsD(4) [of "cli m"] by (simp add: e docker_up_def docker_ok_def)
    qed
  next
    case NotFound
    obtain m' res where rp: "reprovisionWithCompose c m = (m', res)" by (rule prod.exhaust)
    have e: "EnsureRunning m c = (m', res = Some True)"
      using sw NotFound rp by (auto simp: EnsureRunning_def split: option.splits)
    from reprovision_result [OF _ rp] ok have res: "same_manager m m' \<and> only_unit (cli m) c (daemon m) (daemon m')
      \<and> (res = Some True \<longrightarrow> running (cli m) (daemon m') c)" by (simp add: docker_ok_def)
    moreover have "isSwarmService m' c = None" using sw res by (auto simp: isSwarmService_def dest: same_managerD(3))
    moreover have "cli m' = cli m" using res by (blast dest: same_managerD)
    ultimately show ?thesis by (simp add: e docker_up_def)
  next
    case ApiError
    with sw show ?thesis by (simp add: EnsureRunning_def)
  qed
qed

lemma StopContainer_result:
  assumes ok: "docker_ok m"
  shows "same_manager m (fst (StopContainer m c n)) \<and> only_unit (cli m) c (daemon m) (daemon (fst (StopContainer m c n)))
    \<and> (snd (StopContainer m c n) \<longrightarrow> \<not> docker_up (fst (StopContainer m c n)) c)"
proof (cases "isSwarmService m c")
  case sw: None
  have e: "StopContainer m c n = on_daemon (\<lambda>d. ContainerStop (cli m) d c) m" using sw by (simp add: StopContainer_def)
  have "\<not> running (cli m) (fst (ContainerStop (cli m) (daemon m) c)) c" if "snd (StopContainer m c n)"
    using that ok docker_lawsD(2) [of "cli m" "daemon m" c] by (simp add: e docker_ok_def)
  moreover have "isSwarmService (fst (StopContainer m c n)) c = None"
    using sw by (simp add: e isSwarmService_def)
  ultimately show ?thesis using ok docker_lawsD(5) [of "cli m"] by (simp add: e docker_up_def docker_ok_def)
next
  case sw: (Some k)
  show ?thesis
  proof (cases "Option.bind (service m c) svc_Replicated")
    case None
    with sw show ?thesis
      by (auto simp: StopContainer_def stopService_def split: option.splits Option.bind_splits)
  next
    case (Some reps)
    then obtain svc where svc: "service m c = Some svc" "svc_Replicated svc = Some reps" by (auto simp: bind_eq_Some_conv)
    show ?thesis
    proof (cases "reps \<noteq> None \<and> the reps = 0")
      case True
      with sw svc show ?thesis
        by (auto simp: StopContainer_def stopService_def docker_up_def scaled_up_def)
    next
      case False
      let ?svc = "svc\<lparr>svc_Replicated := Some (Some 0)\<rparr>"
      have e: "StopContainer m c n = on_daemon (\<lambda>d. ServiceUpdate (cli m) d c ?svc) m"
        using sw svc False by (auto simp: StopContainer_def stopService_def)
      have "\<not> scaled_up (cli m) (fst (ServiceUpdate (cli m) (daemon m) c ?svc)) c" if "snd (StopContainer m c n)"
        using that ok docker_lawsD(3) [of "cli m" "daemon m" c ?svc]
        by (simp add: e docker_ok_def)
      moreover have "isSwarmService (fst (StopContainer m c n)) c \<noteq> None"
        using sw by (simp add: e isSwarmService_def)
      ultimately show ?thesis using ok docker_lawsD(6) [of "cli m"] by (simp add: e docker_up_def docker_ok_def)
    qed
  qed
qed

interpretation dk: container_backend EnsureRunning StopContainer docker_up docker_unit docker_ok
proof
  fix b :: "'d Manager" and c d n :: string
  assume ok: "docker_ok b"
  note e = EnsureRunning_result [OF ok, of c] and st = StopContainer_result [OF ok, of c n]
  show "docker_ok (fst (EnsureRunning b c)) \<and> docker_unit (fst (EnsureRunning b c)) = docker_unit b"
    using e docker_ok_same [OF ok] by (auto simp: docker_unit_def fun_eq_iff dest: same_managerD)
  show "docker_ok (fst (StopContainer b c n)) \<and> docker_unit (fst (StopContainer b c n)) = docker_unit b"
    using st docker_ok_same [OF ok] by (auto simp: docker_unit_def fun_eq_iff dest: same_managerD)
  show "docker_up (fst (EnsureRunning b c)) c" if "snd (EnsureRunning b c)" using e that by blast
  show "\<not> docker_up (fst (StopContainer b c n)) c" if "snd (StopContainer b c n)" using st that by blast
  show "docker_up (fst (EnsureRunning b c)) d = docker_up b d" if "docker_unit b d \<noteq> docker_unit b c"
    using docker_up_other [OF _ _ that] e by blast
  show "docker_up (fst (StopContainer b c n)) d = docker_up b d" if "docker_unit b d \<noteq> docker_unit b c"
    using docker_up_other [OF _ _ that] st by blast
qed

subsection \<open>Properties\<close>

text \<open>A daemon with containers by name and a clock, for the witnesses.\<close>

type_synonym demo_daemon = "(string \<Rightarrow> bool option) \<times> int"

definition demo_container :: "bool \<Rightarrow> ContainerInspectResult" where
  "demo_container b = \<lparr>ci_Name = '''', ci_Labels = (\<lambda>_. None), ci_Networks = [], ci_Running = b, ci_Health = None\<rparr>"

definition demo_docker :: "demo_daemon docker_api" where
  "demo_docker =
     \<lparr>ContainerInspect = (\<lambda>d c. case fst d c of None \<Rightarrow> NotFound | Some b \<Rightarrow> Found (demo_container b)),
      ContainerStart = (\<lambda>d c. if fst d c = None then (d, False) else (((fst d)(c \<mapsto> True), snd d), True)),
      ContainerStop = (\<lambda>d c. if fst d c = None then (d, False) else (((fst d)(c \<mapsto> False), snd d), True)),
      NetworkInspect = (\<lambda>d n. None), NetworkConnect = (\<lambda>d n c. (d, False)), NetworkDisconnect = (\<lambda>d n c. (d, False)),
      ServiceInspect = (\<lambda>d c. None), ServiceUpdate = (\<lambda>d c svc. (d, False)),
      Stat = (\<lambda>f. f = ''/c/web.yml''), ImageLoad = (\<lambda>d f. (d, False)), ComposeLoad = (\<lambda>d c f. True),
      ComposeUp = (\<lambda>d c f. (((fst d)(c \<mapsto> False), snd d), True)),
      Sleep = (\<lambda>d c. (fst d, snd d + second)), Clock = snd, UnitOf = (\<lambda>c. c)\<rparr>"

definition demo_manager :: "demo_daemon Manager" where
  "demo_manager = NewManager demo_docker ([''c1'' \<mapsto> True, ''c2'' \<mapsto> True], 0) ''''"

lemma demo_docker_laws: "docker_laws demo_docker"
  by (auto simp: docker_laws_def only_unit_def running_def scaled_up_def demo_docker_def demo_container_def split: if_splits)

lemma demo_manager_ok: "docker_ok demo_manager"
  by (simp add: docker_ok_def swarm_ok_def demo_manager_def NewManager_def demo_docker_laws)



text \<open>
  On Docker the inactivity check spares every container that is not idle: unless an idle
  container shares its unit (its compose project, say), it is up afterwards exactly when it was.
\<close>

theorem idle_check_spares_other_containers:
  assumes "docker_ok m" and "\<And>c. declares_on_demand s c \<Longrightarrow> all_quiet now s c \<Longrightarrow> docker_unit m c \<noteq> docker_unit m d"
  shows "docker_up (fst (fst (checkInactivity StopContainer now (m, s)))) d = docker_up m d"
  using dk.check_only_stops_idle [of "(m, s)" now d] assms container_idle_iff by simp

theorem idle_check_spares_other_containers_witness:
  "docker_up (fst (fst (checkInactivity StopContainer (10 * second) (demo_manager, demo_server)))) ''c2''"
proof -
  have "docker_up (fst (fst (checkInactivity StopContainer (10 * second) (demo_manager, demo_server)))) ''c2''
      = docker_up demo_manager ''c2''"
  proof (rule idle_check_spares_other_containers [OF demo_manager_ok])
    fix c assume "declares_on_demand demo_server c" "all_quiet (10 * second) demo_server c"
    show "docker_unit demo_manager c \<noteq> docker_unit demo_manager ''c2''"
    proof -
      have "map (\<lambda>x. ContainerID (ts_info (snd x))) (srv_targets demo_server) = [''c1'']" "srv_udpTargets demo_server = []"
        by (simp_all add: demo_server_def RegisterTarget_def NewServer_def register_tcp_def new_tcp_def tcp_conflict_def
            demo_web_def zero_info_def)
      then have "c = ''c1''" using \<open>declares_on_demand demo_server c\<close>
        by (auto simp: declares_on_demand_def list_ex_iff eligible_tcp_def)
      then show ?thesis by (simp add: docker_unit_def demo_manager_def NewManager_def demo_docker_def)
    qed
  qed
  then show ?thesis by (simp add: docker_up_def isSwarmService_def running_def demo_manager_def NewManager_def
        demo_docker_def demo_container_def)
qed

text \<open>
  The wait for a re-provisioned container always ends: when every poll interval takes at least
  a second, the polls the model allows are enough for the thirty-second deadline.
\<close>

theorem reprovision_wait_ends:
  assumes "clock_advances (cli m)"
  shows "waitForContainerRunning wait_fuel name (Clock (cli m) (daemon m) + composeWaitTimeout) m \<noteq> None"
proof -
  have "wait_fuel = Suc 31" by (simp add: wait_fuel_def)
  then show ?thesis
    using wait_returns [OF assms, of "Clock (cli m) (daemon m) + composeWaitTimeout" 31 name]
    by (simp add: composeWaitTimeout_def)
qed

theorem reprovision_wait_ends_witness:
  "waitForContainerRunning wait_fuel ''db'' (30 * second) demo_manager \<noteq> None"
  using reprovision_wait_ends [of demo_manager "''db''"]
  by (simp add: clock_advances_def demo_manager_def NewManager_def demo_docker_def composeWaitTimeout_def)

end
