(* ===== verification/Target_Handler.thy ===== *)
theory Target_Handler
  imports Server_Lifecycle
begin

text \<open>
  The \<open>types.TargetHandler\<close> interface between the backends and whoever keeps their targets: the
  proxy server, and the collector the configuration overlay puts in front of it. A backend's
  discovery and event handlers return the list of calls they make.
\<close>

datatype handler_call =
    HRegister TargetInfo
  | HRemove string
  | HStopped string
  | HStarted string
  | HRemoved string

text \<open>The targets a list of calls registers.\<close>

definition registered :: "handler_call list \<Rightarrow> TargetInfo list" where
  "registered cs = List.map_filter (\<lambda>c. case c of HRegister info \<Rightarrow> Some info | _ \<Rightarrow> None) cs"

lemma registered_simps [simp]:
  "registered [] = []"
  "registered (HRegister info # cs) = info # registered cs"
  "registered (HRemove c # cs) = registered cs"
  "registered (HStopped c # cs) = registered cs"
  "registered (HStarted c # cs) = registered cs"
  "registered (HRemoved c # cs) = registered cs"
  by (simp_all add: registered_def List.map_filter_def)

lemma registered_append [simp]: "registered (xs @ ys) = registered xs @ registered ys"
  by (simp add: registered_def map_filter_eq_concat)

text \<open>
  What discovery relies on: registering a target adds at most this target and drops none. What the
  event loops rely on besides: a handler knows a target until its removal, and the events of a
  container neither add nor remove one.
\<close>

locale target_sink =
  fixes handle :: "'h \<Rightarrow> handler_call \<Rightarrow> 'h"
    and ids :: "'h \<Rightarrow> string set"
    and ok :: "'h \<Rightarrow> bool"
  assumes handle_ok: "ok h \<Longrightarrow> ok (handle h call)"
    and register_ids: "ok h \<Longrightarrow> ids h \<subseteq> ids (handle h (HRegister info)) \<and> ids (handle h (HRegister info)) \<subseteq> insert (ContainerID info) (ids h)"
begin

lemma handle_all_ok: "ok h \<Longrightarrow> ok (foldl handle h cs)"
  by (induction cs arbitrary: h) (auto intro: handle_ok)

end

locale target_handler = target_sink +
  assumes remove_ids: "ok h \<Longrightarrow> ids (handle h (HRemove c)) = ids h - {c}"
    and event_ids: "ok h \<Longrightarrow> ids (handle h (HStopped c)) = ids h \<and> ids (handle h (HStarted c)) = ids h
        \<and> ids (handle h (HRemoved c)) = ids h"
begin

lemma one_upper: "ok h \<Longrightarrow> ids (handle h c) \<subseteq> ids h \<union> ContainerID ` set (registered [c])"
  using register_ids [of h] remove_ids [of h] event_ids [of h] by (cases c) auto

lemma one_lower: "ok h \<Longrightarrow> ids h - {d. HRemove d = c} \<subseteq> ids (handle h c)"
  using register_ids [of h] remove_ids [of h] event_ids [of h] by (cases c) auto

lemma ids_upper:
  "ok h \<Longrightarrow> ids (foldl handle h cs) \<subseteq> ids h \<union> ContainerID ` set (registered cs)"
proof (induction cs arbitrary: h)
  case (Cons c cs)
  have "set (registered (c # cs)) = set (registered [c]) \<union> set (registered cs)"
    using registered_append [of "[c]" cs] by simp
  with Cons.IH [OF handle_ok [OF Cons.prems]] one_upper [OF Cons.prems, of c] show ?case by simp blast
qed simp

lemma ids_lower:
  "ok h \<Longrightarrow> ids h - {c. HRemove c \<in> set cs} \<subseteq> ids (foldl handle h cs)"
proof (induction cs arbitrary: h)
  case (Cons c cs)
  show ?case using Cons.IH [OF handle_ok [OF Cons.prems], of c] one_lower [OF Cons.prems, of c] by auto
qed simp

text \<open>A backend that registers and removes nothing leaves the set of targets alone.\<close>

lemma ids_unchanged:
  assumes "ok h" and "registered cs = []" and "\<And>c. HRemove c \<notin> set cs"
  shows "ids (foldl handle h cs) = ids h"
  using ids_upper [OF assms(1), of cs] ids_lower [OF assms(1), of cs] assms(2,3) by auto

end

subsection \<open>The proxy server as a handler\<close>

definition server_handle ::
  "(bool \<Rightarrow> int \<Rightarrow> bool) \<Rightarrow> instant \<Rightarrow> ProxyServer \<Rightarrow> handler_call \<Rightarrow> ProxyServer \<times> server_effect list" where
  "server_handle listen now s call =
     (case call of
        HRegister info \<Rightarrow> RegisterTarget listen s info
      | HRemove c \<Rightarrow> RemoveTarget s c
      | HStopped c \<Rightarrow> ContainerStopped s c
      | HStarted c \<Rightarrow> ContainerStarted now s c
      | HRemoved c \<Rightarrow> (ContainerRemoved s c, []))"

definition server_ids :: "ProxyServer \<Rightarrow> string set" where
  "server_ids s = {ContainerID i | k i. bound s k = Some i} \<union> {c. cron_bound s c \<noteq> None}"

lemma server_idsI:
  "bound s k = Some i \<Longrightarrow> ContainerID i \<in> server_ids s"
  "cron_bound s c \<noteq> None \<Longrightarrow> c \<in> server_ids s"
  unfolding server_ids_def by blast+

lemma server_idsE:
  assumes "x \<in> server_ids s"
  obtains k i where "bound s k = Some i" "ContainerID i = x" | "cron_bound s x \<noteq> None"
  using assms unfolding server_ids_def by blast

lemma server_ids_register:
  "server_ids s \<subseteq> server_ids (fst (RegisterTarget listen s info))
   \<and> server_ids (fst (RegisterTarget listen s info)) \<subseteq> insert (ContainerID info) (server_ids s)"
proof (cases "conflicting s info")
  case False
  note b = bound_RegisterTarget [OF False, of listen] and c = cron_RegisterTarget [OF False, of listen]
  have same: "ContainerID i = ContainerID info" if "bound s k = Some i" "k \<in> declared info" for k i
    using False that unfolding conflicting_def by blast
  show ?thesis
  proof (intro conjI subsetI)
    fix x assume "x \<in> server_ids s"
    then show "x \<in> server_ids (fst (RegisterTarget listen s info))"
    proof (cases rule: server_idsE)
      case (1 k i)
      then have "bound (fst (RegisterTarget listen s info)) k = Some (if k \<in> declared info then info else i)"
        using 1(1) by (simp add: b)
      from server_idsI(1) [OF this] same [OF 1(1)] 1(2) show ?thesis by (cases "k \<in> declared info") simp_all
    next
      case 2 then show ?thesis by (intro server_idsI(2)) (simp add: c)
    qed
  next
    fix x assume "x \<in> server_ids (fst (RegisterTarget listen s info))"
    then show "x \<in> insert (ContainerID info) (server_ids s)"
    proof (cases rule: server_idsE)
      case (1 k i)
      then show ?thesis using server_idsI(1) [of s k i] by (auto simp: b split: if_splits)
    next
      case 2 then show ?thesis using server_idsI(2) [of s x] by (auto simp: c split: if_splits)
    qed
  qed
qed (simp add: register_conflict subset_insertI)

lemma server_ids_remove:
  assumes "srv_ok s"
  shows "server_ids (fst (RemoveTarget s c)) = server_ids s - {c}"
proof (intro equalityI subsetI)
  fix x assume "x \<in> server_ids (fst (RemoveTarget s c))"
  then show "x \<in> server_ids s - {c}"
  proof (cases rule: server_idsE)
    case (1 k i)
    then have "bound s k = Some i" "ContainerID i \<noteq> c"
      by (auto simp: bound_RemoveTarget [OF assms] split: option.splits if_splits)
    with 1(2) show ?thesis using server_idsI(1) by blast
  next
    case 2 then show ?thesis using server_idsI(2) [of s x] by (auto simp: cron_RemoveTarget split: if_splits)
  qed
next
  fix x assume x: "x \<in> server_ids s - {c}"
  then have "x \<in> server_ids s" "x \<noteq> c" by auto
  from this(1) show "x \<in> server_ids (fst (RemoveTarget s c))"
  proof (cases rule: server_idsE)
    case (1 k i)
    with x have "bound (fst (RemoveTarget s c)) k = Some i" by (simp add: bound_RemoveTarget [OF assms])
    with 1(2) show ?thesis using server_idsI(1) by blast
  next
    case 2 with \<open>x \<noteq> c\<close> show ?thesis by (intro server_idsI(2)) (simp add: cron_RemoveTarget)
  qed
qed

lemma each_bound:
  assumes "\<And>ts. ts_info (f ts) = ts_info ts"
  shows "bound (each_tcp c f s) k = bound s k" "cron_bound (each_tcp c f s) = cron_bound s"
  using assms by (auto simp: bound_def cron_bound_def each_tcp_def fun_eq_iff option.map_comp comp_def intro!: map_option_cong)

lemma each_udp_bound:
  assumes "\<And>u. uls_info (f u) = uls_info u"
  shows "bound (each_udp c f s) k = bound s k" "cron_bound (each_udp c f s) = cron_bound s"
  using assms by (auto simp: bound_def cron_bound_def each_udp_def fun_eq_iff option.map_comp comp_def intro!: map_option_cong)

lemma each_cron_bound:
  "bound (each_cron c f s) k = bound s k" "cron_bound (each_cron c f s) d = None \<longleftrightarrow> cron_bound s d = None"
  by (simp_all add: bound_def cron_bound_def each_cron_def)

lemma server_ids_events:
  "server_ids (fst (ContainerStopped s c)) = server_ids s"
  "server_ids (fst (ContainerStarted now s c)) = server_ids s"
  "server_ids (ContainerRemoved s c) = server_ids s"
  by (simp_all add: server_ids_def ContainerStopped_def ContainerStarted_def ContainerRemoved_def Let_def
      set_running_def reset_upstream_def each_bound each_udp_bound each_cron_bound)

lemma each_ok:
  "srv_ok s \<Longrightarrow> (\<And>ts. ts_listenPort (f ts) = ts_listenPort ts \<and> ts_removed (f ts) = ts_removed ts) \<Longrightarrow> srv_ok (each_tcp c f s)"
  "srv_ok s \<Longrightarrow> (\<And>u. uls_listenPort (g u) = uls_listenPort u \<and> uls_removed (g u) = uls_removed u) \<Longrightarrow> srv_ok (each_udp c g s)"
  "srv_ok s \<Longrightarrow> (\<And>ct. ct_id (k ct) = ct_id ct) \<Longrightarrow> srv_ok (each_cron c k s)"
  by (auto simp: srv_ok_def each_tcp_def each_udp_def each_cron_def)

lemma event_ok:
  assumes "srv_ok s"
  shows "srv_ok (fst (ContainerStopped s c))" "srv_ok (fst (ContainerStarted now s c))" "srv_ok (ContainerRemoved s c)"
  unfolding ContainerStopped_def ContainerStarted_def ContainerRemoved_def Let_def set_running_def fst_conv
  by (intro each_ok assms; simp add: reset_upstream_def)+

interpretation srv: target_handler "\<lambda>s c. fst (server_handle listen now s c)" server_ids srv_ok
proof
  fix h :: ProxyServer and c :: handler_call
  assume ok: "srv_ok h"
  show "srv_ok (fst (server_handle listen now h c))"
    using RegisterTarget_ok [OF ok] RemoveTarget_ok [OF ok] event_ok [OF ok]
    by (cases c) (simp_all add: server_handle_def)
qed (simp_all add: server_handle_def server_ids_register server_ids_remove server_ids_events)

end
