(* ===== verification/Proxy_System.thy ===== *)
theory Proxy_System
  imports Target_Handler Proxy_Conn
begin

text \<open>
  The proxy server as a whole: registrations, container events, connections, cron jobs, the idle check
  and the cascades these launch, interleaved in any order. An update of the configuration is the sequence
  of removals and registrations it makes, so other operations come between them as they do in the
  program, where each takes the server's lock of its own.
\<close>

subsection \<open>Steps\<close>

text \<open>The cascades that were launched (\<open>go s.cascadeStart(info)\<close>) and have not run yet are part of the state.\<close>

record 'b proxy_sys =
  px_backend :: 'b
  px_server :: ProxyServer
  px_cascades :: "server_effect list"

datatype proxy_label = Handled handler_call | Connected conn_env int | CronStarted string string
  | CronStopped string string | IdleChecked | CascadeRun TargetInfo

definition launched :: "server_effect list \<Rightarrow> server_effect list" where
  "launched es = filter (\<lambda>e. case e of StartCascade _ \<Rightarrow> True | StopCascade _ \<Rightarrow> True | _ \<Rightarrow> False) es"

definition after :: "'b proxy_sys \<Rightarrow> ('b \<times> ProxyServer) \<times> server_effect list \<Rightarrow> 'b proxy_sys" where
  "after \<sigma> r = \<lparr>px_backend = fst (fst r), px_server = snd (fst r), px_cascades = px_cascades \<sigma> @ launched (snd r)\<rparr>"

abbreviation both :: "'b proxy_sys \<Rightarrow> 'b \<times> ProxyServer" where
  "both \<sigma> \<equiv> (px_backend \<sigma>, px_server \<sigma>)"

inductive proxy_step ::
  "('b \<Rightarrow> string \<Rightarrow> 'b \<times> bool) \<Rightarrow> ('b \<Rightarrow> string \<Rightarrow> string \<Rightarrow> 'b \<times> bool) \<Rightarrow> (bool \<Rightarrow> int \<Rightarrow> bool) \<Rightarrow> (string \<Rightarrow> string \<Rightarrow> bool)
     \<Rightarrow> proxy_label \<Rightarrow> 'b proxy_sys \<Rightarrow> server_effect list \<Rightarrow> 'b proxy_sys \<Rightarrow> bool"
  for ensure stop listen bcrypt where
  handler: "server_handle listen now (px_server \<sigma>) call = (s', es)
     \<Longrightarrow> proxy_step ensure stop listen bcrypt (Handled call) \<sigma> es (after \<sigma> ((px_backend \<sigma>, s'), es))"
| connection: "handleConn bcrypt ensure env (both \<sigma>) p = (bs, es, out)
     \<Longrightarrow> proxy_step ensure stop listen bcrypt (Connected env p) \<sigma> es (after \<sigma> (bs, es))"
| cron_start: "CronStart_run ensure now (both \<sigma>) cid name = (bs, es)
     \<Longrightarrow> proxy_step ensure stop listen bcrypt (CronStarted cid name) \<sigma> es (after \<sigma> (bs, es))"
| cron_stop: "CronStop_run stop (both \<sigma>) cid name = (bs, es)
     \<Longrightarrow> proxy_step ensure stop listen bcrypt (CronStopped cid name) \<sigma> es (after \<sigma> (bs, es))"
| idle: "checkInactivity stop now (both \<sigma>) = (bs, es)
     \<Longrightarrow> proxy_step ensure stop listen bcrypt IdleChecked \<sigma> es (after \<sigma> (bs, es))"
| start_cascade: "px_cascades \<sigma> = q @ StartCascade info # q' \<Longrightarrow> cascadeStart ensure (both \<sigma>) info = (bs, es)
     \<Longrightarrow> proxy_step ensure stop listen bcrypt (CascadeRun info) \<sigma> es (after (\<sigma>\<lparr>px_cascades := q @ q'\<rparr>) (bs, es))"
| stop_cascade: "px_cascades \<sigma> = q @ StopCascade info # q' \<Longrightarrow> cascadeStop stop (both \<sigma>) info = (bs, es)
     \<Longrightarrow> proxy_step ensure stop listen bcrypt (CascadeRun info) \<sigma> es (after (\<sigma>\<lparr>px_cascades := q @ q'\<rparr>) (bs, es))"

inductive_cases proxy_stepE: "proxy_step ensure stop listen bcrypt l \<sigma> es \<sigma>'"

lemma handled_step:
  assumes "proxy_step ensure stop listen bcrypt (Handled call) \<sigma> es \<sigma>'"
  obtains now where "server_handle listen now (px_server \<sigma>) call = (px_server \<sigma>', es)"
  using assms by (auto elim!: proxy_stepE simp: after_def)

text \<open>Runs from a new server, with the labels and effects so far.\<close>

inductive proxy_run ::
  "('b \<Rightarrow> string \<Rightarrow> 'b \<times> bool) \<Rightarrow> ('b \<Rightarrow> string \<Rightarrow> string \<Rightarrow> 'b \<times> bool) \<Rightarrow> (bool \<Rightarrow> int \<Rightarrow> bool) \<Rightarrow> (string \<Rightarrow> string \<Rightarrow> bool)
     \<Rightarrow> proxy_label list \<Rightarrow> server_effect list \<Rightarrow> 'b proxy_sys \<Rightarrow> bool"
  for ensure stop listen bcrypt where
  start: "proxy_run ensure stop listen bcrypt [] []
     \<lparr>px_backend = b, px_server = SetScheduler (NewServer t i p st tls), px_cascades = []\<rparr>"
| step: "proxy_run ensure stop listen bcrypt ls es \<sigma> \<Longrightarrow> proxy_step ensure stop listen bcrypt l \<sigma> es' \<sigma>'
     \<Longrightarrow> proxy_run ensure stop listen bcrypt (ls @ [l]) (es @ es') \<sigma>'"

subsection \<open>What leaves the registry alone\<close>

definition same_listeners :: "ProxyServer \<Rightarrow> ProxyServer \<Rightarrow> bool" where
  "same_listeners s s' \<longleftrightarrow> (\<forall>k. bound s' k = bound s k) \<and> (\<forall>c. cron_bound s' c = None \<longleftrightarrow> cron_bound s c = None)
     \<and> srv_nameToID s' = srv_nameToID s \<and> (srv_ok s \<longrightarrow> srv_ok s')"

lemma same_listeners_refl [simp, intro]: "same_listeners s s"
  by (simp add: same_listeners_def)

lemma same_listeners_trans: "same_listeners s s' \<Longrightarrow> same_listeners s' s'' \<Longrightarrow> same_listeners s s''"
  by (auto simp: same_listeners_def)

lemma same_listeners_ids: "same_listeners s s' \<Longrightarrow> server_ids s' = server_ids s"
  by (simp add: same_listeners_def server_ids_def)

lemma same_each [intro]:
  "(\<And>ts. ts_info (f ts) = ts_info ts \<and> ts_listenPort (f ts) = ts_listenPort ts \<and> ts_removed (f ts) = ts_removed ts)
     \<Longrightarrow> same_listeners s (each_tcp c f s)"
  "(\<And>u. uls_info (g u) = uls_info u \<and> uls_listenPort (g u) = uls_listenPort u \<and> uls_removed (g u) = uls_removed u)
     \<Longrightarrow> same_listeners s (each_udp c g s)"
  "(\<And>ct. ct_id (h ct) = ct_id ct) \<Longrightarrow> same_listeners s (each_cron c h s)"
  by (auto simp: same_listeners_def each_bound each_udp_bound each_cron_bound each_ok frame)

lemma same_update_tcp:
  assumes "\<And>ts. ts_info (f ts) = ts_info ts \<and> ts_listenPort (f ts) = ts_listenPort ts \<and> ts_removed (f ts) = ts_removed ts"
  shows "same_listeners s (update_tcp p f s)"
  using assms by (auto simp: same_listeners_def update_tcp_def bound_def cron_bound_def srv_ok_def option.map_comp comp_def
      intro!: map_option_cong split: if_splits)

text \<open>
  What every operation but registrations, removals and connections keeps: a relation between the server
  before and after that the changes of flags and descriptions respect.
\<close>

locale server_relation =
  fixes rel :: "ProxyServer \<Rightarrow> ProxyServer \<Rightarrow> bool"
  assumes rel_refl: "rel s s"
    and rel_trans: "rel s s' \<Longrightarrow> rel s' s'' \<Longrightarrow> rel s s''"
    and rel_each_tcp: "(\<And>ts. ts_info (f ts) = ts_info ts \<and> ts_listenPort (f ts) = ts_listenPort ts
        \<and> ts_removed (f ts) = ts_removed ts \<and> ts_activeConns (f ts) = ts_activeConns ts) \<Longrightarrow> rel s (each_tcp c f s)"
    and rel_each_udp: "(\<And>u. uls_info (g u) = uls_info u \<and> uls_listenPort (g u) = uls_listenPort u
        \<and> uls_removed (g u) = uls_removed u) \<Longrightarrow> rel s (each_udp c g s)"
    and rel_each_cron: "(\<And>ct. ct_id (h ct) = ct_id ct) \<Longrightarrow> rel s (each_cron c h s)"
    and rel_entry_stopped: "rel s (fst (entry_stopped s ce))"
begin

lemma rel_each_run:
  "rel s (each_udp c (\<lambda>u. u\<lparr>uls_running := b\<rparr>) (each_tcp c (\<lambda>t. t\<lparr>ts_running := b\<rparr>) s))"
  by (rule rel_trans [OF rel_each_tcp rel_each_udp]) simp_all

lemma rel_set_running: "rel s (set_running b c s)"
  unfolding set_running_def
  by (rule rel_trans [OF rel_trans [OF rel_each_tcp rel_each_udp] rel_each_cron]) simp_all

lemma rel_run_each:
  assumes "\<And>bs x. rel (snd bs) (snd (fst (f bs x)))"
  shows "rel (snd bs) (snd (fst (run_each f bs xs)))"
proof (induction xs arbitrary: bs)
  case (Cons x xs)
  show ?case using rel_trans [OF assms Cons.IH] by (simp add: case_prod_unfold)
qed (simp add: rel_refl)

lemma rel_events:
  "rel s (fst (ContainerStopped s c))"
  "rel s (fst (ContainerStarted now s c))"
  "rel s (ContainerRemoved s c)"
  unfolding ContainerStopped_def ContainerStarted_def ContainerRemoved_def Let_def fst_conv
  by (rule rel_trans [OF rel_set_running rel_each_udp], simp add: reset_upstream_def)
     (rule rel_trans [OF rel_trans [OF rel_each_tcp rel_each_udp] rel_each_cron]
        rel_trans [OF rel_each_tcp rel_each_udp]; simp add: reset_upstream_def)+

lemma rel_cron:
  "rel (snd bs) (snd (fst (CronStart_run ensure now bs c n)))"
  "rel (snd bs) (snd (fst (CronStop_run stop bs c n)))"
  by (auto simp: CronStart_run_def CronStop_run_def cron_started_def cron_stopped_def Let_def case_prod_unfold
      rel_set_running rel_refl split: bool.splits)

lemma rel_cascades:
  "rel (snd bs) (snd (fst (cascadeStart ensure bs info)))"
  "rel (snd bs) (snd (fst (cascadeStop stop bs info)))"
  unfolding cascadeStart_def cascadeStop_def
  by (rule rel_run_each; auto simp: cascade_start_one_def cascade_stop_one_def case_prod_unfold rel_refl
      intro: rel_each_run split: option.splits bool.splits)+

lemma rel_idle: "rel (snd bs) (snd (fst (checkInactivity stop now bs)))"
  unfolding checkInactivity_def
  by (rule rel_run_each) (auto simp: stop_idle_entry_def case_prod_unfold rel_entry_stopped rel_refl split: bool.splits)

text \<open>Steps that neither change the set of targets nor serve a connection.\<close>

lemma rel_step:
  assumes "proxy_step ensure stop listen bcrypt l \<sigma> es \<sigma>'"
    and "\<nexists>i. l = Handled (HRegister i)" and "\<nexists>c. l = Handled (HRemove c)" and "\<nexists>env p. l = Connected env p"
  shows "rel (px_server \<sigma>) (px_server \<sigma>')"
  using assms(1)
proof cases
  case (handler now call s')
  with assms(2,3) rel_events [of "px_server \<sigma>"] show ?thesis
    by (cases call) (auto simp: server_handle_def after_def dest!: arg_cong [of _ _ fst])
next
  case connection
  with assms(4) show ?thesis by blast
next
  case (cron_start now cid name bs)
  with rel_cron(1) [of "both \<sigma>" ensure now cid name] show ?thesis by (simp add: after_def)
next
  case (cron_stop cid name bs)
  with rel_cron(2) [of "both \<sigma>" stop cid name] show ?thesis by (simp add: after_def)
next
  case (idle now bs)
  with rel_idle [of "both \<sigma>" stop now] show ?thesis by (simp add: after_def)
next
  case (start_cascade q info q' bs)
  with rel_cascades(1) [of "both \<sigma>" ensure info] show ?thesis by (simp add: after_def)
next
  case (stop_cascade q info q' bs)
  with rel_cascades(2) [of "both \<sigma>" stop info] show ?thesis by (simp add: after_def)
qed

end

interpretation listeners: server_relation same_listeners
proof
  fix s :: ProxyServer and ce
  show "same_listeners s (fst (entry_stopped s ce))"
    by (cases ce) (auto simp: entry_stopped_def same_listeners_def bound_def cron_bound_def srv_ok_def
        option.map_comp comp_def intro!: map_option_cong split: if_splits)
qed (blast intro: same_listeners_trans same_each)+

lemmas same_events = listeners.rel_events
lemmas same_cascades = listeners.rel_cascades

lemma same_conn_steps:
  "same_listeners s (conn_open p s)" "same_listeners s (conn_close p s)" "same_listeners s (conn_touch p t s)"
  "same_listeners s (fst (conn_started now c s))" "same_listeners s (fst (conn_serve bcrypt env ts p s))"
proof -
  show touch: "same_listeners s (conn_touch p t s)" for t
    unfolding conn_touch_def by (rule same_update_tcp) simp
  show "same_listeners s (fst (conn_serve bcrypt env ts p s))"
    by (auto simp: conn_serve_def touch case_prod_unfold split: option.splits)
qed (auto simp: conn_open_def conn_close_def conn_started_def intro: same_update_tcp listeners.rel_each_run)

lemma same_handleConn: "same_listeners (snd bs) (snd (fst (handleConn bcrypt ensure env bs p)))"
proof (cases "map_of (srv_targets (snd bs)) p")
  case None
  then show ?thesis by (simp add: handleConn_def case_prod_unfold)
next
  case (Some ts)
  let ?s = "conn_open p (snd bs)"
  note step = same_listeners_trans [OF _ same_conn_steps(2)] and o = same_conn_steps(1) [of "snd bs" p]
  have "same_listeners (snd bs) (conn_close p ?s)" by (rule step [OF o])
  moreover have "same_listeners (snd bs) (conn_close p (fst (conn_serve bcrypt env ts p ?s)))"
    by (rule step [OF same_listeners_trans [OF o same_conn_steps(5)]])
  moreover have "same_listeners (snd bs) (conn_close p (fst (conn_serve bcrypt env ts p (fst (conn_started t c ?s)))))" for t c
    by (rule step [OF same_listeners_trans [OF same_listeners_trans [OF o same_conn_steps(4)] same_conn_steps(5)]])
  ultimately show ?thesis
    using Some by (auto simp: handleConn_def case_prod_unfold Let_def split: bool.splits)
qed


subsection \<open>Which containers the server starts and stops\<close>

definition touched :: "server_effect list \<Rightarrow> string set" where
  "touched es = (\<Union>e \<in> set es. case e of CallEnsure c \<Rightarrow> {c} | CallStop c _ \<Rightarrow> {c} | _ \<Rightarrow> {})"

lemma touched_simps [simp]:
  "touched [] = {}" "touched (es @ es') = touched es \<union> touched es'"
  "touched (CallEnsure c # es) = insert c (touched es)" "touched (CallStop c n # es) = insert c (touched es)"
  by (auto simp: touched_def)

lemma touched_none [simp]:
  "touched (collect s calls) = {}" "touched (lifecycle_webhook info ev c n) = {}"
  "touched (start_cascade_of info) = {}" "touched (stop_cascade_of info) = {}"
  "touched (concat (map (\<lambda>x. collect s (f x)) xs)) = {}" "touched (fireWebhook u ev c n i a p # es) = touched es"
  by (auto simp: touched_def collect_def lifecycle_webhook_def start_cascade_of_def stop_cascade_of_def fireWebhook_def)

lemma of_server_ids:
  assumes "srv_ok s"
  shows "tcp_of s c \<noteq> [] \<Longrightarrow> c \<in> server_ids s" "udp_of s c \<noteq> [] \<Longrightarrow> c \<in> server_ids s"
    and "map_of (srv_cronOnlyTargets s) c \<noteq> None \<Longrightarrow> c \<in> server_ids s"
proof -
  assume "tcp_of s c \<noteq> []"
  then obtain p ts where "(p, ts) \<in> set (srv_targets s)" "ts_id ts = c"
    by (auto simp: tcp_of_def filter_empty_conv)
  with assms have "bound s (False, p) = Some (ts_info ts)" by (simp add: bound_def srv_ok_def in_alist_iff)
  from server_idsI(1) [OF this] \<open>ts_id ts = c\<close> show "c \<in> server_ids s" by simp
next
  assume "udp_of s c \<noteq> []"
  then obtain p u where "(p, u) \<in> set (srv_udpTargets s)" "uls_id u = c"
    by (auto simp: udp_of_def filter_empty_conv)
  with assms have "bound s (True, p) = Some (uls_info u)" by (simp add: bound_def srv_ok_def in_alist_iff)
  from server_idsI(1) [OF this] \<open>uls_id u = c\<close> show "c \<in> server_ids s" by simp
next
  assume "map_of (srv_cronOnlyTargets s) c \<noteq> None"
  then show "c \<in> server_ids s" by (intro server_idsI(2)) (auto simp: cron_bound_def)
qed

lemma found_in_server: "srv_ok s \<Longrightarrow> snd (isRunning s c) \<Longrightarrow> c \<in> server_ids s"
  using of_server_ids by (auto simp: isRunning_def Let_def)

lemma touched_cron:
  assumes "srv_ok (snd bs)"
  shows "touched (snd (CronStart_run ensure now bs c n)) \<subseteq> server_ids (snd bs)"
    and "touched (snd (CronStop_run stop bs c n)) \<subseteq> server_ids (snd bs)"
  using found_in_server [OF assms, of c]
  by (auto simp: CronStart_run_def CronStop_run_def cron_started_def cron_stopped_def Let_def case_prod_unfold
      split: bool.splits if_splits)

lemma touched_conn_serve: "touched (fst (snd (conn_serve bcrypt env ts p s))) = {}"
  by (auto simp: conn_serve_def case_prod_unfold split: option.splits)

lemma touched_handleConn:
  "touched (fst (snd (handleConn bcrypt ensure env bs p))) \<subseteq> server_ids (snd bs)"
proof (cases "map_of (srv_targets (snd bs)) p")
  case None
  then show ?thesis by (simp add: handleConn_def case_prod_unfold)
next
  case (Some ts)
  then have "bound (snd bs) (False, p) = Some (ts_info ts)" by (simp add: bound_def)
  from server_idsI(1) [OF this] Some show ?thesis
    by (auto simp: handleConn_def case_prod_unfold Let_def touched_conn_serve conn_started_def split: bool.splits if_splits)
qed


lemma touched_run_each:
  assumes same: "\<And>bs x. same_listeners (snd bs) (snd (fst (f bs x)))"
    and one: "\<And>bs x. touched (snd (f bs x)) \<subseteq> ran (srv_nameToID (snd bs))"
  shows "touched (snd (run_each f bs xs)) \<subseteq> ran (srv_nameToID (snd bs))"
proof (induction xs arbitrary: bs)
  case (Cons x xs)
  have "srv_nameToID (snd (fst (f bs x))) = srv_nameToID (snd bs)"
    using same [of bs x] by (simp add: same_listeners_def)
  then show ?case using Cons.IH [of "fst (f bs x)"] one [of bs x] by (simp add: case_prod_unfold)
qed simp

lemma touched_cascades:
  "touched (snd (cascadeStart ensure bs info)) \<subseteq> ran (srv_nameToID (snd bs))"
  "touched (snd (cascadeStop stop bs info)) \<subseteq> ran (srv_nameToID (snd bs))"
  unfolding cascadeStart_def cascadeStop_def
  by (rule touched_run_each; auto simp: cascade_start_one_def cascade_stop_one_def case_prod_unfold ran_def
      intro: listeners.rel_each_run split: option.splits bool.splits if_splits)+

lemma in_touched: "c \<in> touched es \<longleftrightarrow> CallEnsure c \<in> set es \<or> (\<exists>n. CallStop c n \<in> set es)"
proof
  assume "c \<in> touched es"
  then obtain e where "e \<in> set es" "c \<in> (case e of CallEnsure c \<Rightarrow> {c} | CallStop c _ \<Rightarrow> {c} | _ \<Rightarrow> {})"
    unfolding touched_def by (rule UN_E)
  then show "CallEnsure c \<in> set es \<or> (\<exists>n. CallStop c n \<in> set es)" by (cases e rule: server_effect.exhaust) auto
next
  assume "CallEnsure c \<in> set es \<or> (\<exists>n. CallStop c n \<in> set es)"
  then show "c \<in> touched es"
    unfolding touched_def by (elim disjE exE) (erule UN_I, simp)+
qed

lemma ensure_not_idle: "CallEnsure c \<notin> set (snd (checkInactivity stop now bs))"
proof
  have none: "CallEnsure c \<notin> set (snd (stop_idle_entry stop bs ce))" for bs and ce :: "string \<times> idle_entry"
    by (auto simp: stop_idle_entry_def entry_stopped_def collect_def lifecycle_webhook_def fireWebhook_def
        stop_cascade_of_def case_prod_unfold split: bool.splits if_splits)
  assume "CallEnsure c \<in> set (snd (checkInactivity stop now bs))"
  then show False unfolding checkInactivity_def by (rule run_each_effects) (simp add: none)
qed

lemma idle_in_server:
  assumes "srv_ok s" and "container_idle now s c"
  shows "c \<in> server_ids s"
proof -
  from assms(2) consider p ts where "(p, ts) \<in> set (srv_targets s)" "ts_id ts = c"
    | p u where "(p, u) \<in> set (srv_udpTargets s)" "uls_id u = c"
    unfolding managed_over_def eligible_tcp_def eligible_udp_def by auto
  then have "tcp_of s c \<noteq> [] \<or> udp_of s c \<noteq> []"
    by cases (force simp: tcp_of_def udp_of_def filter_empty_conv)+
  then show ?thesis using of_server_ids [OF assms(1)] by blast
qed

lemma touched_idle:
  assumes "srv_ok (snd bs)"
  shows "touched (snd (checkInactivity stop now bs)) \<subseteq> server_ids (snd bs)"
  using ensure_not_idle [of _ stop now bs] stopped_iff_idle [of _ stop now bs] idle_in_server [OF assms, where now = now]
  unfolding in_touched subset_iff by blast

subsection \<open>Registrations\<close>

lemma touched_register: "touched (snd (RegisterTarget listen s info)) = {}"
proof -
  have none: "e \<notin> set (snd (RegisterTarget listen s info))" if "e = CallEnsure c \<or> e = CallStop c n" for e c n
  proof
    have tcp: "e \<notin> set (snd (register_tcp listen info s m))" and udp: "e \<notin> set (snd (register_udp listen info s m))" for s m
      using that by (auto simp: register_tcp_def register_udp_def Let_def collect_def split: option.splits)
    assume "e \<in> set (snd (RegisterTarget listen s info))"
    with that have "(\<exists>s. e \<in> set (snd (run_each (register_tcp listen info) s (elems (Ports info)))))
        \<or> (\<exists>s. e \<in> set (snd (run_each (register_udp listen info) s (elems (UDPPorts info)))))"
      by (auto simp: RegisterTarget_def Let_def case_prod_unfold split: if_splits)
    then show False using tcp udp by (auto elim!: run_each_effects)
  qed
  then show ?thesis by (auto simp: in_touched)
qed

lemma touched_remove: "touched (snd (RemoveTarget s c)) = {}"
  by (auto simp: in_touched RemoveTarget_def Let_def collect_def split: if_splits)

lemma touched_handle: "touched (snd (server_handle listen now s call)) = {}"
  by (cases call) (simp_all add: server_handle_def touched_register touched_remove ContainerStopped_def
      ContainerStarted_def Let_def)

definition known_by :: "string set \<Rightarrow> ProxyServer \<Rightarrow> bool" where
  "known_by R s \<longleftrightarrow> srv_ok s \<and> server_ids s \<subseteq> R \<and> ran (srv_nameToID s) \<subseteq> R"

lemma known_same: "known_by R s \<Longrightarrow> same_listeners s s' \<Longrightarrow> known_by R s'"
  using same_listeners_ids [of s s'] by (auto simp: known_by_def same_listeners_def)

lemma known_mono: "known_by R s \<Longrightarrow> R \<subseteq> R' \<Longrightarrow> known_by R' s"
  by (auto simp: known_by_def)

lemma names_register:
  "ran (srv_nameToID (fst (RegisterTarget listen s info))) \<subseteq> insert (ContainerID info) (ran (srv_nameToID s))"
proof (cases "conflicting s info")
  case False
  let ?s1 = "fst (run_each (register_tcp listen info) s (elems (Ports info)))"
  let ?s2 = "fst (run_each (register_udp listen info) ?s1 (elems (UDPPorts info)))"
  have "srv_nameToID ?s1 = srv_nameToID s"
    by (rule run_each_unchanged) (simp add: frame)
  moreover have "srv_nameToID ?s2 = srv_nameToID ?s1"
    by (rule run_each_unchanged) (simp add: frame)
  ultimately show ?thesis
    using False by (auto simp: RegisterTarget_def conflicting_iff Let_def case_prod_unfold ran_def)
qed (auto simp: register_conflict)

lemma known_handle:
  assumes "known_by R s"
  shows "known_by (R \<union> ContainerID ` set (registered [call])) (fst (server_handle listen now s call))"
proof (cases call)
  case (HRegister info)
  have "srv_ok s" using assms by (simp add: known_by_def)
  then have "srv_ok (fst (RegisterTarget listen s info))" by (rule RegisterTarget_ok)
  with HRegister assms server_ids_register [of s listen info] names_register [of listen s info] show ?thesis
    by (auto simp: known_by_def server_handle_def)
next
  case (HRemove c)
  have "srv_ok s" using assms by (simp add: known_by_def)
  moreover have "ran (srv_nameToID (fst (RemoveTarget s c))) \<subseteq> ran (srv_nameToID s)"
    by (auto simp: RemoveTarget_def Let_def ran_def split: if_splits)
  ultimately show ?thesis using HRemove assms RemoveTarget_ok [of s c] server_ids_remove [of s c]
    by (auto simp: known_by_def server_handle_def)
qed (auto simp: server_handle_def intro: known_same [OF assms] same_events)


subsection \<open>Runs\<close>

definition registered_ids :: "proxy_label list \<Rightarrow> string set" where
  "registered_ids ls = {ContainerID i | i. Handled (HRegister i) \<in> set ls}"

lemma registered_ids_simps [simp]:
  "registered_ids [] = {}" "registered_ids (ls @ ls') = registered_ids ls \<union> registered_ids ls'"
  by (auto simp: registered_ids_def)

lemma registered_ids_one: "registered_ids [Handled call] = ContainerID ` set (registered [call])"
  by (cases call) (auto simp: registered_ids_def)

lemma other_steps_same:
  assumes step: "proxy_step ensure stop listen bcrypt l \<sigma> es \<sigma>'" and "\<nexists>call. l = Handled call"
  shows "same_listeners (px_server \<sigma>) (px_server \<sigma>')"
proof (cases "\<exists>env p. l = Connected env p")
  case True
  then obtain env p where "l = Connected env p" by blast
  with step show ?thesis
  proof cases
    case (connection env p bs out)
    with same_handleConn [of "both \<sigma>" bcrypt ensure env p] show ?thesis by (simp add: after_def)
  qed simp_all
next
  case False
  with assms show ?thesis by (intro listeners.rel_step [OF step]) blast+
qed

lemma step_touched:
  assumes "proxy_step ensure stop listen bcrypt l \<sigma> es \<sigma>'" and "known_by R (px_server \<sigma>)"
  shows "touched es \<subseteq> R"
proof -
  have R: "srv_ok (px_server \<sigma>)" "server_ids (px_server \<sigma>) \<subseteq> R" "ran (srv_nameToID (px_server \<sigma>)) \<subseteq> R"
    using assms(2) by (simp_all add: known_by_def)
  from assms(1) have "touched es \<subseteq> server_ids (px_server \<sigma>) \<union> ran (srv_nameToID (px_server \<sigma>))"
  proof cases
    case (handler now call s')
    with touched_handle [of listen now "px_server \<sigma>" call] show ?thesis by simp
  next
    case (connection env p bs out)
    with touched_handleConn [of bcrypt ensure env "both \<sigma>" p] show ?thesis by auto
  next
    case (cron_start now cid name bs)
    with touched_cron(1) [of "both \<sigma>" ensure now cid name] R show ?thesis by auto
  next
    case (cron_stop cid name bs)
    with touched_cron(2) [of "both \<sigma>" stop cid name] R show ?thesis by auto
  next
    case (idle now bs)
    with touched_idle [of "both \<sigma>" stop now] R show ?thesis by auto
  next
    case (start_cascade q info q' bs)
    with touched_cascades(1) [of ensure "both \<sigma>" info] show ?thesis by auto
  next
    case (stop_cascade q info q' bs)
    with touched_cascades(2) [of stop "both \<sigma>" info] show ?thesis by auto
  qed
  with R show ?thesis by blast
qed

lemma step_known:
  assumes "proxy_step ensure stop listen bcrypt l \<sigma> es \<sigma>'" and "known_by R (px_server \<sigma>)"
  shows "known_by (R \<union> registered_ids [l]) (px_server \<sigma>')"
proof (cases "\<exists>call. l = Handled call")
  case True
  then obtain call where "l = Handled call" by blast
  moreover from this assms(1) obtain now where "server_handle listen now (px_server \<sigma>) call = (px_server \<sigma>', es)"
    by (auto elim: handled_step)
  ultimately show ?thesis
    using known_handle [OF assms(2), of call listen now] by (simp add: registered_ids_one)
next
  case False
  with other_steps_same [OF assms(1)] have "known_by R (px_server \<sigma>')" by (blast intro: known_same [OF assms(2)])
  then show ?thesis by (rule known_mono) simp
qed

lemma run_known:
  "proxy_run ensure stop listen bcrypt ls es \<sigma> \<Longrightarrow> known_by (registered_ids ls) (px_server \<sigma>) \<and> touched es \<subseteq> registered_ids ls"
proof (induction rule: proxy_run.induct)
  case (start b t i p st tls)
  have "srv_ok (SetScheduler (NewServer t i p st tls))"
    using NewServer_ok [of t i p st tls] by (simp add: SetScheduler_def srv_ok_def)
  then show ?case by (simp add: known_by_def server_ids_def bound_def cron_bound_def SetScheduler_def NewServer_def)
next
  case (step ls es \<sigma> l es' \<sigma>')
  with step_known [OF step.hyps(2)] step_touched [OF step.hyps(2)] show ?case by auto
qed


subsection \<open>Sockets\<close>

text \<open>
  The listening sockets after a list of effects; None when a socket is opened that is open or closed that
  is not.
\<close>

definition socket_after :: "(bool \<times> int) set \<Rightarrow> server_effect \<Rightarrow> (bool \<times> int) set option" where
  "socket_after S e =
     (case e of
        ListenTCP p _ \<Rightarrow> if (False, p) \<in> S then None else Some (insert (False, p) S)
      | ListenUDP p \<Rightarrow> if (True, p) \<in> S then None else Some (insert (True, p) S)
      | CloseTCP p \<Rightarrow> if (False, p) \<in> S then Some (S - {(False, p)}) else None
      | CloseUDP p \<Rightarrow> if (True, p) \<in> S then Some (S - {(True, p)}) else None
      | _ \<Rightarrow> Some S)"

primrec sockets :: "(bool \<times> int) set \<Rightarrow> server_effect list \<Rightarrow> (bool \<times> int) set option" where
  "sockets S [] = Some S"
| "sockets S (e # es) = Option.bind (socket_after S e) (\<lambda>S'. sockets S' es)"

lemma sockets_append [simp]: "sockets S (es @ es') = Option.bind (sockets S es) (\<lambda>S'. sockets S' es')"
  by (induction es arbitrary: S) (simp_all add: Option.bind_assoc)

definition bound_ports :: "ProxyServer \<Rightarrow> (bool \<times> int) set" where
  "bound_ports s = {k. bound s k \<noteq> None}"

lemma in_bound_ports [simp]: "k \<in> bound_ports s \<longleftrightarrow> bound s k \<noteq> None"
  by (simp add: bound_ports_def)

definition quiet :: "server_effect list \<Rightarrow> bool" where
  "quiet es \<longleftrightarrow> (\<forall>e \<in> set es. case e of ListenTCP _ _ \<Rightarrow> False | ListenUDP _ \<Rightarrow> False
     | CloseTCP _ \<Rightarrow> False | CloseUDP _ \<Rightarrow> False | _ \<Rightarrow> True)"

lemma quiet_sockets: "quiet es \<Longrightarrow> sockets S es = Some S"
  by (induction es) (auto simp: quiet_def socket_after_def split: server_effect.splits)

lemma quiet_simps [simp]:
  "quiet []" "quiet (es @ es') \<longleftrightarrow> quiet es \<and> quiet es'"
  "quiet (CallEnsure c # es) \<longleftrightarrow> quiet es" "quiet (CallStop c n # es) \<longleftrightarrow> quiet es"
  "quiet (fireWebhook u ev c n i a p # es) \<longleftrightarrow> quiet es"
  "quiet (collect s calls)" "quiet (lifecycle_webhook info ev c n)"
  "quiet (start_cascade_of info)" "quiet (stop_cascade_of info)" "quiet (concat (map (\<lambda>x. collect s (f x)) xs))"
  by (auto simp: quiet_def collect_def lifecycle_webhook_def start_cascade_of_def stop_cascade_of_def fireWebhook_def)

lemma quiet_run_each: "(\<And>s x. quiet (snd (f s x))) \<Longrightarrow> quiet (snd (run_each f s xs))"
  by (induction xs arbitrary: s) (simp_all add: case_prod_unfold)

lemma quiet_conn_serve: "quiet (fst (snd (conn_serve bcrypt env ts p s)))"
  by (auto simp: conn_serve_def case_prod_unfold split: option.splits)

lemma quiet_steps:
  "quiet (snd (CronStart_run ensure now bs c n))" "quiet (snd (CronStop_run stop bs c n))"
  "quiet (snd (ContainerStopped s c))" "quiet (snd (ContainerStarted now s c))"
  by (auto simp: CronStart_run_def CronStop_run_def cron_started_def cron_stopped_def ContainerStopped_def
      ContainerStarted_def Let_def case_prod_unfold
      split: bool.splits)

lemma quiet_cascades: "quiet (snd (cascadeStart ensure bs info))" "quiet (snd (cascadeStop stop bs info))"
  unfolding cascadeStart_def cascadeStop_def
  by (rule quiet_run_each; auto simp: cascade_start_one_def cascade_stop_one_def case_prod_unfold
      split: option.splits bool.splits)+

lemma quiet_idle: "quiet (snd (checkInactivity stop now bs))"
  unfolding checkInactivity_def
  by (rule quiet_run_each) (auto simp: stop_idle_entry_def entry_stopped_def case_prod_unfold split: bool.splits)

lemma quiet_handleConn: "quiet (fst (snd (handleConn bcrypt ensure env bs p)))"
  by (auto simp: handleConn_def case_prod_unfold Let_def quiet_conn_serve conn_started_def split: option.splits bool.splits)


lemma quiet_collect_more [simp]: "sockets S (collect s calls) = Some S"
  by (rule quiet_sockets) simp

lemma sockets_register_tcp:
  "sockets (bound_ports s) (snd (register_tcp listen info s m)) = Some (bound_ports (fst (register_tcp listen info s m)))"
proof -
  let ?k = "(False, ListenPort m)"
  have "bound_ports (fst (register_tcp listen info s m))
      = (if bound s ?k \<noteq> None \<or> listen False (ListenPort m) then insert ?k (bound_ports s) else bound_ports s)"
    by (auto simp: bound_register_tcp split: if_splits)
  moreover have "sockets (bound_ports s) (snd (register_tcp listen info s m))
      = Some (if bound s ?k \<noteq> None \<or> listen False (ListenPort m) then insert ?k (bound_ports s) else bound_ports s)"
    by (cases "map_of (srv_targets s) (ListenPort m)")
       (auto simp: register_tcp_def Let_def socket_after_def bound_def)
  ultimately show ?thesis by simp
qed

lemma sockets_register_udp:
  "sockets (bound_ports s) (snd (register_udp listen info s m)) = Some (bound_ports (fst (register_udp listen info s m)))"
proof -
  let ?k = "(True, ListenPort m)"
  have "bound_ports (fst (register_udp listen info s m))
      = (if bound s ?k \<noteq> None \<or> listen True (ListenPort m) then insert ?k (bound_ports s) else bound_ports s)"
    by (auto simp: bound_register_udp split: if_splits)
  moreover have "sockets (bound_ports s) (snd (register_udp listen info s m))
      = Some (if bound s ?k \<noteq> None \<or> listen True (ListenPort m) then insert ?k (bound_ports s) else bound_ports s)"
    by (cases "map_of (srv_udpTargets s) (ListenPort m)")
       (auto simp: register_udp_def Let_def socket_after_def bound_def)
  ultimately show ?thesis by simp
qed

lemma sockets_run_each:
  assumes "\<And>s x. sockets (bound_ports s) (snd (f s x)) = Some (bound_ports (fst (f s x)))"
  shows "sockets (bound_ports s) (snd (run_each f s xs)) = Some (bound_ports (fst (run_each f s xs)))"
  by (induction xs arbitrary: s) (simp_all add: case_prod_unfold assms)

lemma sockets_RegisterTarget:
  "sockets (bound_ports s) (snd (RegisterTarget listen s info)) = Some (bound_ports (fst (RegisterTarget listen s info)))"
proof (cases "conflicting s info")
  case False
  let ?r1 = "run_each (register_tcp listen info) s (elems (Ports info))"
  let ?r2 = "run_each (register_udp listen info) (fst ?r1) (elems (UDPPorts info))"
  have ports: "bound_ports (fst (RegisterTarget listen s info)) = bound_ports (fst ?r2)"
    using False by (simp add: bound_ports_def RegisterTarget_def conflicting_iff Let_def case_prod_unfold bound_def)
  obtain e where e: "snd (RegisterTarget listen s info) = snd ?r1 @ snd ?r2 @ e" "quiet e"
    using False by (auto simp: RegisterTarget_def conflicting_iff Let_def case_prod_unfold quiet_def)
  from quiet_sockets [OF e(2)] show ?thesis
    by (simp add: e(1) ports sockets_run_each [OF sockets_register_tcp] sockets_run_each [OF sockets_register_udp])
qed (simp add: register_conflict)

lemma sockets_closing:
  assumes "distinct (map fst xs)" and "\<And>p x. (p, x) \<in> set xs \<Longrightarrow> P x \<Longrightarrow> (u, p) \<in> S"
    and "\<And>T p. socket_after T (close p) = (if (u, p) \<in> T then Some (T - {(u, p)}) else None)"
  shows "sockets S (concat (map (\<lambda>(p, x). if P x then collect s (f p) @ [close p] else []) xs))
    = Some {k \<in> S. \<forall>p x. (p, x) \<in> set xs \<longrightarrow> P x \<longrightarrow> k \<noteq> (u, p)}"
  using assms(1,2)
proof (induction xs arbitrary: S)
  case (Cons y xs)
  obtain p x where y: "y = (p, x)" by (cases y)
  let ?S = "if P x then S - {(u, p)} else S"
  have head: "sockets S (if P x then collect s (f p) @ [close p] else []) = Some ?S"
    using Cons.prems(2) [of p x] y by (simp add: assms(3))
  have "sockets ?S (concat (map (\<lambda>(p, x). if P x then collect s (f p) @ [close p] else []) xs))
      = Some {k \<in> ?S. \<forall>p x. (p, x) \<in> set xs \<longrightarrow> P x \<longrightarrow> k \<noteq> (u, p)}"
  proof (rule Cons.IH)
    show "distinct (map fst xs)" using Cons.prems(1) by simp
    fix q z assume "(q, z) \<in> set xs" "P z"
    moreover from this have "q \<noteq> p" using Cons.prems(1) y by force
    ultimately show "(u, q) \<in> ?S" using Cons.prems(2) [of q z] by simp
  qed
  with head show ?case by (auto simp: y)
qed simp

lemma sockets_RemoveTarget:
  assumes "srv_ok s"
  shows "sockets (bound_ports s) (snd (RemoveTarget s c)) = Some (bound_ports (fst (RemoveTarget s c)))"
proof -
  have keys: "keys_distinct (srv_targets s)" "keys_distinct (srv_udpTargets s)"
    using assms by (simp_all add: srv_ok_def)
  let ?tcp = "concat (map (\<lambda>(port, ts). if ts_id ts = c then collect s [MUnregisterPort port False] @ [CloseTCP port] else []) (srv_targets s))"
  let ?udp = "concat (map (\<lambda>(port, u). if uls_id u = c then collect s [MUnregisterPort port True] @ [CloseUDP port] else []) (srv_udpTargets s))"
  let ?S = "{k \<in> bound_ports s. \<forall>p x. (p, x) \<in> set (srv_targets s) \<longrightarrow> ts_id x = c \<longrightarrow> k \<noteq> (False, p)}"
  have 1: "sockets (bound_ports s) ?tcp = Some ?S"
    using keys by (intro sockets_closing) (auto simp: bound_def socket_after_def keys_distinct_def)
  have 2: "sockets ?S ?udp = Some {k \<in> ?S. \<forall>p x. (p, x) \<in> set (srv_udpTargets s) \<longrightarrow> uls_id x = c \<longrightarrow> k \<noteq> (True, p)}"
    using keys by (intro sockets_closing) (auto simp: bound_def socket_after_def keys_distinct_def)
  have 3: "{k \<in> ?S. \<forall>p x. (p, x) \<in> set (srv_udpTargets s) \<longrightarrow> uls_id x = c \<longrightarrow> k \<noteq> (True, p)}
      = bound_ports (fst (RemoveTarget s c))"
    by (auto simp: bound_RemoveTarget [OF assms] in_alist_iff [OF keys(1)] in_alist_iff [OF keys(2)]
        bound_def [of s] split: option.splits if_splits) blast+
  have effects: "snd (RemoveTarget s c) = ?tcp @ ?udp @ (if srv_sched s then [Sched (SchedUnregister c)] else [])"
    by (simp add: RemoveTarget_def Let_def)
  have 4: "sockets T (if srv_sched s then [Sched (SchedUnregister c)] else []) = Some T" for T
    by (simp add: socket_after_def)
  show ?thesis
    unfolding effects sockets_append 1 bind.simps 2 3 4 by (rule refl)
qed


lemma same_bound_ports: "same_listeners s s' \<Longrightarrow> bound_ports s' = bound_ports s"
  unfolding bound_ports_def same_listeners_def by (rule Collect_cong) metis

lemma sockets_handle:
  assumes "srv_ok s"
  shows "sockets (bound_ports s) (snd (server_handle listen now s call)) = Some (bound_ports (fst (server_handle listen now s call)))"
proof -
  note events = same_bound_ports [OF same_events(1)] same_bound_ports [OF same_events(2)] same_bound_ports [OF same_events(3)]
  show ?thesis
    by (cases call) (simp_all add: server_handle_def sockets_RegisterTarget sockets_RemoveTarget [OF assms] events
        quiet_sockets quiet_steps)
qed

lemma step_sockets:
  assumes "proxy_step ensure stop listen bcrypt l \<sigma> es \<sigma>'" and "srv_ok (px_server \<sigma>)"
  shows "sockets (bound_ports (px_server \<sigma>)) es = Some (bound_ports (px_server \<sigma>'))"
proof (cases "\<exists>call. l = Handled call")
  case True
  then obtain call where "l = Handled call" by blast
  with assms(1) obtain now where "server_handle listen now (px_server \<sigma>) call = (px_server \<sigma>', es)"
    by (auto elim: handled_step)
  then show ?thesis using sockets_handle [OF assms(2), of listen now call] by simp
next
  case False
  have "bound_ports (px_server \<sigma>') = bound_ports (px_server \<sigma>)"
    by (rule same_bound_ports [OF other_steps_same [OF assms(1) False]])
  moreover have "quiet es"
    using assms(1)
  proof cases
    case handler with False show ?thesis by blast
  next
    case (connection env p bs out)
    with quiet_handleConn [of bcrypt ensure env "both \<sigma>" p] show ?thesis by simp
  next
    case (cron_start now cid name bs)
    with quiet_steps(1) [of ensure now "both \<sigma>" cid name] show ?thesis by simp
  next
    case (cron_stop cid name bs)
    with quiet_steps(2) [of stop "both \<sigma>" cid name] show ?thesis by simp
  next
    case (idle now bs)
    with quiet_idle [of stop now "both \<sigma>"] show ?thesis by simp
  next
    case (start_cascade q info q' bs)
    with quiet_cascades(1) [of ensure "both \<sigma>" info] show ?thesis by simp
  next
    case (stop_cascade q info q' bs)
    with quiet_cascades(2) [of stop "both \<sigma>" info] show ?thesis by simp
  qed
  ultimately show ?thesis by (simp add: quiet_sockets)
qed

lemma run_sockets:
  "proxy_run ensure stop listen bcrypt ls es \<sigma> \<Longrightarrow> sockets {} es = Some (bound_ports (px_server \<sigma>))"
proof (induction rule: proxy_run.induct)
  case (start b t i p st tls)
  show ?case by (simp add: bound_ports_def bound_def SetScheduler_def NewServer_def)
next
  case (step ls es \<sigma> l es' \<sigma>')
  have "srv_ok (px_server \<sigma>)" using run_known [OF step.hyps(1)] by (simp add: known_by_def)
  with step_sockets [OF step.hyps(2)] step.IH show ?case by simp
qed


subsection \<open>Examples\<close>

text \<open>A run that registers a target, and one step more.\<close>

abbreviation "fresh_sys \<equiv> \<lparr>px_backend = (), px_server = SetScheduler (NewServer 0 0 0 0 False), px_cascades = []\<rparr>"

abbreviation "demo_sys \<equiv> after fresh_sys (((), fst (RegisterTarget (\<lambda>_ _. True) (px_server fresh_sys) demo_web)),
  snd (RegisterTarget (\<lambda>_ _. True) (px_server fresh_sys) demo_web))"

abbreviation "always \<equiv> \<lambda>b _. (b, True)"

lemma demo_registered:
  "proxy_run always (\<lambda>b _ _. (b, True)) (\<lambda>_ _. True) (\<lambda>_ _. False) [Handled (HRegister demo_web)]
     (snd (RegisterTarget (\<lambda>_ _. True) (px_server fresh_sys) demo_web)) demo_sys"
proof -
  have "proxy_step always (\<lambda>b _ _. (b, True)) (\<lambda>_ _. True) (\<lambda>_ _. False) (Handled (HRegister demo_web)) fresh_sys
     (snd (RegisterTarget (\<lambda>_ _. True) (px_server fresh_sys) demo_web)) demo_sys"
    using proxy_step.handler [of "\<lambda>_ _. True" 0 fresh_sys "HRegister demo_web"] by (simp add: server_handle_def)
  from proxy_run.step [OF proxy_run.start this] show ?thesis by simp
qed

text \<open>
  The name map outlives the registry: a target that is registered again under a new name keeps the old
  name, also after its removal, and a cascade to the old name starts the removed container.
\<close>

theorem renamed_target_keeps_old_name:
  "let s0 = fst (RegisterTarget (\<lambda>_ _. True) (px_server fresh_sys) demo_web);
       s1 = fst (RegisterTarget (\<lambda>_ _. True) s0 (demo_web\<lparr>ContainerName := ''www''\<rparr>));
       s2 = fst (RemoveTarget s1 ''c1'')
   in isRunning s2 ''c1'' = (False, False)
      \<and> snd (cascadeStart always ((), s2) (zero_info\<lparr>Dependants := Some [''web'']\<rparr>)) = [CallEnsure ''c1'']"
  by code_simp

end
