(* ===== verification/Conn_Steps.thy ===== *)
theory Conn_Steps
  imports Proxy_System
begin

text \<open>
  Connections and the idle check in their own steps. A goroutine of \<open>handleConn\<close> and the loop of
  \<open>checkInactivity\<close> hold pointers to \<open>targetState\<close> objects and take the server's lock only for parts of
  their work, so registrations, removals and other connections come between their steps. A run of a
  connection that nothing interrupts is the \<open>handleConn\<close> of \<open>Proxy_Conn\<close>.
\<close>

subsection \<open>Objects\<close>

text \<open>
  A listen port has one target object at a time; the object is named by the port and how many
  objects the port had before. Objects out of the table live on while a goroutine holds them.
\<close>

type_synonym obj = "int \<times> nat"

datatype conn_phase = Spawned | Opened | Starting | Started | Serving | Closing

text \<open>A goroutine of \<open>handleConn\<close>; the flags are the deferred calls of the collector and the webhook.\<close>

record connection =
  cn_env :: conn_env
  cn_ts :: obj
  cn_phase :: conn_phase
  cn_counted :: bool
  cn_hooked :: bool

text \<open>An entry of \<open>byContainer\<close> that was idle, with the pointers collected.\<close>

record idle_work =
  iw_id :: string
  iw_entry :: idle_entry
  iw_tcp :: "obj list"
  iw_udp :: "obj list"
  iw_stopped :: bool

record 'b conn_sys =
  cs_proxy :: "'b proxy_sys"
  cs_gen :: "bool \<times> int \<Rightarrow> nat"
  cs_gone :: "obj \<Rightarrow> targetState option"
  cs_conns :: "(nat \<times> connection) list"
  cs_idle :: "idle_work list"

abbreviation "cs_server \<sigma> \<equiv> px_server (cs_proxy \<sigma>)"

definition set_server :: "ProxyServer \<Rightarrow> 'b conn_sys \<Rightarrow> 'b conn_sys" where
  "set_server s \<sigma> = \<sigma>\<lparr>cs_proxy := (cs_proxy \<sigma>)\<lparr>px_server := s\<rparr>\<rparr>"

definition set_backend :: "'b \<Rightarrow> 'b conn_sys \<Rightarrow> 'b conn_sys" where
  "set_backend b \<sigma> = \<sigma>\<lparr>cs_proxy := (cs_proxy \<sigma>)\<lparr>px_backend := b\<rparr>\<rparr>"

definition deref :: "'b conn_sys \<Rightarrow> obj \<Rightarrow> targetState option" where
  "deref \<sigma> a = (if snd a = cs_gen \<sigma> (False, fst a) then map_of (srv_targets (cs_server \<sigma>)) (fst a) else cs_gone \<sigma> a)"

definition update_obj :: "obj \<Rightarrow> (targetState \<Rightarrow> targetState) \<Rightarrow> 'b conn_sys \<Rightarrow> 'b conn_sys" where
  "update_obj a f \<sigma> =
     (if snd a = cs_gen \<sigma> (False, fst a) then set_server (update_tcp (fst a) f (cs_server \<sigma>)) \<sigma>
      else \<sigma>\<lparr>cs_gone := (cs_gone \<sigma>)(a := map_option f (cs_gone \<sigma> a))\<rparr>)"

text \<open>The state after an operation of the server: what left the table is marked as removed.\<close>

definition adopt :: "'b conn_sys \<Rightarrow> 'b proxy_sys \<Rightarrow> 'b conn_sys" where
  "adopt \<sigma> \<pi> = \<sigma>\<lparr>cs_proxy := \<pi>,
     cs_gen := (\<lambda>k. if bound (cs_server \<sigma>) k \<noteq> None \<and> bound (px_server \<pi>) k = None then Suc (cs_gen \<sigma> k) else cs_gen \<sigma> k),
     cs_gone := (\<lambda>a. if snd a = cs_gen \<sigma> (False, fst a) \<and> map_of (srv_targets (px_server \<pi>)) (fst a) = None
        then map_option (\<lambda>ts. ts\<lparr>ts_removed := True\<rparr>) (map_of (srv_targets (cs_server \<sigma>)) (fst a))
        else cs_gone \<sigma> a)\<rparr>"

subsection \<open>A connection\<close>

definition conn_peer :: "conn_env \<Rightarrow> string \<times> int" where
  "conn_peer env =
     (case (case split_host_port (env_remote env) of Some hp \<Rightarrow> hp | None \<Rightarrow> ('''', '''')) of (ip, port) \<Rightarrow>
        (ip, case atoi port of Some n \<Rightarrow> n | None \<Rightarrow> 0))"

definition conn_hook :: "string \<Rightarrow> TargetInfo \<Rightarrow> conn_env \<Rightarrow> server_effect" where
  "conn_hook event info env =
     fireWebhook (WebhookURL info) event (ContainerID info) (ContainerName info) (env_connID env)
       (fst (conn_peer env)) (snd (conn_peer env))"

text \<open>
  One step of a connection: the state, the effects and what is left of the connection. The waits for the
  container and the transfer take no step of their own, so any number of steps of others fits before
  the step that ends them.
\<close>

definition conn_advance ::
  "(string \<Rightarrow> string \<Rightarrow> bool) \<Rightarrow> ('b \<Rightarrow> string \<Rightarrow> 'b \<times> bool) \<Rightarrow> connection \<Rightarrow> 'b conn_sys
     \<Rightarrow> 'b conn_sys \<times> server_effect list \<times> connection option" where
  "conn_advance bcrypt ensure c \<sigma> =
     (case deref \<sigma> (cn_ts c) of
        None \<Rightarrow> (\<sigma>, [], None)
      | Some ts \<Rightarrow>
        let s = cs_server \<sigma>; info = ts_info ts; env = cn_env c; cid = ContainerID info in
        case cn_phase c of
          Spawned \<Rightarrow> (update_obj (cn_ts c) (\<lambda>ts. ts\<lparr>ts_activeConns := wrap32 (ts_activeConns ts + 1)\<rparr>) \<sigma>, [],
                      Some (c\<lparr>cn_phase := Opened\<rparr>))
        | Opened \<Rightarrow>
            if ipBlocked (env_remote env) info then (\<sigma>, [], Some (c\<lparr>cn_phase := Closing\<rparr>))
            else (\<sigma>, collect s [MConnectionStarted (ts_listenPort ts) False]
                       @ (if WebhookURL info \<noteq> '''' then [conn_hook ''tcp_conn_start'' info env] else []),
                  Some (c\<lparr>cn_phase := (if starts_on_connection info then Starting else Serving),
                          cn_counted := srv_collector s, cn_hooked := WebhookURL info \<noteq> ''''\<rparr>))
        | Starting \<Rightarrow>
            (case ensure (px_backend (cs_proxy \<sigma>)) cid of
               (b', False) \<Rightarrow> (set_backend b' \<sigma>, CallEnsure cid # collect s [MConnectionFailed (ts_listenPort ts) False],
                               Some (c\<lparr>cn_phase := Closing\<rparr>))
             | (b', True) \<Rightarrow> (set_backend b' \<sigma>, [CallEnsure cid], Some (c\<lparr>cn_phase := Started\<rparr>)))
        | Started \<Rightarrow>
            (case conn_started (env_startedAt env) cid s of
               (s', run) \<Rightarrow> (set_server s' \<sigma>,
                  (if env_shared env then [] else collect s [MRecordColdStart (ts_listenPort ts) False (env_coldStartMs env)])
                  @ run @ lifecycle_webhook info ''container_started'' cid (ContainerName info),
                  Some (c\<lparr>cn_phase := Serving\<rparr>)))
        | Serving \<Rightarrow>
            (case conn_serve bcrypt env ts (fst (cn_ts c)) s of
               (_, served, outcome) \<Rightarrow>
                  (case outcome of Proxied _ \<Rightarrow> update_obj (cn_ts c) (\<lambda>ts. ts\<lparr>ts_lastActive := env_endedAt env\<rparr>) \<sigma> | _ \<Rightarrow> \<sigma>,
                   served, Some (c\<lparr>cn_phase := Closing\<rparr>)))
        | Closing \<Rightarrow> (update_obj (cn_ts c) (\<lambda>ts. ts\<lparr>ts_activeConns := wrap32 (ts_activeConns ts - 1)\<rparr>) \<sigma>,
                      (if cn_hooked c then [conn_hook ''tcp_conn_end'' info env] else [])
                      @ (if cn_counted c then [Collect (MConnectionEnded (ts_listenPort ts) False (env_durationMs env))] else []),
                      None))"

subsection \<open>The idle check\<close>

definition work_of :: "(bool \<times> int \<Rightarrow> nat) \<Rightarrow> string \<times> idle_entry \<Rightarrow> idle_work" where
  "work_of gen ce =
     \<lparr>iw_id = fst ce, iw_entry = snd ce, iw_tcp = map (\<lambda>p. (p, gen (False, p))) (en_tcp (snd ce)),
      iw_udp = map (\<lambda>p. (p, gen (True, p))) (en_udp (snd ce)), iw_stopped = False\<rparr>"

definition idle_work :: "instant \<Rightarrow> 'b conn_sys \<Rightarrow> idle_work list" where
  "idle_work now \<sigma> = map (work_of (cs_gen \<sigma>)) (filter (\<lambda>ce. en_allIdle (snd ce)) (by_container now (cs_server \<sigma>)))"

definition mark_udp_stopped :: "obj list \<Rightarrow> 'b conn_sys \<Rightarrow> 'b conn_sys" where
  "mark_udp_stopped as \<sigma> =
     (let s = cs_server \<sigma> in
      set_server (s\<lparr>srv_udpTargets := map_values (\<lambda>p uls. if (p, cs_gen \<sigma> (True, p)) \<in> set as
        then uls\<lparr>uls_running := False\<rparr> else uls) (srv_udpTargets s)\<rparr>) \<sigma>)"

definition mark_stopped :: "idle_work \<Rightarrow> 'b conn_sys \<Rightarrow> 'b conn_sys" where
  "mark_stopped w \<sigma> =
     mark_udp_stopped (iw_udp w) (foldl (\<lambda>\<sigma> a. update_obj a (\<lambda>ts. ts\<lparr>ts_running := False\<rparr>) \<sigma>) \<sigma> (iw_tcp w))"

text \<open>The next step of the loop over the idle entries: the call of the backend, then the marks.\<close>

definition idle_advance ::
  "('b \<Rightarrow> string \<Rightarrow> string \<Rightarrow> 'b \<times> bool) \<Rightarrow> idle_work \<Rightarrow> 'b conn_sys \<Rightarrow> 'b conn_sys \<times> server_effect list \<times> idle_work option" where
  "idle_advance stop w \<sigma> =
     (if \<not> iw_stopped w then
        (case stop (px_backend (cs_proxy \<sigma>)) (iw_id w) (en_name (iw_entry w)) of
           (b', ok) \<Rightarrow> (set_backend b' \<sigma>, [CallStop (iw_id w) (en_name (iw_entry w))],
                        if ok then Some (w\<lparr>iw_stopped := True\<rparr>) else None))
      else (mark_stopped w \<sigma>, snd (entry_stopped (cs_server \<sigma>) (iw_id w, iw_entry w)), None))"


subsection \<open>Steps\<close>

datatype conn_label = Server proxy_label | Spawn nat conn_env int | Advance nat | IdleEvaluated instant | IdleAdvanced

definition set_conn :: "nat \<Rightarrow> connection option \<Rightarrow> 'b conn_sys \<Rightarrow> 'b conn_sys" where
  "set_conn i co \<sigma> =
     \<sigma>\<lparr>cs_conns := (case co of None \<Rightarrow> AList.delete i (cs_conns \<sigma>) | Some c \<Rightarrow> AList.update i c (cs_conns \<sigma>))\<rparr>"

definition set_idle :: "idle_work list \<Rightarrow> 'b conn_sys \<Rightarrow> 'b conn_sys" where
  "set_idle ws \<sigma> = \<sigma>\<lparr>cs_idle := ws\<rparr>"

definition launch :: "server_effect list \<Rightarrow> 'b conn_sys \<Rightarrow> 'b conn_sys" where
  "launch es \<sigma> = \<sigma>\<lparr>cs_proxy := (cs_proxy \<sigma>)\<lparr>px_cascades := px_cascades (cs_proxy \<sigma>) @ launched es\<rparr>\<rparr>"

definition new_connection :: "conn_env \<Rightarrow> obj \<Rightarrow> connection" where
  "new_connection env a = \<lparr>cn_env = env, cn_ts = a, cn_phase = Spawned, cn_counted = False, cn_hooked = False\<rparr>"

text \<open>The operations that are one step of the server; connections and the idle check have their own.\<close>

definition whole_step :: "proxy_label \<Rightarrow> bool" where
  "whole_step l \<longleftrightarrow> (case l of Connected _ _ \<Rightarrow> False | IdleChecked \<Rightarrow> False | _ \<Rightarrow> True)"

inductive conn_step ::
  "('b \<Rightarrow> string \<Rightarrow> 'b \<times> bool) \<Rightarrow> ('b \<Rightarrow> string \<Rightarrow> string \<Rightarrow> 'b \<times> bool) \<Rightarrow> (bool \<Rightarrow> int \<Rightarrow> bool) \<Rightarrow> (string \<Rightarrow> string \<Rightarrow> bool)
     \<Rightarrow> conn_label \<Rightarrow> 'b conn_sys \<Rightarrow> server_effect list \<Rightarrow> 'b conn_sys \<Rightarrow> bool"
  for ensure stop listen bcrypt where
  server: "whole_step l \<Longrightarrow> proxy_step ensure stop listen bcrypt l (cs_proxy \<sigma>) es \<pi>
     \<Longrightarrow> conn_step ensure stop listen bcrypt (Server l) \<sigma> es (adopt \<sigma> \<pi>)"
| spawn: "map_of (srv_targets (cs_server \<sigma>)) p \<noteq> None \<Longrightarrow> map_of (cs_conns \<sigma>) i = None
     \<Longrightarrow> conn_step ensure stop listen bcrypt (Spawn i env p) \<sigma> []
           (set_conn i (Some (new_connection env (p, cs_gen \<sigma> (False, p)))) \<sigma>)"
| advance: "map_of (cs_conns \<sigma>) i = Some c \<Longrightarrow> conn_advance bcrypt ensure c \<sigma> = (\<sigma>', es, co)
     \<Longrightarrow> conn_step ensure stop listen bcrypt (Advance i) \<sigma> es (set_conn i co \<sigma>')"
| idle_evaluated: "cs_idle \<sigma> = []
     \<Longrightarrow> conn_step ensure stop listen bcrypt (IdleEvaluated now) \<sigma> [] (set_idle (idle_work now \<sigma>) \<sigma>)"
| idle_advanced: "cs_idle \<sigma> = w # ws \<Longrightarrow> idle_advance stop w \<sigma> = (\<sigma>', es, wo)
     \<Longrightarrow> conn_step ensure stop listen bcrypt IdleAdvanced \<sigma> es
           (launch es (set_idle (case wo of None \<Rightarrow> ws | Some w' \<Rightarrow> w' # ws) \<sigma>'))"

inductive_cases conn_stepE: "conn_step ensure stop listen bcrypt l \<sigma> es \<sigma>'"

inductive conn_run ::
  "('b \<Rightarrow> string \<Rightarrow> 'b \<times> bool) \<Rightarrow> ('b \<Rightarrow> string \<Rightarrow> string \<Rightarrow> 'b \<times> bool) \<Rightarrow> (bool \<Rightarrow> int \<Rightarrow> bool) \<Rightarrow> (string \<Rightarrow> string \<Rightarrow> bool)
     \<Rightarrow> conn_label list \<Rightarrow> server_effect list \<Rightarrow> 'b conn_sys \<Rightarrow> bool"
  for ensure stop listen bcrypt where
  start: "conn_run ensure stop listen bcrypt [] []
     \<lparr>cs_proxy = \<lparr>px_backend = b, px_server = SetScheduler (NewServer t i p st tls), px_cascades = []\<rparr>,
      cs_gen = (\<lambda>_. 0), cs_gone = (\<lambda>_. None), cs_conns = [], cs_idle = []\<rparr>"
| step: "conn_run ensure stop listen bcrypt ls es \<sigma> \<Longrightarrow> conn_step ensure stop listen bcrypt l \<sigma> es' \<sigma>'
     \<Longrightarrow> conn_run ensure stop listen bcrypt (ls @ [l]) (es @ es') \<sigma>'"

subsection \<open>Connection counts of the server's operations\<close>

definition conns_at :: "ProxyServer \<Rightarrow> int \<Rightarrow> int option" where
  "conns_at s p = map_option ts_activeConns (map_of (srv_targets s) p)"

definition same_conns :: "ProxyServer \<Rightarrow> ProxyServer \<Rightarrow> bool" where
  "same_conns s s' \<longleftrightarrow> (\<forall>p. conns_at s' p = conns_at s p)"

interpretation counts: server_relation same_conns
proof
  fix s :: ProxyServer and ce
  show "same_conns s (fst (entry_stopped s ce))"
    by (cases ce) (auto simp: entry_stopped_def same_conns_def conns_at_def option.map_comp comp_def
        intro!: map_option_cong split: if_splits)
next
  fix f :: "targetState \<Rightarrow> targetState" and s c
  assume "\<And>ts. ts_info (f ts) = ts_info ts \<and> ts_listenPort (f ts) = ts_listenPort ts
        \<and> ts_removed (f ts) = ts_removed ts \<and> ts_activeConns (f ts) = ts_activeConns ts"
  then show "same_conns s (each_tcp c f s)"
    by (auto simp: same_conns_def conns_at_def each_tcp_def option.map_comp comp_def intro!: map_option_cong)
qed (auto simp: same_conns_def conns_at_def each_udp_def each_cron_def)

text \<open>A registration keeps the counts there are and starts the new ones at zero; a removal drops counts.\<close>

definition steady :: "ProxyServer \<Rightarrow> ProxyServer \<Rightarrow> bool" where
  "steady s s' \<longleftrightarrow> (\<forall>p. conns_at s' p = conns_at s p \<or> conns_at s' p = None \<or> conns_at s p = None \<and> conns_at s' p = Some 0)"

lemma conns_register_tcp:
  "conns_at (fst (register_tcp listen info s m)) p
    = (if p = ListenPort m \<and> conns_at s p = None \<and> listen False p then Some 0 else conns_at s p)"
  by (auto simp: conns_at_def register_tcp_def Let_def refresh_tcp_def new_tcp_def update_conv' split: option.splits)

lemma conns_run_tcp:
  "conns_at (fst (run_each (register_tcp listen info) s ms)) p
    = (if p \<in> ListenPort ` set ms \<and> conns_at s p = None \<and> listen False p then Some 0 else conns_at s p)"
  by (induction ms arbitrary: s) (auto simp: case_prod_unfold conns_register_tcp)

lemma steady_register: "steady s (fst (RegisterTarget listen s info))"
proof (cases "conflicting s info")
  case False
  let ?s1 = "fst (run_each (register_tcp listen info) s (elems (Ports info)))"
  let ?s2 = "fst (run_each (register_udp listen info) ?s1 (elems (UDPPorts info)))"
  have "srv_targets ?s2 = srv_targets ?s1" by (rule run_each_unchanged) (simp add: frame)
  then have "conns_at (fst (RegisterTarget listen s info)) p = conns_at ?s1 p" for p
    using False by (simp add: RegisterTarget_def conflicting_iff Let_def case_prod_unfold conns_at_def)
  then show ?thesis by (simp add: steady_def conns_run_tcp)
qed (simp add: register_conflict steady_def)

lemma steady_remove:
  assumes "srv_ok s"
  shows "steady s (fst (RemoveTarget s c))"
  using assms
  by (auto simp: steady_def conns_at_def RemoveTarget_def Let_def srv_ok_def map_of_filter_value split: option.splits)

lemma steady_same: "same_conns s s' \<Longrightarrow> steady s s'"
  by (simp add: same_conns_def steady_def)

lemma whole_step_steady:
  assumes step: "proxy_step ensure stop listen bcrypt l \<pi> es \<pi>'" and "whole_step l" and ok: "srv_ok (px_server \<pi>)"
  shows "steady (px_server \<pi>) (px_server \<pi>')"
proof (cases "\<exists>i. l = Handled (HRegister i) \<or> (\<exists>c. l = Handled (HRemove c))")
  case True
  then obtain call where call: "l = Handled call" "(\<exists>i. call = HRegister i) \<or> (\<exists>c. call = HRemove c)" by blast
  with step obtain now where "server_handle listen now (px_server \<pi>) call = (px_server \<pi>', es)"
    by (auto elim: handled_step)
  then have "px_server \<pi>' = fst (server_handle listen now (px_server \<pi>) call)" by simp
  with call(2) show ?thesis using steady_register steady_remove [OF ok] by (auto simp: server_handle_def)
next
  case False
  have "\<nexists>env p. l = Connected env p" using assms(2) by (auto simp: whole_step_def)
  with False show ?thesis by (intro steady_same counts.rel_step [OF step]) blast+
qed

lemma whole_step_ok:
  assumes step: "proxy_step ensure stop listen bcrypt l \<pi> es \<pi>'" and ok: "srv_ok (px_server \<pi>)"
  shows "srv_ok (px_server \<pi>')"
  using step_known [OF step, of "server_ids (px_server \<pi>) \<union> ran (srv_nameToID (px_server \<pi>))"] ok
  by (simp add: known_by_def)


subsection \<open>Invariant\<close>

definition gauges :: "'b conn_sys \<Rightarrow> obj \<Rightarrow> int option" where
  "gauges \<sigma> a = map_option ts_activeConns (deref \<sigma> a)"

definition holds :: "obj \<Rightarrow> connection \<Rightarrow> nat" where
  "holds a c = (if cn_ts c = a \<and> cn_phase c \<noteq> Spawned then 1 else 0)"

definition open_on :: "obj \<Rightarrow> 'b conn_sys \<Rightarrow> nat" where
  "open_on a \<sigma> = map_total (holds a) (cs_conns \<sigma>)"

definition conn_ok :: "'b conn_sys \<Rightarrow> bool" where
  "conn_ok \<sigma> \<longleftrightarrow> srv_ok (cs_server \<sigma>) \<and> keys_distinct (cs_conns \<sigma>)
     \<and> (\<forall>a. cs_gone \<sigma> a \<noteq> None \<longrightarrow> snd a < cs_gen \<sigma> (False, fst a))
     \<and> (\<forall>i c. map_of (cs_conns \<sigma>) i = Some c \<longrightarrow> gauges \<sigma> (cn_ts c) \<noteq> None)
     \<and> (\<forall>a n. gauges \<sigma> a = Some n \<longrightarrow> n = wrap32 (int (open_on a \<sigma>)))"

lemma conn_okD:
  assumes "conn_ok \<sigma>"
  shows "srv_ok (cs_server \<sigma>)" "keys_distinct (cs_conns \<sigma>)"
    and "cs_gone \<sigma> a \<noteq> None \<Longrightarrow> snd a < cs_gen \<sigma> (False, fst a)"
    and "map_of (cs_conns \<sigma>) i = Some c \<Longrightarrow> gauges \<sigma> (cn_ts c) \<noteq> None"
    and "gauges \<sigma> a = Some n \<Longrightarrow> n = wrap32 (int (open_on a \<sigma>))"
  using assms unfolding conn_ok_def by blast+

lemma sys_frame [simp]:
  "cs_proxy (set_conn i co \<sigma>) = cs_proxy \<sigma>" "cs_gen (set_conn i co \<sigma>) = cs_gen \<sigma>" "cs_gone (set_conn i co \<sigma>) = cs_gone \<sigma>"
  "cs_proxy (set_idle ws \<sigma>) = cs_proxy \<sigma>" "cs_gen (set_idle ws \<sigma>) = cs_gen \<sigma>" "cs_gone (set_idle ws \<sigma>) = cs_gone \<sigma>"
  "cs_conns (set_idle ws \<sigma>) = cs_conns \<sigma>"
  "cs_server (launch es \<sigma>) = cs_server \<sigma>" "cs_gen (launch es \<sigma>) = cs_gen \<sigma>" "cs_gone (launch es \<sigma>) = cs_gone \<sigma>"
  "cs_conns (launch es \<sigma>) = cs_conns \<sigma>"
  "cs_server (set_backend b \<sigma>) = cs_server \<sigma>" "cs_gen (set_backend b \<sigma>) = cs_gen \<sigma>" "cs_gone (set_backend b \<sigma>) = cs_gone \<sigma>"
  "cs_conns (set_backend b \<sigma>) = cs_conns \<sigma>"
  "cs_server (set_server s \<sigma>) = s" "cs_gen (set_server s \<sigma>) = cs_gen \<sigma>" "cs_gone (set_server s \<sigma>) = cs_gone \<sigma>"
  "cs_conns (set_server s \<sigma>) = cs_conns \<sigma>"
  by (simp_all add: set_conn_def set_idle_def launch_def set_backend_def set_server_def)

lemma deref_frame [simp]:
  "deref (set_conn i co \<sigma>) = deref \<sigma>" "deref (set_idle ws \<sigma>) = deref \<sigma>" "deref (launch es \<sigma>) = deref \<sigma>"
  "deref (set_backend b \<sigma>) = deref \<sigma>"
  by (simp_all add: deref_def fun_eq_iff)

lemma gauges_frame [simp]:
  "gauges (set_conn i co \<sigma>) = gauges \<sigma>" "gauges (set_idle ws \<sigma>) = gauges \<sigma>" "gauges (launch es \<sigma>) = gauges \<sigma>"
  "gauges (set_backend b \<sigma>) = gauges \<sigma>"
  by (simp_all add: gauges_def fun_eq_iff)

lemma open_on_frame [simp]:
  "open_on a (set_idle ws \<sigma>) = open_on a \<sigma>" "open_on a (launch es \<sigma>) = open_on a \<sigma>"
  by (simp_all add: open_on_def)

lemma update_obj_frame [simp]:
  "cs_gen (update_obj a f \<sigma>) = cs_gen \<sigma>" "cs_conns (update_obj a f \<sigma>) = cs_conns \<sigma>"
  "cs_gone (update_obj a f \<sigma>) b = None \<longleftrightarrow> cs_gone \<sigma> b = None"
  by (simp_all add: update_obj_def)

lemma deref_update_obj [simp]:
  "deref (update_obj a f \<sigma>) b = (if b = a then map_option f (deref \<sigma> a) else deref \<sigma> b)"
  by (cases a; cases b) (auto simp: deref_def update_obj_def)

lemma update_obj_ok:
  assumes "srv_ok (cs_server \<sigma>)"
    and "\<And>ts. ts_info (f ts) = ts_info ts \<and> ts_listenPort (f ts) = ts_listenPort ts \<and> ts_removed (f ts) = ts_removed ts"
  shows "srv_ok (cs_server (update_obj a f \<sigma>))"
  using same_update_tcp [OF assms(2), of "cs_server \<sigma>" "fst a"] assms(1)
  by (auto simp: update_obj_def same_listeners_def)

lemma gauges_set_server: "same_conns (cs_server \<sigma>) s \<Longrightarrow> gauges (set_server s \<sigma>) a = gauges \<sigma> a"
  by (simp add: gauges_def deref_def same_conns_def conns_at_def)

text \<open>What changes neither the gauges nor the connections keeps the invariant.\<close>

lemma conn_ok_keep:
  assumes "conn_ok \<sigma>" and "srv_ok (cs_server \<sigma>')" and "cs_conns \<sigma>' = cs_conns \<sigma>" and "cs_gen \<sigma>' = cs_gen \<sigma>"
    and "\<And>a. cs_gone \<sigma>' a \<noteq> None \<Longrightarrow> cs_gone \<sigma> a \<noteq> None" and "\<And>a. gauges \<sigma>' a = gauges \<sigma> a"
  shows "conn_ok \<sigma>'"
proof -
  have "open_on a \<sigma>' = open_on a \<sigma>" for a using assms(3) by (simp add: open_on_def)
  then show ?thesis
    using conn_okD [OF assms(1)] assms(2-6) unfolding conn_ok_def by metis
qed

text \<open>A step of a connection changes the gauge of its object by what it changes the count.\<close>

abbreviation held :: "connection option \<Rightarrow> nat" where
  "held co \<equiv> (case co of None \<Rightarrow> 0 | Some c \<Rightarrow> holds (cn_ts c) c)"

lemma holds_other: "cn_ts c \<noteq> a \<Longrightarrow> holds a c = 0"
  by (simp add: holds_def)

lemma open_on_set_conn:
  assumes "keys_distinct (cs_conns \<sigma>)" and "map_of (cs_conns \<sigma>) i = Some c" and "\<And>c'. co = Some c' \<Longrightarrow> cn_ts c' = cn_ts c"
  shows "open_on a (set_conn i co \<sigma>) + (if a = cn_ts c then held (Some c) else 0)
    = open_on a \<sigma> + (if a = cn_ts c then held co else 0)"
proof (cases co)
  case None
  then show ?thesis
    using map_total_delete [OF assms(1,2), of "holds a"] by (auto simp: set_conn_def open_on_def holds_other)
next
  case (Some c')
  then show ?thesis
    using map_total_update [OF assms(2), of "holds a" c'] assms(3) by (auto simp: set_conn_def open_on_def holds_other)
qed

lemma conn_ok_set_conn:
  assumes ok: "conn_ok \<sigma>" and c: "map_of (cs_conns \<sigma>) i = Some c"
    and "srv_ok (cs_server \<sigma>')" and conns: "cs_conns \<sigma>' = cs_conns \<sigma>" and "cs_gen \<sigma>' = cs_gen \<sigma>"
    and "\<And>a. cs_gone \<sigma>' a \<noteq> None \<Longrightarrow> cs_gone \<sigma> a \<noteq> None" and co: "\<And>c'. co = Some c' \<Longrightarrow> cn_ts c' = cn_ts c"
    and g: "\<And>a. gauges \<sigma>' a = (if a = cn_ts c then map_option (\<lambda>n. wrap32 (n + (int (held co) - int (held (Some c))))) (gauges \<sigma> a)
        else gauges \<sigma> a)"
  shows "conn_ok (set_conn i co \<sigma>')"
proof -
  have dom: "gauges \<sigma>' a = None \<longleftrightarrow> gauges \<sigma> a = None" for a by (simp add: g)
  have "n = wrap32 (int (open_on a (set_conn i co \<sigma>')))" if n: "gauges \<sigma>' a = Some n" for a n
  proof (cases "a = cn_ts c")
    case True
    with n g [of a] have "map_option (\<lambda>n. wrap32 (n + (int (held co) - int (held (Some c))))) (gauges \<sigma> a) = Some n" by simp
    then obtain m where m: "gauges \<sigma> a = Some m" "n = wrap32 (m + (int (held co) - int (held (Some c))))"
      unfolding map_option_eq_Some by blast
    have "open_on a \<sigma>' = open_on a \<sigma>" by (simp add: open_on_def conns)
    with open_on_set_conn [of \<sigma>' i c co a] True c co conn_okD(2) [OF ok] conns
    have "int (open_on a (set_conn i co \<sigma>')) = int (open_on a \<sigma>) + (int (held co) - int (held (Some c)))" by simp
    with m(2) conn_okD(5) [OF ok m(1)] show ?thesis by simp
  next
    case False
    have "open_on a \<sigma>' = open_on a \<sigma>" by (simp add: open_on_def conns)
    with open_on_set_conn [of \<sigma>' i c co a] False c co conn_okD(2) [OF ok] conns
    have "open_on a (set_conn i co \<sigma>') = open_on a \<sigma>" by simp
    with False n g [of a] conn_okD(5) [OF ok, of a n] show ?thesis by simp
  qed
  moreover have "gauges \<sigma>' (cn_ts d) \<noteq> None" if "map_of (cs_conns (set_conn i co \<sigma>')) j = Some d" for j d
  proof (cases "j = i")
    case True
    with that have "co = Some d" by (cases co) (auto simp: set_conn_def update_conv' delete_conv')
    with co conn_okD(4) [OF ok c] dom show ?thesis by metis
  next
    case False
    with that conns have "map_of (cs_conns \<sigma>) j = Some d"
      by (auto simp: set_conn_def update_conv' delete_conv' split: option.splits)
    with conn_okD(4) [OF ok] dom show ?thesis by metis
  qed
  moreover have "keys_distinct (cs_conns (set_conn i co \<sigma>'))"
    using conn_okD(2) [OF ok] conns by (simp add: set_conn_def split: option.splits)
  ultimately show ?thesis
    using assms(3,5,6) conn_okD(3) [OF ok] unfolding conn_ok_def by simp
qed


lemma conn_advance_ok:
  assumes ok: "conn_ok \<sigma>" and c: "map_of (cs_conns \<sigma>) i = Some c"
    and step: "conn_advance bcrypt ensure c \<sigma> = (\<sigma>', es, co)"
  shows "conn_ok (set_conn i co \<sigma>')"
proof -
  from conn_okD(4) [OF ok c] obtain ts where ts: "deref \<sigma> (cn_ts c) = Some ts" by (auto simp: gauges_def)
  have n: "ts_activeConns ts = wrap32 (int (open_on (cn_ts c) \<sigma>))"
    using conn_okD(5) [OF ok, of "cn_ts c"] ts by (simp add: gauges_def)
  then have idem: "wrap32 (ts_activeConns ts) = ts_activeConns ts" by simp
  have started: "same_listeners (cs_server \<sigma>) (fst (conn_started t cid (cs_server \<sigma>)))"
    "same_conns (cs_server \<sigma>) (fst (conn_started t cid (cs_server \<sigma>)))" for t cid
    using listeners.rel_each_run counts.rel_each_run by (simp_all add: conn_started_def)
  note srv = conn_okD(1) [OF ok]
  have other: "\<sigma>' = update_obj (cn_ts c) f \<sigma> \<Longrightarrow> (\<And>ts. ts_info (f ts) = ts_info ts \<and> ts_listenPort (f ts) = ts_listenPort ts \<and> ts_removed (f ts) = ts_removed ts)
      \<Longrightarrow> (\<And>c'. co = Some c' \<Longrightarrow> cn_ts c' = cn_ts c)
      \<Longrightarrow> ts_activeConns (f ts) = wrap32 (ts_activeConns ts + (int (held co) - int (held (Some c)))) \<Longrightarrow> ?thesis" for f
    by (rule conn_ok_set_conn [OF ok c]) (auto simp: update_obj_ok [OF srv] gauges_def ts)
  have plain: "srv_ok (cs_server \<sigma>') \<Longrightarrow> cs_conns \<sigma>' = cs_conns \<sigma> \<Longrightarrow> cs_gen \<sigma>' = cs_gen \<sigma> \<Longrightarrow> cs_gone \<sigma>' = cs_gone \<sigma>
      \<Longrightarrow> (\<And>c'. co = Some c' \<Longrightarrow> cn_ts c' = cn_ts c) \<Longrightarrow> held co = held (Some c) \<Longrightarrow> (\<And>a. gauges \<sigma>' a = gauges \<sigma> a) \<Longrightarrow> ?thesis"
    by (rule conn_ok_set_conn [OF ok c]) (auto simp: gauges_def ts idem)
  show ?thesis
  proof (cases "cn_phase c")
    case Spawned
    show ?thesis
      by (rule other [of "\<lambda>ts. ts\<lparr>ts_activeConns := wrap32 (ts_activeConns ts + 1)\<rparr>"])
         (use step ts Spawned in \<open>auto simp: conn_advance_def Let_def holds_def\<close>)
  next
    case Opened
    show ?thesis
      by (rule plain) (use step ts Opened srv in \<open>auto simp: conn_advance_def Let_def holds_def split: if_splits\<close>)
  next
    case Starting
    show ?thesis
      by (rule plain) (use step ts Starting srv in \<open>auto simp: conn_advance_def Let_def holds_def split: prod.splits bool.splits\<close>)
  next
    case Started
    show ?thesis
      by (rule plain) (use step ts Started srv started in \<open>auto simp: conn_advance_def Let_def case_prod_unfold holds_def
          same_listeners_def gauges_set_server\<close>)
  next
    case Serving
    show ?thesis
    proof (cases "snd (snd (conn_serve bcrypt (cn_env c) ts (fst (cn_ts c)) (cs_server \<sigma>)))")
      case (Proxied es')
      show ?thesis
        by (rule other [of "\<lambda>ts. ts\<lparr>ts_lastActive := env_endedAt (cn_env c)\<rparr>"])
           (use step ts Serving Proxied idem in \<open>auto simp: conn_advance_def Let_def case_prod_unfold holds_def\<close>)
    qed (rule plain; use step ts Serving srv in \<open>auto simp: conn_advance_def Let_def case_prod_unfold holds_def\<close>)+
  next
    case Closing
    show ?thesis
      by (rule other [of "\<lambda>ts. ts\<lparr>ts_activeConns := wrap32 (ts_activeConns ts - 1)\<rparr>"])
         (use step ts Closing in \<open>auto simp: conn_advance_def Let_def holds_def\<close>)
  qed
qed


text \<open>An operation of the server: the gauge of an object stays, a new object starts at zero.\<close>

lemma gauges_adopt:
  assumes ok: "conn_ok \<sigma>" and steady: "steady (cs_server \<sigma>) (px_server \<pi>)"
  shows "gauges (adopt \<sigma> \<pi>) a = gauges \<sigma> a \<or> gauges \<sigma> a = None \<and> gauges (adopt \<sigma> \<pi>) a = Some 0"
proof -
  obtain p g where a: "a = (p, g)" by (cases a)
  let ?old = "map_of (srv_targets (cs_server \<sigma>)) p" and ?new = "map_of (srv_targets (px_server \<pi>)) p"
  let ?n = "cs_gen \<sigma> (False, p)"
  have st: "map_option ts_activeConns ?new = map_option ts_activeConns ?old \<or> ?new = None
      \<or> ?old = None \<and> map_option ts_activeConns ?new = Some 0"
    using steady by (simp add: steady_def conns_at_def)
  have gone: "cs_gone \<sigma> (p, h) = None" if "h \<ge> ?n" for h
    using conn_okD(3) [OF ok, of "(p, h)"] that by (intro ccontr [of "_ = _"]) simp
  have gen: "cs_gen (adopt \<sigma> \<pi>) (False, p) = (if ?old \<noteq> None \<and> ?new = None then Suc ?n else ?n)"
    by (simp add: adopt_def bound_def)
  have gone': "cs_gone (adopt \<sigma> \<pi>) (p, g) = (if g = ?n \<and> ?new = None
      then map_option (\<lambda>ts. ts\<lparr>ts_removed := True\<rparr>) ?old else cs_gone \<sigma> (p, g))"
    by (simp add: adopt_def)
  have new: "cs_server (adopt \<sigma> \<pi>) = px_server \<pi>" by (simp add: adopt_def)
  show ?thesis
    using st gone unfolding a gauges_def deref_def gen gone' new fst_conv snd_conv
    by (cases ?old; cases ?new) (auto simp: option.map_comp comp_def)
qed

lemma conn_ok_adopt:
  assumes ok: "conn_ok \<sigma>" and steady: "steady (cs_server \<sigma>) (px_server \<pi>)" and srv: "srv_ok (px_server \<pi>)"
  shows "conn_ok (adopt \<sigma> \<pi>)"
proof -
  have conns: "cs_conns (adopt \<sigma> \<pi>) = cs_conns \<sigma>" "cs_server (adopt \<sigma> \<pi>) = px_server \<pi>" by (simp_all add: adopt_def)
  then have opened: "open_on a (adopt \<sigma> \<pi>) = open_on a \<sigma>" for a by (simp add: open_on_def)
  have none: "open_on a \<sigma> = 0" if "gauges \<sigma> a = None" for a
    using that conn_okD(4) [OF ok] in_alist_iff [OF conn_okD(2) [OF ok]]
    unfolding open_on_def map_total_zero holds_def by fastforce
  note g = gauges_adopt [OF ok steady]
  have "n = wrap32 (int (open_on a (adopt \<sigma> \<pi>)))" if "gauges (adopt \<sigma> \<pi>) a = Some n" for a n
    using that g [of a] none [of a] conn_okD(5) [OF ok, of a n] by (auto simp: opened)
  moreover have "gauges (adopt \<sigma> \<pi>) (cn_ts c) \<noteq> None" if "map_of (cs_conns \<sigma>) i = Some c" for i c
    using conn_okD(4) [OF ok that] g [of "cn_ts c"] by auto
  moreover have "snd a < cs_gen (adopt \<sigma> \<pi>) (False, fst a)" if "cs_gone (adopt \<sigma> \<pi>) a \<noteq> None" for a
    using that conn_okD(3) [OF ok, of a]
    by (auto simp: adopt_def bound_def less_Suc_eq split: if_splits)
  ultimately show ?thesis
    using srv conns conn_okD(2) [OF ok] unfolding conn_ok_def by auto
qed

text \<open>The marks of the idle check.\<close>

definition unmoved :: "'b conn_sys \<Rightarrow> 'b conn_sys \<Rightarrow> bool" where
  "unmoved \<sigma> \<sigma>' \<longleftrightarrow> cs_conns \<sigma>' = cs_conns \<sigma> \<and> cs_gen \<sigma>' = cs_gen \<sigma>
     \<and> (\<forall>a. cs_gone \<sigma>' a = None \<longleftrightarrow> cs_gone \<sigma> a = None) \<and> (\<forall>a. gauges \<sigma>' a = gauges \<sigma> a)
     \<and> (srv_ok (cs_server \<sigma>) \<longrightarrow> srv_ok (cs_server \<sigma>'))"

lemma unmoved_ok:
  assumes "unmoved \<sigma> \<sigma>'" and "conn_ok \<sigma>"
  shows "conn_ok \<sigma>'"
proof (rule conn_ok_keep [OF assms(2)])
  show "srv_ok (cs_server \<sigma>')" using assms(1) conn_okD(1) [OF assms(2)] unfolding unmoved_def by blast
qed (use assms(1) in \<open>unfold unmoved_def, metis+\<close>)

lemma unmoved_trans: "unmoved \<sigma> \<sigma>' \<Longrightarrow> unmoved \<sigma>' \<sigma>'' \<Longrightarrow> unmoved \<sigma> \<sigma>''"
  unfolding unmoved_def by metis

lemma unmoved_mark: "unmoved \<sigma> (update_obj a (\<lambda>ts. ts\<lparr>ts_running := False\<rparr>) \<sigma>)"
  unfolding unmoved_def
  by (intro conjI allI impI) (simp_all add: gauges_def option.map_comp comp_def update_obj_ok)

lemma unmoved_mark_udp: "unmoved \<sigma> (mark_udp_stopped as \<sigma>)"
proof -
  have "srv_ok s \<Longrightarrow> srv_ok (s\<lparr>srv_udpTargets := map_values (\<lambda>p uls. if P p then uls\<lparr>uls_running := False\<rparr> else uls)
      (srv_udpTargets s)\<rparr>)" for s P
    by (auto simp: srv_ok_def)
  then show ?thesis
    unfolding unmoved_def mark_udp_stopped_def Let_def
    by (intro conjI allI impI) (simp_all add: gauges_def deref_def)
qed

lemma unmoved_mark_stopped: "unmoved \<sigma> (mark_stopped w \<sigma>)"
  unfolding mark_stopped_def
proof (rule unmoved_trans [OF _ unmoved_mark_udp])
  show "unmoved \<sigma> (foldl (\<lambda>\<sigma> a. update_obj a (\<lambda>ts. ts\<lparr>ts_running := False\<rparr>) \<sigma>) \<sigma> (iw_tcp w))"
    by (rule foldl_invariant [where P = "unmoved \<sigma>"]) (simp_all add: unmoved_def [of \<sigma> \<sigma>] unmoved_trans [OF _ unmoved_mark])
qed

lemma conn_step_ok:
  assumes ok: "conn_ok \<sigma>" and step: "conn_step ensure stop listen bcrypt l \<sigma> es \<sigma>'"
  shows "conn_ok \<sigma>'"
  using step
proof cases
  case (server l \<pi>)
  with conn_ok_adopt [OF ok] whole_step_steady [OF server(4,3) conn_okD(1) [OF ok]]
    whole_step_ok [OF server(4) conn_okD(1) [OF ok]] show ?thesis by simp
next
  case (spawn p i env)
  let ?c = "new_connection env (p, cs_gen \<sigma> (False, p))"
  have "open_on a \<sigma>' = open_on a \<sigma>" for a
    using map_total_insert [OF spawn(5), of "holds a" ?c] spawn(3)
    by (simp add: open_on_def set_conn_def holds_def new_connection_def)
  moreover have "gauges \<sigma> (cn_ts ?c) \<noteq> None"
    using spawn(4) by (simp add: gauges_def deref_def new_connection_def)
  moreover have "map_of (cs_conns \<sigma>') j = (if j = i then Some ?c else map_of (cs_conns \<sigma>) j)" for j
    using spawn(3) by (simp add: set_conn_def update_conv')
  moreover have "keys_distinct (cs_conns \<sigma>')" using spawn(3) conn_okD(2) [OF ok] by (simp add: set_conn_def)
  moreover have "cs_server \<sigma>' = cs_server \<sigma>" "cs_gen \<sigma>' = cs_gen \<sigma>" "cs_gone \<sigma>' = cs_gone \<sigma>" "gauges \<sigma>' = gauges \<sigma>"
    using spawn(3) by simp_all
  ultimately show ?thesis
    using conn_okD [OF ok] unfolding conn_ok_def by simp
next
  case (advance i c \<sigma>1 co)
  with conn_advance_ok [OF ok] show ?thesis by blast
next
  case (idle_evaluated now)
  then have "unmoved \<sigma> \<sigma>'" by (simp add: unmoved_def)
  with ok show ?thesis by (blast intro: unmoved_ok)
next
  case (idle_advanced w ws \<sigma>1 wo)
  have "unmoved \<sigma> (set_backend b \<sigma>)" for b by (simp add: unmoved_def)
  with unmoved_mark_stopped [of \<sigma> w] idle_advanced(4) have "unmoved \<sigma> \<sigma>1"
    by (auto simp: idle_advance_def split: if_splits prod.splits)
  moreover have "unmoved \<sigma>1 \<sigma>'" using idle_advanced(2) by (simp add: unmoved_def)
  ultimately show ?thesis using ok unmoved_ok unmoved_trans by blast
qed

lemma conn_run_ok:
  "conn_run ensure stop listen bcrypt ls es \<sigma> \<Longrightarrow> conn_ok \<sigma>"
proof (induction rule: conn_run.induct)
  case (start b t i p st tls)
  have "srv_ok (SetScheduler (NewServer t i p st tls))"
    using NewServer_ok [of t i p st tls] by (simp add: SetScheduler_def srv_ok_def)
  then show ?case by (simp add: conn_ok_def gauges_def deref_def SetScheduler_def NewServer_def)
next
  case step
  then show ?case by (blast intro: conn_step_ok)
qed


subsection \<open>Sockets and containers\<close>

lemma same_update_obj:
  assumes "\<And>ts. ts_info (f ts) = ts_info ts \<and> ts_listenPort (f ts) = ts_listenPort ts \<and> ts_removed (f ts) = ts_removed ts"
  shows "same_listeners (cs_server \<sigma>) (cs_server (update_obj a f \<sigma>))"
  using same_update_tcp [OF assms] by (simp add: update_obj_def)

lemma same_conn_advance:
  assumes "conn_advance bcrypt ensure c \<sigma> = (\<sigma>', es, co)"
  shows "same_listeners (cs_server \<sigma>) (cs_server \<sigma>') \<and> quiet es"
proof (cases "deref \<sigma> (cn_ts c)")
  case (Some ts)
  have "same_listeners (cs_server \<sigma>) (fst (conn_started t cid (cs_server \<sigma>)))" "quiet (snd (conn_started t cid (cs_server \<sigma>)))"
    for t cid using listeners.rel_each_run by (simp_all add: conn_started_def)
  with Some assms quiet_conn_serve [of bcrypt "cn_env c" ts "fst (cn_ts c)" "cs_server \<sigma>"] show ?thesis
    by (cases "cn_phase c")
       (auto simp: conn_advance_def Let_def case_prod_unfold same_update_obj conn_hook_def quiet_def [of "[Collect _]"]
         split: if_splits bool.splits conn_outcome.splits)
qed (use assms in \<open>simp add: conn_advance_def\<close>)

lemma same_mark_stopped: "same_listeners (cs_server \<sigma>) (cs_server (mark_stopped w \<sigma>))"
proof -
  have "same_listeners (cs_server \<sigma>) (cs_server (foldl (\<lambda>\<sigma> a. update_obj a (\<lambda>ts. ts\<lparr>ts_running := False\<rparr>) \<sigma>) \<sigma> as))" for as
    by (rule foldl_invariant [where P = "\<lambda>\<sigma>'. same_listeners (cs_server \<sigma>) (cs_server \<sigma>')"])
       (blast intro: same_listeners_trans same_update_obj, simp add: same_listeners_trans same_update_obj)
  moreover have "same_listeners (cs_server \<sigma>') (cs_server (mark_udp_stopped as \<sigma>'))" for as \<sigma>'
    by (auto simp: mark_udp_stopped_def Let_def same_listeners_def bound_def cron_bound_def srv_ok_def
        option.map_comp comp_def intro!: map_option_cong split: if_splits)
  ultimately show ?thesis unfolding mark_stopped_def by (blast intro: same_listeners_trans)
qed

lemma same_conn_step:
  assumes "conn_step ensure stop listen bcrypt l \<sigma> es \<sigma>'" and "\<nexists>pl. l = Server pl"
  shows "same_listeners (cs_server \<sigma>) (cs_server \<sigma>') \<and> quiet es"
  using assms(1)
proof cases
  case (advance i c \<sigma>1 co)
  then show ?thesis using same_conn_advance [of bcrypt ensure c \<sigma>] by simp
next
  case (idle_advanced w ws \<sigma>1 wo)
  have "quiet (snd (entry_stopped (cs_server \<sigma>) ce))" for ce
    by (cases ce) (simp add: entry_stopped_def)
  with idle_advanced same_mark_stopped [of \<sigma> w] show ?thesis
    by (auto simp: idle_advance_def split: if_splits prod.splits)
qed (use assms(2) in auto)

lemma conn_run_sockets:
  "conn_run ensure stop listen bcrypt ls es \<sigma> \<Longrightarrow> sockets {} es = Some (bound_ports (cs_server \<sigma>))"
proof (induction rule: conn_run.induct)
  case (start b t i p st tls)
  show ?case by (simp add: bound_ports_def bound_def SetScheduler_def NewServer_def)
next
  case (step ls es \<sigma> l es' \<sigma>')
  have "sockets (bound_ports (cs_server \<sigma>)) es' = Some (bound_ports (cs_server \<sigma>'))"
  proof (cases "\<exists>pl. l = Server pl")
    case True
    then obtain pl where "l = Server pl" by blast
    with step.hyps(2) obtain \<pi> where "proxy_step ensure stop listen bcrypt pl (cs_proxy \<sigma>) es' \<pi>" "\<sigma>' = adopt \<sigma> \<pi>"
      by (auto elim!: conn_stepE)
    with step_sockets [of ensure stop listen bcrypt pl "cs_proxy \<sigma>" es' \<pi>] conn_okD(1) [OF conn_run_ok [OF step.hyps(1)]]
    show ?thesis by (simp add: adopt_def)
  next
    case False
    with same_conn_step [OF step.hyps(2)] same_bound_ports [of "cs_server \<sigma>" "cs_server \<sigma>'"]
    show ?thesis by (simp add: quiet_sockets)
  qed
  with step.IH show ?case by simp
qed


text \<open>Whatever an object, the table, the name map or the idle check may name was registered.\<close>

definition known_all :: "string set \<Rightarrow> 'b conn_sys \<Rightarrow> bool" where
  "known_all R \<sigma> \<longleftrightarrow> known_by R (cs_server \<sigma>) \<and> (\<forall>a ts. cs_gone \<sigma> a = Some ts \<longrightarrow> ts_id ts \<in> R)
     \<and> (\<forall>w \<in> set (cs_idle \<sigma>). iw_id w \<in> R)"

definition conn_registered :: "conn_label list \<Rightarrow> string set" where
  "conn_registered ls = {ContainerID i | i. Server (Handled (HRegister i)) \<in> set ls}"

lemma conn_registered_simps [simp]:
  "conn_registered [] = {}" "conn_registered (ls @ ls') = conn_registered ls \<union> conn_registered ls'"
  "conn_registered [Server l] = registered_ids [l]"
  by (auto simp: conn_registered_def registered_ids_def)

lemma known_allD:
  assumes "known_all R \<sigma>"
  shows "known_by R (cs_server \<sigma>)" "cs_gone \<sigma> a = Some ts \<Longrightarrow> ts_id ts \<in> R" "w \<in> set (cs_idle \<sigma>) \<Longrightarrow> iw_id w \<in> R"
  using assms unfolding known_all_def by blast+

lemma known_deref:
  assumes "known_all R \<sigma>" and "deref \<sigma> a = Some ts"
  shows "ts_id ts \<in> R"
proof (cases "snd a = cs_gen \<sigma> (False, fst a)")
  case True
  with assms(2) have "bound (cs_server \<sigma>) (False, fst a) = Some (ts_info ts)" by (simp add: deref_def bound_def)
  from server_idsI(1) [OF this] assms(1) show ?thesis by (auto simp: known_all_def known_by_def)
next
  case False
  with assms(2) show ?thesis by (intro known_allD(2) [OF assms(1), of a]) (simp add: deref_def)
qed

lemma known_update_obj:
  assumes "known_all R \<sigma>"
    and f: "\<And>ts. ts_info (f ts) = ts_info ts \<and> ts_listenPort (f ts) = ts_listenPort ts \<and> ts_removed (f ts) = ts_removed ts"
  shows "known_all R (update_obj a f \<sigma>)"
proof -
  have "known_by R (cs_server (update_obj a f \<sigma>))"
    by (rule known_same [OF known_allD(1) [OF assms(1)] same_update_obj [OF f]])
  moreover have "ts_id ts \<in> R" if "cs_gone (update_obj a f \<sigma>) b = Some ts" for b ts
    using that known_allD(2) [OF assms(1), of b] f by (auto simp: update_obj_def set_server_def split: if_splits)
  moreover have "cs_idle (update_obj a f \<sigma>) = cs_idle \<sigma>" by (simp add: update_obj_def set_server_def)
  ultimately show ?thesis using known_allD(3) [OF assms(1)] unfolding known_all_def by simp
qed

lemma known_frame:
  "known_all R \<sigma> \<Longrightarrow> known_all R (set_conn i co \<sigma>)" "known_all R \<sigma> \<Longrightarrow> known_all R (launch es \<sigma>)"
  "known_all R \<sigma> \<Longrightarrow> known_all R (set_backend b \<sigma>)"
  "known_all R \<sigma> \<Longrightarrow> same_listeners (cs_server \<sigma>) s \<Longrightarrow> known_all R (set_server s \<sigma>)"
  by (auto simp: known_all_def set_conn_def launch_def set_backend_def set_server_def intro: known_same)

lemma known_conn_advance:
  assumes "known_all R \<sigma>" and "conn_advance bcrypt ensure c \<sigma> = (\<sigma>', es, co)"
  shows "known_all R \<sigma>' \<and> touched es \<subseteq> R"
proof (cases "deref \<sigma> (cn_ts c)")
  case (Some ts)
  have started: "same_listeners (cs_server \<sigma>) (fst (conn_started t cid (cs_server \<sigma>)))"
    "touched (snd (conn_started t cid (cs_server \<sigma>))) = {}"
    for t cid using listeners.rel_each_run by (simp_all add: conn_started_def)
  have more: "touched (conn_hook ev info env # es') = touched es'" "touched (Collect m # es') = touched es'" for ev info env m es'
    by (simp_all add: conn_hook_def, simp add: touched_def)
  from Some assms known_deref [OF assms(1) Some] started touched_conn_serve [of bcrypt "cn_env c" ts "fst (cn_ts c)" "cs_server \<sigma>"]
  show ?thesis
    by (cases "cn_phase c")
       (auto simp: conn_advance_def Let_def case_prod_unfold known_update_obj known_frame more
         split: if_splits bool.splits conn_outcome.splits)
qed (use assms in \<open>simp add: conn_advance_def\<close>)

lemma known_mark_stopped:
  assumes "known_all R \<sigma>"
  shows "known_all R (mark_stopped w \<sigma>)"
proof -
  have "known_all R (foldl (\<lambda>\<sigma> a. update_obj a (\<lambda>ts. ts\<lparr>ts_running := False\<rparr>) \<sigma>) \<sigma> (iw_tcp w))"
    by (rule foldl_invariant) (use assms in \<open>simp_all add: known_update_obj\<close>)
  moreover have "cs_gone (mark_udp_stopped as \<sigma>') = cs_gone \<sigma>'" "cs_idle (mark_udp_stopped as \<sigma>') = cs_idle \<sigma>'"
    for as and \<sigma>' :: "'a conn_sys" by (simp_all add: mark_udp_stopped_def set_server_def Let_def)
  moreover have "known_by R (cs_server (mark_stopped w \<sigma>))"
    using assms same_mark_stopped known_same unfolding known_all_def by blast
  ultimately show ?thesis by (simp add: known_all_def mark_stopped_def)
qed

lemma mark_stopped_idle: "cs_idle (mark_stopped w \<sigma>) = cs_idle \<sigma>"
  unfolding mark_stopped_def mark_udp_stopped_def Let_def
  by (simp add: set_server_def foldl_unchanged [where g = cs_idle] update_obj_def)

lemma known_conn_step:
  assumes known: "known_all R \<sigma>" and step: "conn_step ensure stop listen bcrypt l \<sigma> es \<sigma>'"
  shows "known_all (R \<union> conn_registered [l]) \<sigma>' \<and> touched es \<subseteq> R"
proof -
  have mono: "known_all R \<sigma>' \<Longrightarrow> known_all (R \<union> R') \<sigma>'" for R'
    by (auto simp: known_all_def intro: known_mono)
  show ?thesis
    using step
  proof cases
    case (server pl \<pi>)
    have kb: "known_by R (cs_server \<sigma>)" using known by (simp add: known_all_def)
    have "ts_id ts \<in> R" if "cs_gone \<sigma>' a = Some ts" for a ts
    proof (cases "cs_gone \<sigma> a = Some ts")
      case False
      with that server(2) obtain ts0 where "map_of (srv_targets (cs_server \<sigma>)) (fst a) = Some ts0" "ts_info ts = ts_info ts0"
        by (auto simp: adopt_def split: if_splits)
      then have "bound (cs_server \<sigma>) (False, fst a) = Some (ts_info ts)" by (simp add: bound_def)
      from server_idsI(1) [OF this] kb show ?thesis by (auto simp: known_by_def)
    qed (rule known_allD(2) [OF known])
    with step_known [OF server(4) kb] step_touched [OF server(4) kb] known server(1,2) show ?thesis
      by (auto simp: known_all_def adopt_def)
  next
    case (spawn p i env)
    with known have "known_all R \<sigma>'" by (simp add: known_frame)
    from mono [OF this] spawn(2) show ?thesis by simp
  next
    case (advance i c \<sigma>1 co)
    with known_conn_advance [OF known advance(4)] have "known_all R \<sigma>'" "touched es \<subseteq> R" by (simp_all add: known_frame)
    with mono show ?thesis by blast
  next
    case (idle_evaluated now)
    have "iw_id w \<in> R" if w: "w \<in> set (idle_work now \<sigma>)" for w
    proof -
      from w obtain e where "(iw_id w, e) \<in> set (by_container now (cs_server \<sigma>))" "en_allIdle e"
        by (auto simp: idle_work_def work_of_def)
      then have "container_idle now (cs_server \<sigma>) (iw_id w)" using entry_of_idle by blast
      with idle_in_server [where s = "cs_server \<sigma>" and now = now and c = "iw_id w"] known show ?thesis
        unfolding known_all_def known_by_def by blast
    qed
    with known have "known_all R \<sigma>'" unfolding idle_evaluated(3) known_all_def set_idle_def by simp
    from mono [OF this] idle_evaluated(2) show ?thesis by simp
  next
    case (idle_advanced w ws \<sigma>1 wo)
    have w: "iw_id w \<in> R" by (rule known_allD(3) [OF known]) (simp add: idle_advanced(3))
    have none: "touched (snd (entry_stopped s ce)) = {}" for s ce by (cases ce) (simp add: entry_stopped_def)
    have "known_all R \<sigma>1" "touched es \<subseteq> R" "cs_idle \<sigma>1 = cs_idle \<sigma>"
      using idle_advanced(4) w known_mark_stopped [OF known] mark_stopped_idle [of w \<sigma>] known_frame(3) [OF known]
      by (auto simp: idle_advance_def none set_backend_def split: if_splits prod.splits)
    moreover have "\<forall>w' \<in> set (case wo of None \<Rightarrow> ws | Some w' \<Rightarrow> w' # ws). iw_id w' \<in> R"
      using idle_advanced(3,4) w known_allD(3) [OF known]
      by (auto simp: idle_advance_def split: if_splits prod.splits)
    ultimately have "known_all R (set_idle (case wo of None \<Rightarrow> ws | Some w' \<Rightarrow> w' # ws) \<sigma>1)"
      by (simp add: known_all_def set_idle_def)
    then have "known_all R \<sigma>'" unfolding idle_advanced(2) by (rule known_frame)
    with \<open>touched es \<subseteq> R\<close> mono show ?thesis by blast
  qed
qed

lemma conn_run_known:
  "conn_run ensure stop listen bcrypt ls es \<sigma> \<Longrightarrow> known_all (conn_registered ls) \<sigma> \<and> touched es \<subseteq> conn_registered ls"
proof (induction rule: conn_run.induct)
  case (start b t i p st tls)
  have "srv_ok (SetScheduler (NewServer t i p st tls))"
    using NewServer_ok [of t i p st tls] by (simp add: SetScheduler_def srv_ok_def)
  then show ?case
    by (simp add: known_all_def known_by_def server_ids_def bound_def cron_bound_def SetScheduler_def NewServer_def)
next
  case (step ls es \<sigma> l es' \<sigma>')
  with known_conn_step [OF _ step.hyps(2)] show ?case by auto
qed

end
