(* ===== verification/Conn_Alone.thy ===== *)
theory Conn_Alone
  imports Conn_Steps
begin

text \<open>
  What the steps of connections and of the idle check amount to: without interruption the sequential
  operations, and in any run the counts, sockets and containers the properties below speak of. Lists of
  steps are executed by \<open>conn_exec\<close>, which the witnesses evaluate.
\<close>

subsection \<open>A connection that nothing interrupts\<close>

primrec conn_alone ::
  "(string \<Rightarrow> string \<Rightarrow> bool) \<Rightarrow> ('b \<Rightarrow> string \<Rightarrow> 'b \<times> bool) \<Rightarrow> nat \<Rightarrow> connection option \<Rightarrow> 'b conn_sys
     \<Rightarrow> 'b conn_sys \<times> server_effect list \<times> connection option" where
  "conn_alone bcrypt ensure 0 co \<sigma> = (\<sigma>, [], co)"
| "conn_alone bcrypt ensure (Suc n) co \<sigma> =
     (case co of
        None \<Rightarrow> (\<sigma>, [], None)
      | Some c \<Rightarrow>
          (case conn_advance bcrypt ensure c \<sigma> of
             (\<sigma>1, es, co1) \<Rightarrow> (case conn_alone bcrypt ensure n co1 \<sigma>1 of (\<sigma>2, es', co2) \<Rightarrow> (\<sigma>2, es @ es', co2))))"

definition situated :: "'b conn_sys \<Rightarrow> 'b \<Rightarrow> ProxyServer \<Rightarrow> 'b conn_sys" where
  "situated \<sigma> b s = set_server s (set_backend b \<sigma>)"

lemma situated_simps [simp]:
  "px_backend (cs_proxy (situated \<sigma> b s)) = b" "cs_server (situated \<sigma> b s) = s"
  "set_backend b' (situated \<sigma> b s) = situated \<sigma> b' s" "set_server s' (situated \<sigma> b s) = situated \<sigma> b s'"
  "situated \<sigma> (px_backend (cs_proxy \<sigma>)) (cs_server \<sigma>) = \<sigma>"
  by (simp_all add: situated_def set_server_def set_backend_def)

lemma situated_objects [simp]:
  "deref (situated \<sigma> b s) (p, cs_gen \<sigma> (False, p)) = map_of (srv_targets s) p"
  "update_obj (p, cs_gen \<sigma> (False, p)) f (situated \<sigma> b s) = situated \<sigma> b (update_tcp p f s)"
  by (simp_all add: situated_def deref_def update_obj_def set_server_def set_backend_def)

lemma conn_serve_state:
  "fst (conn_serve bcrypt env ts p s)
    = (case snd (snd (conn_serve bcrypt env ts p s)) of Proxied _ \<Rightarrow> conn_touch p (env_endedAt env) s | _ \<Rightarrow> s)"
  by (auto simp: conn_serve_def case_prod_unfold split: option.splits)

lemma conn_parts_cong:
  "conn_ready env (ts\<lparr>ts_activeConns := n\<rparr>) = conn_ready env ts" "conn_ready env (ts\<lparr>ts_running := b\<rparr>) = conn_ready env ts"
  "conn_dial env (ts\<lparr>ts_activeConns := n\<rparr>) = conn_dial env ts" "conn_dial env (ts\<lparr>ts_running := b\<rparr>) = conn_dial env ts"
  "handleHTTPProxy bcrypt (ts\<lparr>ts_activeConns := n\<rparr>) rqs = handleHTTPProxy bcrypt ts rqs"
  "handleHTTPProxy bcrypt (ts\<lparr>ts_running := b\<rparr>) rqs = handleHTTPProxy bcrypt ts rqs"
  by (simp_all add: conn_ready_def conn_dial_def handleHTTPProxy_def Let_def split: health_url.split)

lemma conn_serve_cong [simp]:
  "conn_serve bcrypt env (ts\<lparr>ts_activeConns := n\<rparr>) p s = conn_serve bcrypt env ts p s"
  "conn_serve bcrypt env (ts\<lparr>ts_running := b\<rparr>) p s = conn_serve bcrypt env ts p s"
  by (auto simp: conn_serve_def conn_parts_cong split: option.split)

lemma collector_frame [simp]:
  "srv_collector (conn_open p s) = srv_collector s" "srv_collector (update_tcp p f s) = srv_collector s"
  "srv_collector (fst (conn_started t c s)) = srv_collector s"
  by (simp_all add: conn_open_def update_tcp_def conn_started_def each_tcp_def each_udp_def)

lemma conn_started_at:
  "map_of (srv_targets s) p = Some ts \<Longrightarrow> map_of (srv_targets (fst (conn_started t (ts_id ts) s))) p = Some (ts\<lparr>ts_running := True\<rparr>)"
  by (simp add: conn_started_def each_tcp_def each_udp_def)


text \<open>What a connection that is not refused reports at its start and at its end.\<close>

definition conn_began :: "ProxyServer \<Rightarrow> targetState \<Rightarrow> conn_env \<Rightarrow> server_effect list" where
  "conn_began s ts env = collect s [MConnectionStarted (ts_listenPort ts) False]
     @ (if WebhookURL (ts_info ts) \<noteq> '''' then [conn_hook ''tcp_conn_start'' (ts_info ts) env] else [])"

definition conn_ended :: "ProxyServer \<Rightarrow> targetState \<Rightarrow> conn_env \<Rightarrow> server_effect list" where
  "conn_ended s ts env = (if WebhookURL (ts_info ts) \<noteq> '''' then [conn_hook ''tcp_conn_end'' (ts_info ts) env] else [])
     @ collect s [MConnectionEnded (ts_listenPort ts) False (env_durationMs env)]"

definition conn_came_up :: "ProxyServer \<Rightarrow> targetState \<Rightarrow> conn_env \<Rightarrow> server_effect list" where
  "conn_came_up s ts env =
     (if env_shared env then [] else collect s [MRecordColdStart (ts_listenPort ts) False (env_coldStartMs env)])
     @ snd (conn_started (env_startedAt env) (ts_id ts) s)
     @ lifecycle_webhook (ts_info ts) ''container_started'' (ts_id ts) (ContainerName (ts_info ts))"

lemma conn_reports_cong [simp]:
  "conn_began s (ts\<lparr>ts_activeConns := n\<rparr>) env = conn_began s ts env" "conn_ended s (ts\<lparr>ts_activeConns := n\<rparr>) env = conn_ended s ts env"
  "conn_ended s (ts\<lparr>ts_running := b\<rparr>) env = conn_ended s ts env" "conn_came_up s (ts\<lparr>ts_activeConns := n\<rparr>) env = conn_came_up s ts env"
  by (simp_all add: conn_began_def conn_ended_def conn_came_up_def)

text \<open>\<open>handleConn\<close> in these words.\<close>

lemma handleConn_eq:
  assumes "map_of (srv_targets s0) p = Some ts0"
  shows "handleConn bcrypt ensure env (b, s0) p =
    (let s = conn_open p s0; rest = (\<lambda>t. conn_serve bcrypt env ts0 p t) in
     if ipBlocked (env_remote env) (ts_info ts0) then ((b, conn_close p s), [], AccessBlocked)
     else if \<not> starts_on_connection (ts_info ts0) then
       ((b, conn_close p (fst (rest s))), conn_began s ts0 env @ fst (snd (rest s)) @ conn_ended s ts0 env, snd (snd (rest s)))
     else case ensure b (ts_id ts0) of
       (b', False) \<Rightarrow> ((b', conn_close p s), conn_began s ts0 env @ CallEnsure (ts_id ts0)
           # collect s [MConnectionFailed (ts_listenPort ts0) False] @ conn_ended s ts0 env, StartFailed)
     | (b', True) \<Rightarrow> let t = fst (conn_started (env_startedAt env) (ts_id ts0) s) in
         ((b', conn_close p (fst (rest t))), conn_began s ts0 env @ CallEnsure (ts_id ts0) # conn_came_up s ts0 env
           @ fst (snd (rest t)) @ conn_ended s ts0 env, snd (snd (rest t))))"
proof -
  have hook: "fireWebhook (WebhookURL info) ev (ContainerID info) (ContainerName info) (env_connID env)
      (fst (case split_host_port (env_remote env) of None \<Rightarrow> ('''', '''') | Some hp \<Rightarrow> hp))
      (case atoi (snd (case split_host_port (env_remote env) of None \<Rightarrow> ('''', '''') | Some hp \<Rightarrow> hp)) of None \<Rightarrow> 0 | Some n \<Rightarrow> n)
    = conn_hook ev info env" for ev info
    by (simp add: conn_hook_def conn_peer_def case_prod_unfold)
  show ?thesis
    using assms
    by (simp add: handleConn_def Let_def case_prod_unfold hook conn_began_def conn_ended_def conn_came_up_def split: bool.split)
qed

text \<open>A connection that is being served, with the deferred reports of its start.\<close>

lemma alone_from_serving:
  assumes ts: "map_of (srv_targets t) p = Some ts" and a: "cn_ts c = (p, cs_gen \<sigma> (False, p))" "cn_phase c = Serving"
    and deferred: "cn_hooked c = (WebhookURL (ts_info ts) \<noteq> '''')" "cn_counted c = srv_collector s"
  shows "conn_alone bcrypt ensure (Suc (Suc n)) (Some c) (situated \<sigma> b t)
    = (let r = conn_serve bcrypt (cn_env c) ts p t
       in (situated \<sigma> b (conn_close p (fst r)), fst (snd r) @ conn_ended s ts (cn_env c), None))"
proof -
  let ?r = "conn_serve bcrypt (cn_env c) ts p t"
  have "\<exists>ts'. map_of (srv_targets (fst ?r)) p = Some ts' \<and> ts_info ts' = ts_info ts \<and> ts_listenPort ts' = ts_listenPort ts"
    using ts by (auto simp: conn_serve_state conn_touch_def split: conn_outcome.splits)
  then obtain ts' where ts': "map_of (srv_targets (fst ?r)) p = Some ts'" "ts_info ts' = ts_info ts" "ts_listenPort ts' = ts_listenPort ts"
    by blast
  have serve: "conn_advance bcrypt ensure c (situated \<sigma> b t)
    = (situated \<sigma> b (fst ?r), fst (snd ?r), Some (c\<lparr>cn_phase := Closing\<rparr>))"
    using ts a by (simp add: conn_advance_def Let_def case_prod_unfold conn_serve_state conn_touch_def split: conn_outcome.splits)
  have close: "conn_advance bcrypt ensure (c\<lparr>cn_phase := Closing\<rparr>) (situated \<sigma> b (fst ?r))
    = (situated \<sigma> b (conn_close p (fst ?r)), conn_ended s ts (cn_env c), None)"
    using a(1) ts' by (simp add: conn_advance_def Let_def conn_close_def conn_ended_def deferred collect_def)
  show ?thesis by (simp add: serve close Let_def) (cases n; simp)
qed

lemma alone_None [simp]: "conn_alone bcrypt ensure n None \<sigma> = (\<sigma>, [], None)"
  by (cases n) simp_all

text \<open>A connection about to start its container.\<close>

lemma alone_from_starting:
  assumes ts: "map_of (srv_targets s) p = Some ts" and a: "cn_ts c = (p, cs_gen \<sigma> (False, p))" "cn_phase c = Starting"
    and deferred: "cn_hooked c = (WebhookURL (ts_info ts) \<noteq> '''')" "cn_counted c = srv_collector s"
  shows "conn_alone bcrypt ensure (Suc (Suc (Suc (Suc 0)))) (Some c) (situated \<sigma> b s)
    = (case ensure b (ts_id ts) of
         (b', False) \<Rightarrow> (situated \<sigma> b' (conn_close p s), CallEnsure (ts_id ts)
             # collect s [MConnectionFailed (ts_listenPort ts) False] @ conn_ended s ts (cn_env c), None)
       | (b', True) \<Rightarrow> let t = fst (conn_started (env_startedAt (cn_env c)) (ts_id ts) s); r = conn_serve bcrypt (cn_env c) ts p t in
           (situated \<sigma> b' (conn_close p (fst r)),
            CallEnsure (ts_id ts) # conn_came_up s ts (cn_env c) @ fst (snd r) @ conn_ended s ts (cn_env c), None))"
proof -
  obtain b' up where up: "ensure b (ts_id ts) = (b', up)" by (cases "ensure b (ts_id ts)")
  show ?thesis
  proof (cases up)
    case False
    have "conn_advance bcrypt ensure c (situated \<sigma> b s)
        = (situated \<sigma> b' s, CallEnsure (ts_id ts) # collect s [MConnectionFailed (ts_listenPort ts) False], Some (c\<lparr>cn_phase := Closing\<rparr>))"
      using ts a up False by (simp add: conn_advance_def Let_def)
    moreover have "conn_advance bcrypt ensure (c\<lparr>cn_phase := Closing\<rparr>) (situated \<sigma> b' s)
        = (situated \<sigma> b' (conn_close p s), conn_ended s ts (cn_env c), None)"
      using ts a by (simp add: conn_advance_def Let_def conn_close_def conn_ended_def deferred collect_def)
    ultimately show ?thesis using up False by simp
  next
    case True
    let ?t = "fst (conn_started (env_startedAt (cn_env c)) (ts_id ts) s)"
    have start: "conn_advance bcrypt ensure c (situated \<sigma> b s)
        = (situated \<sigma> b' s, [CallEnsure (ts_id ts)], Some (c\<lparr>cn_phase := Started\<rparr>))"
      using ts a up True by (simp add: conn_advance_def Let_def)
    have started: "conn_advance bcrypt ensure (c\<lparr>cn_phase := Started\<rparr>) (situated \<sigma> b' s)
        = (situated \<sigma> b' ?t, conn_came_up s ts (cn_env c), Some (c\<lparr>cn_phase := Serving\<rparr>))"
      using ts a by (simp add: conn_advance_def Let_def case_prod_unfold conn_came_up_def)
    have "conn_alone bcrypt ensure (Suc (Suc 0)) (Some (c\<lparr>cn_phase := Serving\<rparr>)) (situated \<sigma> b' ?t)
        = (let r = conn_serve bcrypt (cn_env c) ts p ?t
           in (situated \<sigma> b' (conn_close p (fst r)), fst (snd r) @ conn_ended s ts (cn_env c), None))"
      using alone_from_serving [OF conn_started_at [OF ts], of "c\<lparr>cn_phase := Serving\<rparr>" \<sigma> s bcrypt ensure 0] a deferred by simp
    then show ?thesis using up True by (simp add: start started Let_def)
  qed
qed

lemma alone_from_opened:
  assumes ts0: "map_of (srv_targets s0) p = Some ts0" and c: "c = (new_connection env (p, cs_gen \<sigma> (False, p)))\<lparr>cn_phase := Opened\<rparr>"
  shows "\<exists>b' s' es outcome. conn_alone bcrypt ensure (Suc (Suc (Suc (Suc (Suc 0))))) (Some c) (situated \<sigma> b (conn_open p s0))
       = (situated \<sigma> b' s', es, None)
     \<and> handleConn bcrypt ensure env (b, s0) p = ((b', s'), es, outcome)"
proof -
  let ?s = "conn_open p s0" and ?ts = "ts0\<lparr>ts_activeConns := wrap32 (ts_activeConns ts0 + 1)\<rparr>"
  have ts: "map_of (srv_targets ?s) p = Some ?ts" using ts0 by (simp add: conn_open_def)
  show ?thesis
  proof (cases "ipBlocked (env_remote env) (ts_info ts0)")
    case True
    with ts c show ?thesis
      by (simp add: conn_advance_def Let_def new_connection_def handleConn_eq [OF ts0] conn_close_def)
  next
    case False
    define d where "d = c\<lparr>cn_phase := (if starts_on_connection (ts_info ts0) then Starting else Serving),
       cn_counted := srv_collector ?s, cn_hooked := WebhookURL (ts_info ts0) \<noteq> ''''\<rparr>"
    have opened: "conn_advance bcrypt ensure c (situated \<sigma> b ?s) = (situated \<sigma> b ?s, conn_began ?s ts0 env, Some d)"
      using ts c False by (simp add: conn_advance_def Let_def new_connection_def d_def conn_began_def)
    note head = conn_alone.simps(2) [of bcrypt ensure _ "Some c" "situated \<sigma> b ?s", unfolded option.case opened prod.case]
    have d: "cn_ts d = (p, cs_gen \<sigma> (False, p))" "cn_env d = env" "cn_hooked d = (WebhookURL (ts_info ?ts) \<noteq> '''')"
      "cn_counted d = srv_collector ?s" "cn_phase d = (if starts_on_connection (ts_info ts0) then Starting else Serving)"
      using c by (simp_all add: d_def new_connection_def)
    show ?thesis
    proof (cases "starts_on_connection (ts_info ts0)")
      case no: False
      from alone_from_serving [OF ts d(1) _ d(3,4), of bcrypt ensure "Suc (Suc 0)" b] d(5) no False show ?thesis
        by (auto simp: head d(2) handleConn_eq [OF ts0] Let_def simp del: conn_alone.simps)
    next
      case yes: True
      obtain b' up where up: "ensure b (ts_id ts0) = (b', up)" by (cases "ensure b (ts_id ts0)")
      from alone_from_starting [OF ts d(1) _ d(3,4), of bcrypt ensure b] d(5) yes False up show ?thesis
        by (cases up) (auto simp: head d(2) handleConn_eq [OF ts0] Let_def simp del: conn_alone.simps)
    qed
  qed
qed

subsection \<open>An idle check that nothing interrupts\<close>

definition idle_next :: "('b \<Rightarrow> string \<Rightarrow> string \<Rightarrow> 'b \<times> bool) \<Rightarrow> 'b conn_sys \<Rightarrow> 'b conn_sys \<times> server_effect list" where
  "idle_next stop \<sigma> =
     (case cs_idle \<sigma> of
        [] \<Rightarrow> (\<sigma>, [])
      | w # ws \<Rightarrow> (case idle_advance stop w \<sigma> of
          (\<sigma>1, es, wo) \<Rightarrow> (launch es (set_idle (case wo of None \<Rightarrow> ws | Some w' \<Rightarrow> w' # ws) \<sigma>1), es)))"

primrec idle_alone :: "('b \<Rightarrow> string \<Rightarrow> string \<Rightarrow> 'b \<times> bool) \<Rightarrow> nat \<Rightarrow> 'b conn_sys \<Rightarrow> 'b conn_sys \<times> server_effect list" where
  "idle_alone stop 0 \<sigma> = (\<sigma>, [])"
| "idle_alone stop (Suc n) \<sigma> =
     (case idle_next stop \<sigma> of (\<sigma>1, es) \<Rightarrow> (case idle_alone stop n \<sigma>1 of (\<sigma>2, es') \<Rightarrow> (\<sigma>2, es @ es')))"

lemma foldl_update_tcp:
  assumes "\<And>ts. f (f ts) = f ts"
  shows "foldl (\<lambda>s p. update_tcp p f s) s ps
    = s\<lparr>srv_targets := map_values (\<lambda>q ts. if q \<in> set ps then f ts else ts) (srv_targets s)\<rparr>"
proof (induction ps arbitrary: s)
  case (Cons p ps)
  have "map_values (\<lambda>q ts. if q \<in> set ps then f ts else ts) (map_values (\<lambda>q ts. if q = p then f ts else ts) m)
      = map_values (\<lambda>q ts. if q \<in> set (p # ps) then f ts else ts) m" for m
    by (auto simp: map_values_def assms)
  with Cons.IH show ?case by (simp add: update_tcp_def)
qed (simp add: map_values_def)

lemma mark_current:
  "mark_stopped (work_of (cs_gen \<sigma>) (cid, e)) (situated \<sigma> b s) = situated \<sigma> b (fst (entry_stopped s (cid, e)))"
proof -
  have "foldl (\<lambda>\<sigma>' a. update_obj a f \<sigma>') (situated \<sigma> b s) (map (\<lambda>p. (p, cs_gen \<sigma> (False, p))) ps)
      = situated \<sigma> b (foldl (\<lambda>s p. update_tcp p f s) s ps)" for f ps
    by (induction ps arbitrary: s) simp_all
  then show ?thesis
    by (simp add: mark_stopped_def work_of_def foldl_update_tcp mark_udp_stopped_def Let_def entry_stopped_def)
       (simp add: situated_def image_iff)
qed

lemma after_after: "after (after \<pi> x) y = after \<pi> (fst y, snd x @ snd y)"
  by (simp add: after_def launched_def)

lemma after_nothing: "after \<pi> (both \<pi>, []) = \<pi>"
  by (simp add: after_def launched_def)

lemma launch_situated: "cs_proxy (launch es (set_idle ws (situated \<sigma> b s))) = after (cs_proxy \<sigma>) ((b, s), es)"
  by (simp add: launch_def set_idle_def situated_def set_server_def set_backend_def after_def)

lemma idle_frame:
  "cs_idle (launch es (set_idle ws \<sigma>)) = ws" "cs_gen (situated \<sigma> b s) = cs_gen \<sigma>"
  by (simp_all add: launch_def set_idle_def situated_def set_server_def set_backend_def)

lemma idle_entry_alone:
  assumes head: "cs_idle \<sigma> = work_of (cs_gen \<sigma>) ce # ws" and idle: "en_allIdle (snd ce)"
  obtains k \<sigma>' where "k \<in> {1, 2}" and "\<And>n. idle_alone stop (k + n) \<sigma>
      = (case idle_alone stop n \<sigma>' of (\<sigma>'', es) \<Rightarrow> (\<sigma>'', snd (stop_idle_entry stop (both (cs_proxy \<sigma>)) ce) @ es))"
    and "cs_idle \<sigma>' = ws" "cs_gen \<sigma>' = cs_gen \<sigma>"
    and "cs_proxy \<sigma>' = after (cs_proxy \<sigma>) (stop_idle_entry stop (both (cs_proxy \<sigma>)) ce)"
proof -
  obtain cid e where ce: "ce = (cid, e)" by (cases ce)
  obtain b' up where up: "stop (px_backend (cs_proxy \<sigma>)) cid (en_name e) = (b', up)"
    by (cases "stop (px_backend (cs_proxy \<sigma>)) cid (en_name e)")
  let ?w = "work_of (cs_gen \<sigma>) ce" and ?s = "cs_server \<sigma>"
  have w: "iw_id ?w = cid" "iw_entry ?w = e" "\<not> iw_stopped ?w" by (simp_all add: work_of_def ce)
  have sit: "set_backend b' \<sigma> = situated \<sigma> b' ?s" by (simp add: situated_def set_server_def set_backend_def)
  show ?thesis
  proof (cases up)
    case False
    let ?\<sigma> = "launch [CallStop cid (en_name e)] (set_idle ws (situated \<sigma> b' ?s))"
    have next1: "idle_next stop \<sigma> = (?\<sigma>, [CallStop cid (en_name e)])"
      using False up by (simp add: idle_next_def head idle_advance_def w sit)
    have r: "stop_idle_entry stop (both (cs_proxy \<sigma>)) ce = ((b', ?s), [CallStop cid (en_name e)])"
      using False up idle by (simp add: stop_idle_entry_def ce)
    show ?thesis
      by (rule that [of 1 ?\<sigma>]) (simp_all add: r next1 idle_frame launch_situated case_prod_unfold)
  next
    case True
    let ?w' = "?w\<lparr>iw_stopped := True\<rparr>" and ?r = "entry_stopped ?s ce"
    let ?\<sigma>1 = "launch [CallStop cid (en_name e)] (set_idle (?w' # ws) (situated \<sigma> b' ?s))"
    have next1: "idle_next stop \<sigma> = (?\<sigma>1, [CallStop cid (en_name e)])"
      using True up by (simp add: idle_next_def head idle_advance_def w sit)
    let ?\<sigma>2 = "launch (snd ?r) (set_idle ws (mark_stopped ?w' ?\<sigma>1))"
    have next2: "idle_next stop ?\<sigma>1 = (?\<sigma>2, snd ?r)"
      by (simp add: idle_next_def idle_frame idle_advance_def w ce w [unfolded ce] situated_def)
    have p1: "cs_proxy ?\<sigma>1 = after (cs_proxy \<sigma>) ((b', ?s), [CallStop cid (en_name e)])" by (rule launch_situated)
    have same: "?\<sigma>1 = situated ?\<sigma>1 b' ?s"
      by (simp add: situated_def set_server_def set_backend_def launch_def set_idle_def)
    have "mark_stopped ?w' ?\<sigma>1 = mark_stopped (work_of (cs_gen ?\<sigma>1) (cid, e)) ?\<sigma>1"
      by (simp add: mark_stopped_def work_of_def ce idle_frame)
    also have "\<dots> = situated ?\<sigma>1 b' (fst ?r)"
      by (subst (2) same) (simp only: mark_current ce)
    finally have mark: "mark_stopped ?w' ?\<sigma>1 = situated ?\<sigma>1 b' (fst ?r)" .
    have r: "stop_idle_entry stop (both (cs_proxy \<sigma>)) ce = ((b', fst ?r), CallStop cid (en_name e) # snd ?r)"
      using True up idle by (simp add: stop_idle_entry_def ce case_prod_unfold)
    show ?thesis
    proof (rule that [of 2 ?\<sigma>2])
      show "cs_proxy ?\<sigma>2 = after (cs_proxy \<sigma>) (stop_idle_entry stop (both (cs_proxy \<sigma>)) ce)"
        unfolding mark launch_situated p1 r after_after by simp
      show "idle_alone stop (2 + n) \<sigma> = (case idle_alone stop n ?\<sigma>2 of (\<sigma>'', es) \<Rightarrow>
          (\<sigma>'', snd (stop_idle_entry stop (both (cs_proxy \<sigma>)) ce) @ es))" for n
        by (simp add: numeral_2_eq_2 next1 next2 r case_prod_unfold)
    qed (simp_all add: mark idle_frame)
  qed
qed

lemma idle_alone_none: "cs_idle \<sigma> = [] \<Longrightarrow> idle_alone stop n \<sigma> = (\<sigma>, [])"
  by (induction n) (simp_all add: idle_next_def)

lemma run_each_filter:
  "(\<And>s x. x \<in> set xs \<Longrightarrow> \<not> P x \<Longrightarrow> f s x = (s, [])) \<Longrightarrow> run_each f s xs = run_each f s (filter P xs)"
  by (induction xs arbitrary: s) auto

lemma idle_alone_run:
  "cs_idle \<sigma> = map (work_of (cs_gen \<sigma>)) ces \<Longrightarrow> (\<And>ce. ce \<in> set ces \<Longrightarrow> en_allIdle (snd ce)) \<Longrightarrow> 2 * length ces \<le> n
   \<Longrightarrow> cs_idle (fst (idle_alone stop n \<sigma>)) = []
     \<and> snd (idle_alone stop n \<sigma>) = snd (run_each (stop_idle_entry stop) (both (cs_proxy \<sigma>)) ces)
     \<and> cs_proxy (fst (idle_alone stop n \<sigma>)) = after (cs_proxy \<sigma>) (run_each (stop_idle_entry stop) (both (cs_proxy \<sigma>)) ces)"
proof (induction ces arbitrary: \<sigma> n)
  case Nil
  then show ?case by (simp add: idle_alone_none after_nothing)
next
  case (Cons ce ces)
  let ?r = "stop_idle_entry stop (both (cs_proxy \<sigma>)) ce"
  have head: "cs_idle \<sigma> = work_of (cs_gen \<sigma>) ce # map (work_of (cs_gen \<sigma>)) ces" and idle: "en_allIdle (snd ce)"
    using Cons.prems(1,2) by simp_all
  obtain k \<sigma>' where k: "k \<in> {1, 2}" and run: "\<And>n. idle_alone stop (k + n) \<sigma>
      = (case idle_alone stop n \<sigma>' of (\<sigma>'', es) \<Rightarrow> (\<sigma>'', snd ?r @ es))"
    and \<sigma>': "cs_idle \<sigma>' = map (work_of (cs_gen \<sigma>)) ces" "cs_gen \<sigma>' = cs_gen \<sigma>" "cs_proxy \<sigma>' = after (cs_proxy \<sigma>) ?r"
    by (rule idle_entry_alone [where stop = stop, OF head idle]) (rule that; assumption)
  have both: "both (cs_proxy \<sigma>') = fst ?r" by (simp add: \<sigma>'(3) after_def)
  have n: "k + (n - k) = n" and "2 * length ces \<le> n - k" using k Cons.prems(3) by auto
  with Cons.IH [of \<sigma>' "n - k"] \<sigma>'(1,2) Cons.prems(2)
  have IH: "cs_idle (fst (idle_alone stop (n - k) \<sigma>')) = []"
    "snd (idle_alone stop (n - k) \<sigma>') = snd (run_each (stop_idle_entry stop) (fst ?r) ces)"
    "cs_proxy (fst (idle_alone stop (n - k) \<sigma>')) = after (cs_proxy \<sigma>') (run_each (stop_idle_entry stop) (fst ?r) ces)"
    by (simp_all add: both)
  have step: "idle_alone stop n \<sigma> = (fst (idle_alone stop (n - k) \<sigma>'), snd ?r @ snd (idle_alone stop (n - k) \<sigma>'))"
    using run [of "n - k"] unfolding n by (simp add: case_prod_unfold)
  show ?case
    unfolding step fst_conv snd_conv IH \<sigma>'(3) after_after by (simp add: case_prod_unfold)
qed


subsection \<open>Running a list of steps\<close>

text \<open>The steps as a function, for the labels that leave no choice.\<close>

definition conn_exec1 ::
  "('b \<Rightarrow> string \<Rightarrow> 'b \<times> bool) \<Rightarrow> ('b \<Rightarrow> string \<Rightarrow> string \<Rightarrow> 'b \<times> bool) \<Rightarrow> (bool \<Rightarrow> int \<Rightarrow> bool) \<Rightarrow> (string \<Rightarrow> string \<Rightarrow> bool)
     \<Rightarrow> instant \<Rightarrow> conn_label \<Rightarrow> 'b conn_sys \<Rightarrow> ('b conn_sys \<times> server_effect list) option" where
  "conn_exec1 ensure stop listen bcrypt now l \<sigma> =
     (case l of
        Server (Handled call) \<Rightarrow>
          (case server_handle listen now (cs_server \<sigma>) call of
             (s', es) \<Rightarrow> Some (adopt \<sigma> (after (cs_proxy \<sigma>) ((px_backend (cs_proxy \<sigma>), s'), es)), es))
      | Server _ \<Rightarrow> None
      | Spawn i env p \<Rightarrow>
          if map_of (srv_targets (cs_server \<sigma>)) p = None \<or> map_of (cs_conns \<sigma>) i \<noteq> None then None
          else Some (set_conn i (Some (new_connection env (p, cs_gen \<sigma> (False, p)))) \<sigma>, [])
      | Advance i \<Rightarrow>
          (case map_of (cs_conns \<sigma>) i of
             None \<Rightarrow> None
           | Some c \<Rightarrow> (case conn_advance bcrypt ensure c \<sigma> of (\<sigma>', es, co) \<Rightarrow> Some (set_conn i co \<sigma>', es)))
      | IdleEvaluated t \<Rightarrow> if cs_idle \<sigma> \<noteq> [] then None else Some (set_idle (idle_work t \<sigma>) \<sigma>, [])
      | IdleAdvanced \<Rightarrow> if cs_idle \<sigma> = [] then None else Some (idle_next stop \<sigma>))"

fun conn_exec ::
  "('b \<Rightarrow> string \<Rightarrow> 'b \<times> bool) \<Rightarrow> ('b \<Rightarrow> string \<Rightarrow> string \<Rightarrow> 'b \<times> bool) \<Rightarrow> (bool \<Rightarrow> int \<Rightarrow> bool) \<Rightarrow> (string \<Rightarrow> string \<Rightarrow> bool)
     \<Rightarrow> instant \<Rightarrow> conn_label list \<Rightarrow> 'b conn_sys \<times> server_effect list \<Rightarrow> ('b conn_sys \<times> server_effect list) option" where
  "conn_exec ensure stop listen bcrypt now [] r = Some r"
| "conn_exec ensure stop listen bcrypt now (l # ls) (\<sigma>, es) =
     (case conn_exec1 ensure stop listen bcrypt now l \<sigma> of
        None \<Rightarrow> None
      | Some (\<sigma>', es') \<Rightarrow> conn_exec ensure stop listen bcrypt now ls (\<sigma>', es @ es'))"

lemma conn_exec1_step:
  assumes "conn_exec1 ensure stop listen bcrypt now l \<sigma> = Some (\<sigma>', es)"
  shows "conn_step ensure stop listen bcrypt l \<sigma> es \<sigma>'"
proof (cases l)
  case (Server pl)
  with assms obtain call where pl: "pl = Handled call" by (auto simp: conn_exec1_def split: proxy_label.splits)
  obtain s' e where h: "server_handle listen now (cs_server \<sigma>) call = (s', e)" by (cases "server_handle listen now (cs_server \<sigma>) call")
  with assms Server pl have "\<sigma>' = adopt \<sigma> (after (cs_proxy \<sigma>) ((px_backend (cs_proxy \<sigma>), s'), es))" "e = es"
    by (auto simp: conn_exec1_def)
  with Server pl h show ?thesis by (auto intro!: conn_step.server proxy_step.handler simp: whole_step_def)
next
  case (Spawn i env p)
  with assms show ?thesis by (auto simp: conn_exec1_def intro!: conn_step.spawn split: if_splits)
next
  case (Advance i)
  with assms show ?thesis by (auto simp: conn_exec1_def intro!: conn_step.advance split: option.splits prod.splits)
next
  case (IdleEvaluated t)
  with assms show ?thesis by (auto simp: conn_exec1_def intro!: conn_step.idle_evaluated split: if_splits)
next
  case IdleAdvanced
  with assms show ?thesis
    by (auto simp: conn_exec1_def idle_next_def intro!: conn_step.idle_advanced split: if_splits list.splits prod.splits)
qed

lemma conn_exec_run:
  "conn_run ensure stop listen bcrypt ls0 es0 \<sigma>0 \<Longrightarrow> conn_exec ensure stop listen bcrypt now ls (\<sigma>0, es0) = Some (\<sigma>, es)
   \<Longrightarrow> conn_run ensure stop listen bcrypt (ls0 @ ls) es \<sigma>"
proof (induction ls arbitrary: ls0 es0 \<sigma>0)
  case (Cons l ls)
  then obtain \<sigma>1 es1 where 1: "conn_exec1 ensure stop listen bcrypt now l \<sigma>0 = Some (\<sigma>1, es1)"
    "conn_exec ensure stop listen bcrypt now ls (\<sigma>1, es0 @ es1) = Some (\<sigma>, es)"
    by (auto split: option.splits)
  from Cons.IH [OF conn_run.step [OF Cons.prems(1) conn_exec1_step [OF 1(1)]] 1(2)] show ?case by simp
qed simp

definition fresh_conns :: "duration \<Rightarrow> unit conn_sys" where
  "fresh_conns idle = \<lparr>cs_proxy = \<lparr>px_backend = (), px_server = SetScheduler (NewServer 0 idle 0 0 False), px_cascades = []\<rparr>,
     cs_gen = (\<lambda>_. 0), cs_gone = (\<lambda>_. None), cs_conns = [], cs_idle = []\<rparr>"

abbreviation "demo_run ls \<equiv> conn_exec always (\<lambda>b _ _. (b, True)) (\<lambda>_ _. True) (\<lambda>_ _. False) 0 ls (fresh_conns 900000000000, [])"

lemma demo_run:
  "demo_run ls = Some (\<sigma>, es) \<Longrightarrow> conn_run always (\<lambda>b _ _. (b, True)) (\<lambda>_ _. True) (\<lambda>_ _. False) ls es \<sigma>"
  using conn_exec_run [OF conn_run.start, of always "\<lambda>b _ _. (b, True)" "\<lambda>_ _. True" "\<lambda>_ _. False" 0 ls "()" 0 900000000000 0 0 False \<sigma> es]
  by (simp add: fresh_conns_def)

definition demo_up :: TargetInfo where
  "demo_up = demo_web\<lparr>Running := True\<rparr>"

definition demo_serving :: "conn_label list" where
  "demo_serving = [Spawn 1 demo_env 80, Advance 1, Advance 1, Advance 1, Advance 1]"

text \<open>A run that ends with a connection being served by a registered target.\<close>

definition cut_off :: "string \<Rightarrow> unit conn_sys \<times> server_effect list \<Rightarrow> bool" where
  "cut_off cid r \<longleftrightarrow> (case r of (\<sigma>, es) \<Rightarrow>
     (case map_of (cs_conns \<sigma>) 1 of
        None \<Rightarrow> False
      | Some c \<Rightarrow> cn_phase c = Serving \<and> (case deref \<sigma> (cn_ts c) of None \<Rightarrow> False | Some ts \<Rightarrow> ts_id ts = cid)
           \<and> es \<noteq> [] \<and> last es = CallStop cid ''web''))"

subsection \<open>Properties\<close>

text \<open>
  C4: whatever else happens in between, \<open>activeConns\<close> of a target object is the number of connections
  that hold the object, as a 32 bit number; an object that left the table keeps its own count. Every
  connection holds an object that exists.
\<close>

theorem gauges_count_connections:
  assumes "conn_run ensure stop listen bcrypt ls es \<sigma>" and "deref \<sigma> a = Some ts"
  shows "ts_activeConns ts = wrap32 (int (open_on a \<sigma>))
    \<and> (\<forall>i c. map_of (cs_conns \<sigma>) i = Some c \<longrightarrow> deref \<sigma> (cn_ts c) \<noteq> None)"
proof -
  have ok: "conn_ok \<sigma>" using assms(1) by (rule conn_run_ok)
  have "deref \<sigma> (cn_ts c) \<noteq> None" if "map_of (cs_conns \<sigma>) i = Some c" for i c
    using conn_okD(4) [OF ok that] by (simp add: gauges_def)
  with conn_okD(5) [OF ok, of a] assms(2) show ?thesis by (simp add: gauges_def)
qed

definition one_open :: "unit conn_sys \<times> server_effect list \<Rightarrow> bool" where
  "one_open r \<longleftrightarrow> (case deref (fst r) (80, 0) of None \<Rightarrow> False | Some ts \<Rightarrow> ts_removed ts \<and> open_on (80, 0) (fst r) = 1)"

theorem gauges_count_connections_witness:
  "\<exists>ls es \<sigma> ts. conn_run always (\<lambda>b _ _. (b, True)) (\<lambda>_ _. True) (\<lambda>_ _. False) ls es (\<sigma> :: unit conn_sys)
     \<and> deref \<sigma> (80, 0) = Some ts \<and> ts_removed ts \<and> ts_activeConns ts = 1"
proof -
  let ?ls = "[Server (Handled (HRegister demo_up))] @ demo_serving @ [Server (Handled (HRemove ''c1''))]"
  have "(case demo_run ?ls of None \<Rightarrow> False | Some r \<Rightarrow> one_open r)" by code_simp
  then obtain \<sigma> es ts where run: "demo_run ?ls = Some (\<sigma>, es)"
    and ts: "deref \<sigma> (80, 0) = Some ts" "ts_removed ts" "open_on (80, 0) \<sigma> = 1"
    by (auto simp: one_open_def split: option.splits prod.splits)
  from gauges_count_connections [OF demo_run [OF run] ts(1)] ts(3) have "ts_activeConns ts = 1" by simp
  with demo_run [OF run] ts show ?thesis by blast
qed

text \<open>
  C5: when the idle check picks a container, no connection holds the object of any of its registered
  on-demand TCP mappings (counts below the range of the 32 bit gauge).
\<close>

theorem idle_check_spares_open_connections:
  assumes "conn_run ensure stop listen bcrypt ls es \<sigma>" and "w \<in> set (idle_work now \<sigma>)"
    and "map_of (srv_targets (cs_server \<sigma>)) p = Some ts" and "eligible_tcp (iw_id w) (p, ts)"
    and "open_on (p, cs_gen \<sigma> (False, p)) \<sigma> < 2 ^ 31"
  shows "open_on (p, cs_gen \<sigma> (False, p)) \<sigma> = 0"
proof -
  have ok: "conn_ok \<sigma>" using assms(1) by (rule conn_run_ok)
  from assms(2) obtain e where "(iw_id w, e) \<in> set (by_container now (cs_server \<sigma>))" "en_allIdle e"
    by (auto simp: idle_work_def work_of_def)
  then have "container_idle now (cs_server \<sigma>) (iw_id w)" using entry_of_idle by blast
  with map_of_SomeD [OF assms(3)] assms(4) have "\<not> tcp_busy now (cs_server \<sigma>) ts" by (force simp: idle_over_def)
  then have "ts_activeConns ts \<le> 0" by (simp add: tcp_busy_def)
  moreover have "ts_activeConns ts = wrap32 (int (open_on (p, cs_gen \<sigma> (False, p)) \<sigma>))"
    using conn_okD(5) [OF ok, of "(p, cs_gen \<sigma> (False, p))"] assms(3) by (simp add: gauges_def deref_def)
  ultimately show ?thesis using assms(5) by simp
qed

definition picked :: "unit conn_sys \<times> server_effect list \<Rightarrow> bool" where
  "picked r \<longleftrightarrow> (case map_of (srv_targets (cs_server (fst r))) 80 of None \<Rightarrow> False | Some ts \<Rightarrow>
     list_ex (\<lambda>w. eligible_tcp (iw_id w) (80, ts)) (idle_work 1000000000000000000 (fst r))
     \<and> open_on (80, cs_gen (fst r) (False, 80)) (fst r) < 10)"

theorem idle_check_spares_open_connections_witness:
  "\<exists>ls es \<sigma> w. conn_run always (\<lambda>b _ _. (b, True)) (\<lambda>_ _. True) (\<lambda>_ _. False) ls es (\<sigma> :: unit conn_sys)
     \<and> w \<in> set (idle_work 1000000000000000000 \<sigma>) \<and> open_on (80, cs_gen \<sigma> (False, 80)) \<sigma> = 0"
proof -
  have "(case demo_run [Server (Handled (HRegister demo_up))] of None \<Rightarrow> False | Some r \<Rightarrow> picked r)" by code_simp
  then obtain \<sigma> es ts w where run: "demo_run [Server (Handled (HRegister demo_up))] = Some (\<sigma>, es)"
    and w: "w \<in> set (idle_work 1000000000000000000 \<sigma>)" "map_of (srv_targets (cs_server \<sigma>)) 80 = Some ts"
      "eligible_tcp (iw_id w) (80, ts)" and few: "open_on (80, cs_gen \<sigma> (False, 80)) \<sigma> < 10"
    by (auto simp: picked_def list_ex_iff split: option.splits prod.splits)
  from few have "open_on (80, cs_gen \<sigma> (False, 80)) \<sigma> < 2 ^ 31" by simp
  from idle_check_spares_open_connections [OF demo_run [OF run] w this] demo_run [OF run] w(1) show ?thesis by blast
qed

text \<open>
  The check looks at registered objects and stops later, so two runs still cut a connection off: the
  target is registered again while the connection is open, as a reload with a changed description does,
  and the new object counts none; or the connection comes between the check and the stop.
\<close>

theorem reload_cuts_open_connection:
  "case demo_run ([Server (Handled (HRegister demo_up))] @ demo_serving
       @ [Server (Handled (HRemove ''c1'')), Server (Handled (HRegister (demo_up\<lparr>IdleTimeout := Some 600000000000\<rparr>))),
          IdleEvaluated 1000000000000000000, IdleAdvanced]) of
     None \<Rightarrow> False | Some r \<Rightarrow> cut_off ''c1'' r"
  by code_simp

theorem idle_check_cuts_late_connection:
  "case demo_run ([Server (Handled (HRegister demo_up)), IdleEvaluated 1000000000000000000] @ demo_serving @ [IdleAdvanced]) of
     None \<Rightarrow> False | Some r \<Rightarrow> cut_off ''c1'' r"
  by code_simp

text \<open>
  C6: in every run of the server, whatever the order of the steps of connections, the idle check,
  registrations, removals, cron jobs and cascades, no listening socket is opened twice or closed when it
  is not open, and the open sockets are those of the ports in the registry.
\<close>

theorem open_sockets_are_registered:
  assumes "conn_run ensure stop listen bcrypt ls es \<sigma>"
  shows "sockets {} es = Some (bound_ports (cs_server \<sigma>))"
  by (rule conn_run_sockets [OF assms])

theorem open_sockets_are_registered_witness:
  "\<exists>ls es \<sigma>. conn_run always (\<lambda>b _ _. (b, True)) (\<lambda>_ _. True) (\<lambda>_ _. False) ls es (\<sigma> :: unit conn_sys)
     \<and> sockets {} es = Some (bound_ports (cs_server \<sigma>)) \<and> (False, 80) \<in> bound_ports (cs_server \<sigma>)"
proof -
  let ?ls = "[Server (Handled (HRegister demo_up)), Server (Handled (HRemove ''c1'')), Server (Handled (HRegister demo_up))]"
  have "(case demo_run ?ls of None \<Rightarrow> False | Some (\<sigma>, es) \<Rightarrow> map_of (srv_targets (cs_server \<sigma>)) 80 \<noteq> None)" by code_simp
  then obtain \<sigma> es where run: "demo_run ?ls = Some (\<sigma>, es)" and bound: "map_of (srv_targets (cs_server \<sigma>)) 80 \<noteq> None"
    by (auto split: option.splits)
  from bound have "(False, 80) \<in> bound_ports (cs_server \<sigma>)" by (auto simp: bound_def)
  with open_sockets_are_registered [OF demo_run [OF run]] demo_run [OF run] show ?thesis by blast
qed

text \<open>
  C7: in every run of the server, a container it starts or stops, because of a connection, a cron job,
  the idle check or a dependency, is one that was registered with it.
\<close>

theorem only_registered_containers_are_touched:
  assumes "conn_run ensure stop listen bcrypt ls es \<sigma>"
  shows "touched es \<subseteq> conn_registered ls"
  using conn_run_known [OF assms] by (rule conjunct2)

theorem only_registered_containers_are_touched_witness:
  "\<exists>ls es \<sigma>. conn_run always (\<lambda>b _ _. (b, True)) (\<lambda>_ _. True) (\<lambda>_ _. False) ls es (\<sigma> :: unit conn_sys)
     \<and> touched es \<subseteq> conn_registered ls \<and> ''c1'' \<in> touched es"
proof -
  let ?ls = "[Server (Handled (HRegister demo_up))] @ demo_serving"
  have "(case demo_run ?ls of None \<Rightarrow> False | Some (\<sigma>, es) \<Rightarrow> CallEnsure ''c1'' \<in> set es)" by code_simp
  then obtain \<sigma> es where run: "demo_run ?ls = Some (\<sigma>, es)" and started: "CallEnsure ''c1'' \<in> set es"
    by (auto split: option.splits)
  from started have "''c1'' \<in> touched es" by (simp add: in_touched)
  with only_registered_containers_are_touched [OF demo_run [OF run]] demo_run [OF run] show ?thesis by blast
qed




end
