(* ===== verification/Docker_Discovery.thy ===== *)
theory Docker_Discovery
  imports Docker_Manager Target_Handler
begin

text \<open>
  \<open>internal/docker/manager.go\<close>, the other half: turning containers and swarm services into target
  descriptions, discovery, the two event loops and the memory statistics. \<open>uri_ok\<close> is
  \<open>url.ParseRequestURI\<close> succeeding, \<open>cron_ok\<close> \<open>cron.ParseStandard\<close>; the port allocator, shared with
  the configuration store, is passed through (\<open>None\<close> when it is not wired).
\<close>

subsection \<open>Labels\<close>

definition lbl :: "string \<Rightarrow> string" where
  "lbl k = ''lazy-tcp-proxy.'' @ k"

definition label_value :: "(string \<Rightarrow> string option) \<Rightarrow> string \<Rightarrow> string" where
  "label_value labels k = (case labels (lbl k) of None \<Rightarrow> '''' | Some v \<Rightarrow> v)"

definition label_hosts :: "(string \<Rightarrow> string option) \<Rightarrow> string \<Rightarrow> TraefikHostSpec list" where
  "label_hosts labels k =
     (let v = trim_space (label_value labels k) in if v \<noteq> '''' then ParseTraefikHostSpecs v else [])"

definition label_ip_list :: "(string \<Rightarrow> string option) \<Rightarrow> string \<Rightarrow> ipnet slice" where
  "label_ip_list labels k = (let v = label_value labels k in if v \<noteq> '''' then ParseIPList v else None)"

definition label_udp_ports :: "(string \<Rightarrow> string option) \<Rightarrow> PortMapping slice" where
  "label_udp_ports labels =
     (let v = label_value labels ''udp-ports'' in if v \<noteq> '''' then ParsePortMappings v else None)"

definition label_webhook :: "(string \<Rightarrow> bool) \<Rightarrow> (string \<Rightarrow> string option) \<Rightarrow> string" where
  "label_webhook uri_ok labels =
     (let v = trim_space (label_value labels ''webhook-url'') in if v \<noteq> '''' \<and> uri_ok v then v else '''')"

definition label_dependants :: "(string \<Rightarrow> string option) \<Rightarrow> string slice" where
  "label_dependants labels =
     (let v = trim_space (label_value labels ''dependants'') in if v \<noteq> '''' then ParseDependants v else None)"

definition parseCronLabel :: "(string \<Rightarrow> bool) \<Rightarrow> string \<Rightarrow> string" where
  "parseCronLabel cron_ok raw =
     (let v = trim_space raw in if v = '''' then '''' else if \<not> cron_ok v then '''' else v)"

subsection \<open>Containers\<close>

datatype target_error = NotInspected | MissingScale | InvalidScale | MissingPorts | NoValidPorts

definition has_health_check :: "ContainerInspectResult \<Rightarrow> bool" where
  "has_health_check r = (case ci_Health r of None \<Rightarrow> False | Some h \<Rightarrow> h \<noteq> '''' \<and> h \<noteq> ''none'')"

definition containerToTargetInfo ::
  "(string \<Rightarrow> bool) \<Rightarrow> (string \<Rightarrow> bool) \<Rightarrow> 'd Manager \<Rightarrow> PortAllocator option \<Rightarrow> string
     \<Rightarrow> PortAllocator option \<times> (target_error + TargetInfo)" where
  "containerToTargetInfo uri_ok cron_ok m alloc containerID =
     (case inspect m containerID of
        Found r \<Rightarrow>
          let labels = ci_Labels r;
              hasPorts = labels (lbl ''ports'') \<noteq> None;
              hs = label_hosts labels ''traefik-hosts'';
              ths = label_hosts labels ''traefik-tcp-hosts'';
              hasCronStart = trim_space (label_value labels ''cron-start'') \<noteq> '''';
              ports = (if hasPorts then ParsePortMappings (label_value labels ''ports'') else None);
              udp = label_udp_ports labels in
          if \<not> hasPorts \<and> label_value labels ''udp-ports'' = '''' \<and> hs = [] \<and> ths = [] \<and> \<not> hasCronStart
          then (alloc, Inl MissingPorts)
          else if hasPorts \<and> elems ports = [] then (alloc, Inl NoValidPorts)
          else
            (case alloc_hosts alloc ports udp hs ths of (alloc', ports', hosts, thosts) \<Rightarrow>
              (alloc', Inr (zero_info
                 \<lparr>ContainerID := containerID,
                  ContainerName := trim_prefix (ci_Name r) ''/'',
                  Ports := ports',
                  UDPPorts := udp,
                  NetworkIDs := appended (network_ids r),
                  AllowList := label_ip_list labels ''allow-list'',
                  BlockList := label_ip_list labels ''block-list'',
                  IdleTimeout := ParseIdleTimeoutLabel (label_value labels ''idle-timeout-secs''),
                  StartTimeout := ParseStartTimeoutLabel (label_value labels ''start-timeout-secs''),
                  Running := ci_Running r,
                  WebhookURL := label_webhook uri_ok labels,
                  Dependants := label_dependants labels,
                  CronStart := parseCronLabel cron_ok (label_value labels ''cron-start''),
                  CronStop := parseCronLabel cron_ok (label_value labels ''cron-stop''),
                  HTTPHealthCheck := ParseHTTPHealthCheckLabel uri_ok (label_value labels ''http-healthcheck''),
                  HasHealthCheck := has_health_check r,
                  TLS := (trim_space (label_value labels ''tls'') = ''true''),
                  APIKey := ParseAuthList (label_value labels ''api-key''),
                  BasicAuth := ParseAuthList (label_value labels ''basic-auth''),
                  TraefikHosts := hosts,
                  TraefikTCPHosts := thosts,
                  Availability := ParseAvailabilityLabel (label_value labels ''availability''),
                  ALPNProtocols := ParseALPNProtocols [label_value labels ''alpn-protocols''],
                  MinTLSVersion := ParseMinTLSVersion (label_value labels ''min-version'')\<rparr>)))
      | _ \<Rightarrow> (alloc, Inl NotInspected))"

text \<open>The loop of \<open>Discover\<close>; the state is the allocator, the manager and the calls made so far.\<close>

type_synonym 'd discovery = "PortAllocator option \<times> 'd Manager \<times> handler_call list"

definition discover_one ::
  "(string \<Rightarrow> bool) \<Rightarrow> (string \<Rightarrow> bool) \<Rightarrow> 'd discovery \<Rightarrow> string \<Rightarrow> 'd discovery" where
  "discover_one uri_ok cron_ok st cid =
     (case st of (alloc, m, calls) \<Rightarrow>
      case containerToTargetInfo uri_ok cron_ok m alloc cid of
        (alloc', Inl _) \<Rightarrow> (alloc', m, calls)
      | (alloc', Inr info) \<Rightarrow> (alloc', fst (JoinNetworks (elems (NetworkIDs info)) m), calls @ [HRegister info]))"

text \<open>\<open>listed\<close> is the answer of \<open>ContainerList\<close> for the label filter; the result is \<open>None\<close> on its error.\<close>

definition Discover ::
  "(string \<Rightarrow> bool) \<Rightarrow> (string \<Rightarrow> bool) \<Rightarrow> string list option \<Rightarrow> PortAllocator option \<Rightarrow> 'd Manager
     \<Rightarrow> 'd discovery option" where
  "Discover uri_ok cron_ok listed alloc m =
     (case listed of None \<Rightarrow> None | Some cids \<Rightarrow> Some (foldl (discover_one uri_ok cron_ok) (alloc, m, []) cids))"

subsection \<open>Swarm services\<close>

definition serviceToTargetInfo ::
  "(string \<Rightarrow> bool) \<Rightarrow> (string \<Rightarrow> bool) \<Rightarrow> PortAllocator option \<Rightarrow> Service
     \<Rightarrow> PortAllocator option \<times> (target_error + TargetInfo)" where
  "serviceToTargetInfo uri_ok cron_ok alloc svc =
     (let labels = svc_Labels svc;
          scaleStr = trim_space (label_value labels ''scale'');
          hasPorts = labels (lbl ''ports'') \<noteq> None;
          hs = label_hosts labels ''traefik-hosts'';
          ths = label_hosts labels ''traefik-tcp-hosts'';
          ports = (if hasPorts then ParsePortMappings (label_value labels ''ports'') else None);
          udp = label_udp_ports labels in
      if scaleStr = '''' then (alloc, Inl MissingScale)
      else case atoi scaleStr of
        None \<Rightarrow> (alloc, Inl InvalidScale)
      | Some scale \<Rightarrow>
          if scale < 1 then (alloc, Inl InvalidScale)
          else if \<not> hasPorts \<and> label_value labels ''udp-ports'' = '''' \<and> hs = [] \<and> ths = []
          then (alloc, Inl MissingPorts)
          else if hasPorts \<and> elems ports = [] then (alloc, Inl NoValidPorts)
          else
            (case alloc_hosts alloc ports udp hs ths of (alloc', ports', hosts, thosts) \<Rightarrow>
              (alloc', Inr (zero_info
                 \<lparr>ContainerID := svc_ID svc,
                  ContainerName := svc_Name svc,
                  Ports := ports',
                  UDPPorts := udp,
                  NetworkIDs := appended (filter (\<lambda>n. n \<noteq> '''') (map vip_NetworkID (svc_VirtualIPs svc))),
                  AllowList := label_ip_list labels ''allow-list'',
                  BlockList := label_ip_list labels ''block-list'',
                  IdleTimeout := ParseIdleTimeoutLabel (label_value labels ''idle-timeout-secs''),
                  StartTimeout := ParseStartTimeoutLabel (label_value labels ''start-timeout-secs''),
                  Running := (case svc_RunningTasks svc of None \<Rightarrow> False | Some n \<Rightarrow> n > 0),
                  WebhookURL := label_webhook uri_ok labels,
                  Dependants := label_dependants labels,
                  CronStart := parseCronLabel cron_ok (label_value labels ''cron-start''),
                  CronStop := parseCronLabel cron_ok (label_value labels ''cron-stop''),
                  HTTPHealthCheck := ParseHTTPHealthCheckLabel uri_ok (label_value labels ''http-healthcheck''),
                  HasHealthCheck := False,
                  DesiredReplicas := scale,
                  TraefikHosts := hosts,
                  TraefikTCPHosts := thosts,
                  ALPNProtocols := ParseALPNProtocols [label_value labels ''alpn-protocols''],
                  MinTLSVersion := ParseMinTLSVersion (label_value labels ''min-version'')\<rparr>))))"

definition add_service :: "TargetInfo \<Rightarrow> 'd Manager \<Rightarrow> 'd Manager" where
  "add_service info m =
     fst (JoinNetworks (elems (NetworkIDs info)) (registerSwarmService (ContainerID info) (DesiredReplicas info) m))"

definition discover_service ::
  "(string \<Rightarrow> bool) \<Rightarrow> (string \<Rightarrow> bool) \<Rightarrow> 'd discovery \<Rightarrow> Service \<Rightarrow> 'd discovery" where
  "discover_service uri_ok cron_ok st svc =
     (case st of (alloc, m, calls) \<Rightarrow>
      case serviceToTargetInfo uri_ok cron_ok alloc svc of
        (alloc', Inl _) \<Rightarrow> (alloc', m, calls)
      | (alloc', Inr info) \<Rightarrow> (alloc', add_service info m, calls @ [HRegister info]))"

text \<open>\<open>active\<close> is \<open>Info\<close>'s swarm state (or its error), \<open>listed\<close> the answer of \<open>ServiceList\<close>.\<close>

definition DiscoverServices ::
  "(string \<Rightarrow> bool) \<Rightarrow> (string \<Rightarrow> bool) \<Rightarrow> bool option \<Rightarrow> Service list option \<Rightarrow> PortAllocator option \<Rightarrow> 'd Manager
     \<Rightarrow> 'd discovery option" where
  "DiscoverServices uri_ok cron_ok active listed alloc m =
     (case active of None \<Rightarrow> None
      | Some False \<Rightarrow> Some (alloc, m, [])
      | Some True \<Rightarrow>
          (case listed of None \<Rightarrow> None
           | Some svcs \<Rightarrow> Some (foldl (discover_service uri_ok cron_ok) (alloc, m, []) svcs)))"

subsection \<open>Events\<close>

record event_message =
  ev_Action :: string
  ev_ActorID :: string
  ev_Attributes :: "string \<Rightarrow> string option"

definition attr :: "event_message \<Rightarrow> string \<Rightarrow> string" where
  "attr msg k = (case ev_Attributes msg k of None \<Rightarrow> '''' | Some v \<Rightarrow> v)"

definition handleServiceEvent ::
  "(string \<Rightarrow> bool) \<Rightarrow> (string \<Rightarrow> bool) \<Rightarrow> PortAllocator option \<times> 'd Manager \<Rightarrow> event_message \<Rightarrow> 'd discovery" where
  "handleServiceEvent uri_ok cron_ok am msg =
     (case am of (alloc, m) \<Rightarrow>
      let sid = ev_ActorID msg in
      if ev_Action msg = ''create'' then
        (if attr msg (lbl ''enabled'') \<noteq> ''true'' then (alloc, m, [])
         else case service m sid of
           None \<Rightarrow> (alloc, m, [])
         | Some svc \<Rightarrow>
             (case serviceToTargetInfo uri_ok cron_ok alloc svc of
                (alloc', Inl _) \<Rightarrow> (alloc', m, [])
              | (alloc', Inr info) \<Rightarrow> (alloc', add_service info m, [HRegister info])))
      else if ev_Action msg = ''update'' then
        (if isSwarmService m sid = None then (alloc, m, [])
         else case service m sid of
           None \<Rightarrow> (alloc, m, [])
         | Some svc \<Rightarrow>
             let desired = (case svc_Replicated svc of Some (Some n) \<Rightarrow> n | _ \<Rightarrow> 0);
                 tasks = (case svc_RunningTasks svc of Some n \<Rightarrow> n | None \<Rightarrow> 0)
             in (alloc, m, if desired = 0 \<and> tasks = 0 then [HStopped sid] else []))
      else if ev_Action msg = ''remove'' then
        (if isSwarmService m sid = None then (alloc, m, [])
         else (alloc, unregisterSwarmService sid m, [HRemove sid]))
      else (alloc, m, []))"

definition event_ports_valid :: "event_message \<Rightarrow> bool" where
  "event_ports_valid msg \<longleftrightarrow>
     ev_Attributes msg (lbl ''ports'') = None
     \<or> attr msg (lbl ''traefik-hosts'') \<noteq> '''' \<or> attr msg (lbl ''traefik-tcp-hosts'') \<noteq> ''''
     \<or> list_ex (\<lambda>token. parse_mapping_token token \<noteq> None) (split_on (CHR '','') (attr msg (lbl ''ports'')))"

text \<open>The branch of a created or started container without the label.\<close>

definition unlabelled_started :: "'d Manager \<Rightarrow> event_message \<Rightarrow> 'd Manager \<times> handler_call list" where
  "unlabelled_started m msg =
     (let rid = getConfigOnlyID m (attr msg ''name'') in
      if rid \<noteq> '''' \<and> ev_Action msg = ''start''
      then ((case inspect m (ev_ActorID msg) of Found r \<Rightarrow> fst (JoinNetworks (network_ids r) m) | _ \<Rightarrow> m), [HStarted rid])
      else (m, []))"

definition handleContainerEvent ::
  "(string \<Rightarrow> bool) \<Rightarrow> (string \<Rightarrow> bool) \<Rightarrow> PortAllocator option \<times> 'd Manager \<Rightarrow> event_message \<Rightarrow> 'd discovery" where
  "handleContainerEvent uri_ok cron_ok am msg =
     (case am of (alloc, m) \<Rightarrow>
      let name = attr msg ''name''; cid = ev_ActorID msg; rid = getConfigOnlyID m name in
      if ev_Action msg = ''create'' \<or> ev_Action msg = ''start'' then
        (if attr msg (lbl ''enabled'') \<noteq> ''true'' then (alloc, unlabelled_started m msg)
         else if ev_Attributes msg (lbl ''ports'') = None \<and> attr msg (lbl ''udp-ports'') = ''''
                 \<and> attr msg (lbl ''traefik-hosts'') = '''' \<and> attr msg (lbl ''traefik-tcp-hosts'') = ''''
                 \<and> attr msg (lbl ''cron-start'') = '''' then (alloc, m, [])
         else if \<not> event_ports_valid msg then (alloc, m, [])
         else case containerToTargetInfo uri_ok cron_ok m alloc cid of
           (alloc', Inl _) \<Rightarrow> (alloc', m, [])
         | (alloc', Inr info) \<Rightarrow>
             (alloc', fst (JoinNetworks (elems (NetworkIDs info)) m),
              HRegister info # (if ev_Action msg = ''start'' then [HStarted cid] else [])))
      else if ev_Action msg = ''die'' then (alloc, m, [HStopped (if rid \<noteq> '''' then rid else cid)])
      else if ev_Action msg = ''destroy'' then (alloc, m, [if rid \<noteq> '''' then HRemoved rid else HRemove cid])
      else (alloc, m, []))"

text \<open>
  The two watch loops: what the event stream delivers, message or error, with the pauses they make
  before reconnecting.
\<close>

datatype stream_item = Message event_message | StreamError

definition maxBackoff :: duration where "maxBackoff = 30 * second"

definition next_backoff :: "duration \<Rightarrow> duration" where
  "next_backoff b = (let d = wrap64 (b * 2) in if d > maxBackoff then maxBackoff else d)"

fun watch_loop ::
  "(PortAllocator option \<times> 'd Manager \<Rightarrow> event_message \<Rightarrow> 'd discovery) \<Rightarrow> duration \<Rightarrow> 'd discovery \<Rightarrow> stream_item list
     \<Rightarrow> 'd discovery \<times> duration list" where
  "watch_loop handle backoff st [] = (st, [])"
| "watch_loop handle backoff st (Message msg # items) =
     (case st of (alloc, m, calls) \<Rightarrow>
      case handle (alloc, m) msg of (alloc', m', calls') \<Rightarrow>
        watch_loop handle second (alloc', m', calls @ calls') items)"
| "watch_loop handle backoff st (StreamError # items) =
     (case watch_loop handle (next_backoff backoff) st items of (st', sleeps) \<Rightarrow> (st', backoff # sleeps))"

definition WatchEvents ::
  "(string \<Rightarrow> bool) \<Rightarrow> (string \<Rightarrow> bool) \<Rightarrow> PortAllocator option \<Rightarrow> 'd Manager \<Rightarrow> stream_item list
     \<Rightarrow> 'd discovery \<times> duration list" where
  "WatchEvents uri_ok cron_ok alloc m items = watch_loop (handleContainerEvent uri_ok cron_ok) second (alloc, m, []) items"

text \<open>
  The loop over service events returns when the swarm is found inactive before a subscription;
  \<open>items\<close> is what is delivered until then.
\<close>

definition WatchServiceEvents ::
  "(string \<Rightarrow> bool) \<Rightarrow> (string \<Rightarrow> bool) \<Rightarrow> bool option \<Rightarrow> PortAllocator option \<Rightarrow> 'd Manager \<Rightarrow> stream_item list
     \<Rightarrow> 'd discovery \<times> duration list" where
  "WatchServiceEvents uri_ok cron_ok active alloc m items =
     (if active \<noteq> Some True then ((alloc, m, []), [])
      else watch_loop (handleServiceEvent uri_ok cron_ok) second (alloc, m, []) items)"

subsection \<open>Memory statistics\<close>

record ContainerMemoryStat =
  cms_Name :: string
  cms_MemoryUsed :: int
  cms_MemoryLimit :: int
  cms_Running :: bool

text \<open>What the API says of one container: its configured limit (stopped), or usage, page cache and limit.\<close>

datatype memory_answer = StoppedLimit "int option" | RunningStats "(nat \<times> nat option \<times> nat) option"

definition memory_of :: "int \<Rightarrow> string \<Rightarrow> string list \<Rightarrow> memory_answer \<Rightarrow> ContainerMemoryStat option" where
  "memory_of memTotal cid names ans =
     (let name = (case names of [] \<Rightarrow> cid | n # _ \<Rightarrow> trim_prefix n ''/'') in
      case ans of
        StoppedLimit None \<Rightarrow> None
      | StoppedLimit (Some limit) \<Rightarrow>
          Some \<lparr>cms_Name = name, cms_MemoryUsed = 0, cms_MemoryLimit = (if limit = 0 then memTotal else limit), cms_Running = False\<rparr>
      | RunningStats None \<Rightarrow> None
      | RunningStats (Some (usage, cache, limit)) \<Rightarrow>
          let memUsage = (case cache of Some c \<Rightarrow> if c < usage then usage - c else usage | None \<Rightarrow> usage)
          in Some \<lparr>cms_Name = name, cms_MemoryUsed = wrap64 (int memUsage), cms_MemoryLimit = wrap64 (int limit), cms_Running = True\<rparr>)"

text \<open>The goroutines append in some order; \<open>items\<close> stands for that order.\<close>

definition ContainerMemoryStats ::
  "int option \<Rightarrow> (string \<times> string list \<times> memory_answer) list option \<Rightarrow> (int \<times> int \<times> ContainerMemoryStat list) option" where
  "ContainerMemoryStats memTotal items =
     (case (memTotal, items) of
        (Some memTotal, Some cs) \<Rightarrow>
          let per = List.map_filter (\<lambda>(cid, names, ans). memory_of memTotal cid names ans) cs
          in Some (foldl (\<lambda>used st. wrap64 (used + cms_MemoryUsed st)) 0 per, memTotal, per)
      | _ \<Rightarrow> None)"

subsection \<open>Joining networks leaves the registrations alone\<close>

definition same_registrations :: "'d Manager \<Rightarrow> 'd Manager \<Rightarrow> bool" where
  "same_registrations m m' \<longleftrightarrow> cli m' = cli m \<and> selfID m' = selfID m \<and> swarmServices m' = swarmServices m
     \<and> configOnlyIDs m' = configOnlyIDs m \<and> composeDir m' = composeDir m"

lemma same_registrations_refl [simp]: "same_registrations m m"
  by (simp add: same_registrations_def)

lemma same_registrations_trans:
  "same_registrations m m1 \<Longrightarrow> same_registrations m1 m2 \<Longrightarrow> same_registrations m m2"
  by (simp add: same_registrations_def)

lemma same_registrationsD:
  assumes "same_registrations m m'"
  shows "cli m' = cli m" "swarmServices m' = swarmServices m" "configOnlyIDs m' = configOnlyIDs m"
  using assms by (simp_all add: same_registrations_def)

lemma join_one_same: "same_registrations (fst mj) (fst (join_one mj n))"
  by (auto simp: join_one_def on_daemon_def same_registrations_def split: prod.splits option.splits bool.splits)

lemma JoinNetworks_same [simp]: "same_registrations m (fst (JoinNetworks ns m))"
proof -
  have "same_registrations (fst mj) (fst (foldl join_one mj ns))" for mj
  proof (induction ns arbitrary: mj)
    case (Cons n ns)
    then show ?case using same_registrations_trans [OF join_one_same Cons.IH [of "join_one mj n"]] by simp
  qed simp
  from this [of "(m, [])"] show ?thesis by (simp add: JoinNetworks_def)
qed

lemma docker_ok_same_registrations: "same_registrations m m' \<Longrightarrow> docker_ok m \<Longrightarrow> docker_ok m'"
  by (simp add: docker_ok_def swarm_ok_def same_registrations_def)

lemma unlabelled_started_same: "same_registrations m (fst (unlabelled_started m msg))"
  by (simp add: unlabelled_started_def Let_def split: api_result.splits)

lemma handleContainerEvent_same:
  "handleContainerEvent uri_ok cron_ok (alloc, m) msg = (alloc', m', calls) \<Longrightarrow> same_registrations m m'"
  using unlabelled_started_same [of m msg]
  by (auto simp: handleContainerEvent_def Let_def split: if_splits prod.splits sum.splits)

subsection \<open>What a conversion keeps\<close>

lemma containerToTargetInfo_id:
  "containerToTargetInfo uri_ok cron_ok m alloc cid = (alloc', Inr info) \<Longrightarrow> ContainerID info = cid"
  by (auto simp: containerToTargetInfo_def Let_def split: api_result.splits if_splits prod.splits)

lemma containerToTargetInfo_error:
  "containerToTargetInfo uri_ok cron_ok m alloc cid = (alloc', Inl e) \<Longrightarrow> alloc' = alloc"
  by (auto simp: containerToTargetInfo_def Let_def split: api_result.splits if_splits prod.splits)

lemma serviceToTargetInfo_result:
  assumes "serviceToTargetInfo uri_ok cron_ok alloc svc = (alloc', Inr info)"
  shows "ContainerID info = svc_ID svc" "1 \<le> DesiredReplicas info" "in_int64 (DesiredReplicas info)"
  using assms
  by (auto simp: serviceToTargetInfo_def Let_def dest: atoi_in_int64 split: option.splits if_splits prod.splits)

subsection \<open>Reconnecting\<close>

lemma next_backoff_in_range: "second \<le> b \<Longrightarrow> b \<le> maxBackoff \<Longrightarrow> next_backoff b = min (2 * b) maxBackoff"
  by (simp add: next_backoff_def maxBackoff_def Let_def wrap64_def min_def)

lemma watch_loop_pauses:
  "second \<le> b \<Longrightarrow> b \<le> maxBackoff \<Longrightarrow> p \<in> set (snd (watch_loop handle b st items)) \<Longrightarrow> second \<le> p \<and> p \<le> maxBackoff"
proof (induction handle b st items rule: watch_loop.induct)
  case (2 handle backoff st msg items)
  then show ?case by (auto simp: maxBackoff_def split: prod.splits)
next
  case (3 handle backoff st items)
  have "second \<le> next_backoff backoff" "next_backoff backoff \<le> maxBackoff"
    using 3 by (simp_all add: next_backoff_in_range maxBackoff_def)
  with 3 show ?case by (auto split: prod.splits)
qed simp

lemma min_scaled:
  fixes k b x :: int
  assumes "1 \<le> k" "0 \<le> b" "0 \<le> x"
  shows "min (k * min x b) b = min (k * x) b"
proof -
  have "b \<le> k * b" "x \<le> k * x" using assms mult_right_mono [of 1 k] by fastforce+
  then show ?thesis by (auto simp: min_def)
qed

lemma watch_loop_errors:
  "second \<le> b \<Longrightarrow> b \<le> maxBackoff \<Longrightarrow>
   snd (watch_loop handle b st (replicate n StreamError)) = map (\<lambda>i. min (2 ^ i * b) maxBackoff) [0..<n]"
proof (induction n arbitrary: b)
  case (Suc n)
  have b': "second \<le> next_backoff b" "next_backoff b \<le> maxBackoff"
    using Suc.prems by (simp_all add: next_backoff_in_range maxBackoff_def)
  have step: "min (2 ^ i * next_backoff b) maxBackoff = min (2 ^ Suc i * b) maxBackoff" for i
    using Suc.prems min_scaled [of "2 ^ i" maxBackoff "2 * b"]
    by (simp add: next_backoff_in_range maxBackoff_def mult.assoc mult.left_commute)
  have "map (\<lambda>i. min (2 ^ i * b) maxBackoff) [0..<Suc n]
      = b # map (\<lambda>i. min (2 ^ Suc i * b) maxBackoff) [0..<n]"
    using Suc.prems by (simp only: upt_conv_Cons [OF zero_less_Suc] map_Suc_upt [symmetric] list.map map_map comp_def)
      (simp add: min_def)
  with Suc.IH [OF b'] show ?case by (simp add: step case_prod_unfold)
qed simp

subsection \<open>Swarm targets and the services the manager knows\<close>

definition known_services :: "'d Manager \<Rightarrow> string set" where
  "known_services m = dom (map_of (swarmServices m))"

definition serve_all :: "(bool \<Rightarrow> int \<Rightarrow> bool) \<Rightarrow> instant \<Rightarrow> ProxyServer \<Rightarrow> handler_call list \<Rightarrow> ProxyServer" where
  "serve_all listen now s calls = foldl (\<lambda>s c. fst (server_handle listen now s c)) s calls"

lemma serve_all_simps [simp]:
  "serve_all listen now s [] = s"
  "serve_all listen now s (c # cs) = serve_all listen now (fst (server_handle listen now s c)) cs"
  "serve_all listen now s (cs @ ds) = serve_all listen now (serve_all listen now s cs) ds"
  by (simp_all add: serve_all_def)

lemma serve_all_ok: "srv_ok s \<Longrightarrow> srv_ok (serve_all listen now s calls)"
  unfolding serve_all_def by (rule srv.handle_all_ok)

text \<open>Going from one manager to another with these calls, no served target is left unmanaged.\<close>

definition tracks :: "'d Manager \<Rightarrow> handler_call list \<Rightarrow> 'd Manager \<Rightarrow> bool" where
  "tracks m calls m' \<longleftrightarrow> (docker_ok m \<longrightarrow> docker_ok m')
     \<and> (\<forall>listen now s. srv_ok s \<longrightarrow> server_ids s \<subseteq> known_services m
            \<longrightarrow> server_ids (serve_all listen now s calls) \<subseteq> known_services m')"

lemma tracks_refl [simp]: "tracks m [] m"
  by (simp add: tracks_def)

lemma tracks_trans: "tracks m cs m1 \<Longrightarrow> tracks m1 ds m2 \<Longrightarrow> tracks m (cs @ ds) m2"
  by (simp add: tracks_def serve_all_ok)

lemma tracks_add:
  assumes "1 \<le> DesiredReplicas info" "in_int64 (DesiredReplicas info)"
  shows "tracks m [HRegister info] (add_service info m)"
proof -
  let ?m = "registerSwarmService (ContainerID info) (DesiredReplicas info) m"
  have j: "same_registrations ?m (add_service info m)" by (simp add: add_service_def)
  have "docker_ok m \<Longrightarrow> docker_ok ?m"
    using assms by (simp add: docker_ok_def swarm_ok_def registerSwarmService_def update_conv')
  moreover have "known_services (add_service info m) = insert (ContainerID info) (known_services m)"
    using same_registrationsD(2) [OF j] by (simp add: known_services_def registerSwarmService_def update_conv')
  ultimately show ?thesis
    using docker_ok_same_registrations [OF j] srv.register_ids by (fastforce simp: tracks_def)
qed

lemma tracks_remove: "tracks m [HRemove c] (unregisterSwarmService c m)"
proof -
  have "docker_ok m \<Longrightarrow> docker_ok (unregisterSwarmService c m)"
    by (simp add: docker_ok_def swarm_ok_def unregisterSwarmService_def delete_conv')
  moreover have "known_services (unregisterSwarmService c m) = known_services m - {c}"
    by (simp add: known_services_def unregisterSwarmService_def delete_conv')
  ultimately show ?thesis using srv.remove_ids by (fastforce simp: tracks_def)
qed

lemma tracks_stopped: "tracks m [HStopped c] m"
  using srv.event_ids by (simp add: tracks_def)

lemma tracks_conversion:
  "serviceToTargetInfo uri_ok cron_ok alloc svc = (alloc', Inr info) \<Longrightarrow> tracks m [HRegister info] (add_service info m)"
  by (intro tracks_add serviceToTargetInfo_result(2,3))

lemma handleServiceEvent_tracks:
  assumes "handleServiceEvent uri_ok cron_ok (alloc, m) msg = (alloc', m', calls)"
  shows "tracks m calls m'"
  using assms tracks_conversion tracks_remove tracks_stopped
  by (auto simp: handleServiceEvent_def Let_def split: if_splits option.splits prod.splits sum.splits)

lemma discover_service_tracks:
  assumes "discover_service uri_ok cron_ok (alloc, m, calls) svc = (alloc', m', calls')" and "tracks m0 calls m"
  shows "tracks m0 calls' m'"
  using assms tracks_trans [OF assms(2) tracks_conversion]
  by (auto simp: discover_service_def split: prod.splits sum.splits)

lemma discover_services_track:
  assumes "foldl (discover_service uri_ok cron_ok) (alloc, m, calls) svcs = (alloc', m', calls')" and "tracks m0 calls m"
  shows "tracks m0 calls' m'"
  using assms
proof (induction svcs arbitrary: alloc m calls)
  case (Cons svc svcs)
  obtain a1 m1 c1 where one: "discover_service uri_ok cron_ok (alloc, m, calls) svc = (a1, m1, c1)"
    by (metis prod.exhaust)
  from Cons.IH [OF _ discover_service_tracks [OF one Cons.prems(2)]] Cons.prems(1) one show ?case by simp
qed simp

lemma watch_loop_tracks:
  assumes "\<And>alloc m msg alloc' m' calls. handle (alloc, m) msg = (alloc', m', calls) \<Longrightarrow> tracks m calls m'"
    and "fst (watch_loop handle b (alloc, m, calls) items) = (alloc', m', calls')" and "tracks m0 calls m"
  shows "tracks m0 calls' m'"
  using assms(2,3)
proof (induction items arbitrary: b alloc m calls)
  case (Cons item items)
  show ?case
  proof (cases item)
    case (Message msg)
    obtain a1 m1 c1 where one: "handle (alloc, m) msg = (a1, m1, c1)" by (metis prod.exhaust)
    from Cons.IH [OF _ tracks_trans [OF Cons.prems(2) assms(1) [OF one]]] Cons.prems(1) Message one
    show ?thesis by simp
  next
    case StreamError
    with Cons show ?thesis by (simp add: case_prod_unfold)
  qed
qed simp

subsection \<open>Properties\<close>

text \<open>A swarm service and a container with labels, for the witnesses.\<close>

definition demo_service :: Service where
  "demo_service = \<lparr>svc_ID = ''s1'', svc_Name = ''web'',
     svc_Labels = [lbl ''scale'' \<mapsto> show_int 2, lbl ''udp-ports'' \<mapsto> ''53:53''],
     svc_Replicated = Some (Some 0), svc_VirtualIPs = [], svc_RunningTasks = None\<rparr>"

definition cron_labels :: "string \<Rightarrow> string option" where
  "cron_labels = [lbl ''enabled'' \<mapsto> ''true'', lbl ''cron-start'' \<mapsto> ''@daily'']"

definition cron_manager :: "demo_daemon Manager" where
  "cron_manager = NewManager
     (demo_docker\<lparr>ContainerInspect := (\<lambda>d c. Found ((demo_container True)\<lparr>ci_Labels := cron_labels\<rparr>))\<rparr>) (Map.empty, 0) ''''"

definition demo_event :: "string \<Rightarrow> string \<Rightarrow> (string \<Rightarrow> string option) \<Rightarrow> event_message" where
  "demo_event action actor attrs = \<lparr>ev_Action = action, ev_ActorID = actor, ev_Attributes = attrs\<rparr>"

lemma lbl_eq [simp]: "lbl a = lbl b \<longleftrightarrow> a = b"
  by (simp add: lbl_def)

lemma demo_label [simp]:
  "label_value (svc_Labels demo_service) k = (if k = ''scale'' then show_int 2 else if k = ''udp-ports'' then ''53:53'' else '''')"
  "svc_Labels demo_service (lbl ''ports'') = None"
  "label_value cron_labels k = (if k = ''enabled'' then ''true'' else if k = ''cron-start'' then ''@daily'' else '''')"
  "cron_labels (lbl ''ports'') = None"
  by (simp_all add: label_value_def demo_service_def cron_labels_def)

lemma demo_service_converts:
  "\<exists>info. serviceToTargetInfo (\<lambda>_. True) (\<lambda>_. True) None demo_service = (None, Inr info)"
proof -
  have "atoi (show_int 2) = Some 2" by (rule atoi_show_int) (simp add: in_int64_def)
  moreover have "trim_space (show_int 2) = show_int 2" by (rule trim_space_all_plain) (rule show_int_plain)
  moreover have "atoi '''' = None" by (simp add: atoi_def)
  ultimately have "atoi (trim_space (show_int 2)) = Some 2" "trim_space (show_int 2) \<noteq> ''''" by auto
  then show ?thesis by (simp add: serviceToTargetInfo_def label_hosts_def alloc_hosts_def Let_def)
qed

lemma cron_container_converts:
  "\<exists>info. containerToTargetInfo (\<lambda>_. True) (\<lambda>_. True) cron_manager None ''c1'' = (None, Inr info)"
proof -
  have "inspect cron_manager ''c1'' = Found ((demo_container True)\<lparr>ci_Labels := cron_labels\<rparr>)"
    by (simp add: cron_manager_def NewManager_def)
  moreover have "trim_space ''@daily'' = ''@daily''" by (rule trim_space_all_plain) (simp add: plain_char_def)
  ultimately show ?thesis by (simp add: containerToTargetInfo_def label_hosts_def alloc_hosts_def Let_def)
qed



text \<open>
  C23: events of containers that belong to config-only targets never add or drop a target: over any
  stream of such events, with reconnects in between, the server keeps exactly its targets.
\<close>

theorem config_only_events_keep_targets:
  assumes "srv_ok s"
    and "\<And>msg. Message msg \<in> set items \<Longrightarrow>
           getConfigOnlyID m (attr msg ''name'') \<noteq> '''' \<and> attr msg (lbl ''enabled'') \<noteq> ''true''"
  shows "server_ids (serve_all listen now s (snd (snd (fst (WatchEvents uri_ok cron_ok alloc m items))))) = server_ids s"
proof -
  have one: "same_registrations m m1 \<and> registered calls = [] \<and> (\<forall>c. HRemove c \<notin> set calls)"
    if "Message msg \<in> set items" "handleContainerEvent uri_ok cron_ok (alloc, m0) msg = (alloc1, m1, calls)"
      "same_registrations m m0" for msg alloc m0 alloc1 m1 calls
  proof -
    have "getConfigOnlyID m0 = getConfigOnlyID m"
      using same_registrationsD(3) [OF that(3)] by (simp add: getConfigOnlyID_def fun_eq_iff)
    with assms(2) [OF that(1)] that(2) have "registered calls = [] \<and> (\<forall>c. HRemove c \<notin> set calls)"
      by (auto simp: handleContainerEvent_def unlabelled_started_def Let_def split: if_splits)
    with same_registrations_trans [OF that(3) handleContainerEvent_same [OF that(2)]] show ?thesis by blast
  qed
  have "registered calls' = [] \<and> (\<forall>c. HRemove c \<notin> set calls')"
    if "fst (watch_loop (handleContainerEvent uri_ok cron_ok) b (alloc, m0, calls) its) = (alloc', m', calls')"
      "set its \<subseteq> set items" "same_registrations m m0" "registered calls = [] \<and> (\<forall>c. HRemove c \<notin> set calls)"
    for b alloc m0 calls its alloc' m' calls'
    using that
  proof (induction its arbitrary: b alloc m0 calls)
    case (Cons it its)
    show ?case
    proof (cases it)
      case (Message msg)
      obtain a1 m1 c1 where e: "handleContainerEvent uri_ok cron_ok (alloc, m0) msg = (a1, m1, c1)"
        by (metis prod.exhaust)
      have "Message msg \<in> set items" using Cons.prems(2) Message by simp
      from one [OF this e Cons.prems(3)] Cons.IH [of second a1 m1 "calls @ c1"] Cons.prems Message e show ?thesis
        by simp
    next
      case StreamError with Cons show ?thesis by (simp add: case_prod_unfold)
    qed
  qed simp
  from this [of _ alloc m "[]" items] have "registered (snd (snd (fst (WatchEvents uri_ok cron_ok alloc m items)))) = []
      \<and> (\<forall>c. HRemove c \<notin> set (snd (snd (fst (WatchEvents uri_ok cron_ok alloc m items)))))"
    by (simp add: WatchEvents_def prod_eq_iff)
  with assms(1) show ?thesis unfolding serve_all_def by (intro srv.ids_unchanged) blast+
qed

theorem config_only_events_keep_targets_witness:
  "server_ids (serve_all (\<lambda>_ _. True) 0 demo_server (snd (snd (fst (WatchEvents (\<lambda>_. True) (\<lambda>_. True) None
      (SetConfigOnlyNames [(''web'', ''c1'')] demo_manager)
      [Message (demo_event ''die'' ''9f3'' [''name'' \<mapsto> ''web'']), StreamError,
       Message (demo_event ''destroy'' ''9f3'' [''name'' \<mapsto> ''web''])]))))) = server_ids demo_server"
  by (rule config_only_events_keep_targets [OF servesD(1) [OF demo_serves]])
    (auto simp: demo_event_def attr_def getConfigOnlyID_def SetConfigOnlyNames_def lbl_def)

text \<open>
  C34: the checks the event handler makes before it inspects a container never decide anything the
  conversion would not: with attributes that carry the container's labels, a labelled container is
  registered on create and start exactly when its conversion succeeds, its networks are joined first,
  and a rejected one changes nothing.
\<close>

theorem event_prechecks_agree_with_conversion:
  assumes "ev_Action msg \<in> {''create'', ''start''}" and "attr msg (lbl ''enabled'') = ''true''"
    and "\<And>r k. inspect m (ev_ActorID msg) = Found r \<Longrightarrow> ev_Attributes msg (lbl k) = ci_Labels r (lbl k)"
  shows "handleContainerEvent uri_ok cron_ok (alloc, m) msg =
    (case containerToTargetInfo uri_ok cron_ok m alloc (ev_ActorID msg) of
       (_, Inl _) \<Rightarrow> (alloc, m, [])
     | (alloc', Inr info) \<Rightarrow>
         (alloc', fst (JoinNetworks (elems (NetworkIDs info)) m),
          HRegister info # (if ev_Action msg = ''start'' then [HStarted (ev_ActorID msg)] else [])))"
proof (cases "inspect m (ev_ActorID msg)")
  case (Found r)
  let ?l = "label_value (ci_Labels r)" and ?conv = "containerToTargetInfo uri_ok cron_ok m alloc (ev_ActorID msg)"
  have attrs: "attr msg (lbl k) = ?l k" "ev_Attributes msg (lbl k) = ci_Labels r (lbl k)" for k
    using assms(3) [OF Found] by (simp_all add: attr_def label_value_def)
  have no_label: "?conv = (alloc, Inl MissingPorts)"
    if "ci_Labels r (lbl ''ports'') = None" "?l ''udp-ports'' = ''''" "?l ''traefik-hosts'' = ''''"
      "?l ''traefik-tcp-hosts'' = ''''" "?l ''cron-start'' = ''''"
    using that Found by (simp add: containerToTargetInfo_def label_hosts_def Let_def)
  have no_port: "?conv = (alloc, Inl NoValidPorts)" if "\<not> event_ports_valid msg"
    using that Found
    by (simp add: containerToTargetInfo_def event_ports_valid_def attrs ParsePortMappings_def list_ex_iff
        map_filter_eq_concat Let_def)
  show ?thesis
    using assms(1,2) no_label no_port
    by (auto simp: handleContainerEvent_def attrs Let_def dest: containerToTargetInfo_error split: sum.splits prod.splits)
qed (use assms(1,2) in \<open>auto simp: handleContainerEvent_def containerToTargetInfo_def Let_def split: sum.splits prod.splits\<close>)

theorem event_prechecks_agree_with_conversion_witness:
  "\<exists>a m' info. handleContainerEvent (\<lambda>_. True) (\<lambda>_. True) (None, cron_manager) (demo_event ''start'' ''c1'' cron_labels)
     = (a, m', [HRegister info, HStarted ''c1''])"
proof -
  let ?ev = "demo_event ''start'' ''c1'' cron_labels"
  have ev: "ev_Action ?ev = ''start''" "ev_ActorID ?ev = ''c1''" "ev_Attributes ?ev = cron_labels" "attr ?ev (lbl k) = label_value cron_labels k" for k
    by (simp_all add: demo_event_def attr_def label_value_def)
  have "ev_Attributes ?ev (lbl k) = ci_Labels r (lbl k)" if "inspect cron_manager (ev_ActorID ?ev) = Found r" for r k
    using that by (auto simp: ev cron_manager_def NewManager_def)
  from event_prechecks_agree_with_conversion [OF _ _ this, where m = cron_manager and uri_ok = "\<lambda>_. True" and cron_ok = "\<lambda>_. True" and alloc = None]
    cron_container_converts
  show ?thesis by (auto simp: ev)
qed

text \<open>
  The pause before the event loop reconnects doubles from one second and never passes thirty:
  whatever arrives in between every pause is within these bounds, and the i-th of a run of failures
  is \<open>min (2 ^ i s) 30 s\<close>.
\<close>

theorem reconnect_pauses_bounded:
  "list_all (\<lambda>p. second \<le> p \<and> p \<le> 30 * second) (snd (WatchEvents uri_ok cron_ok alloc m items))
   \<and> snd (WatchEvents uri_ok cron_ok alloc m (replicate n StreamError)) = map (\<lambda>i. min (2 ^ i * second) (30 * second)) [0..<n]"
proof -
  have "second \<le> second" "second \<le> maxBackoff" by (simp_all add: maxBackoff_def)
  note w = watch_loop_pauses [OF this, where handle = "handleContainerEvent uri_ok cron_ok" and st = "(alloc, m, [])"]
    and e = watch_loop_errors [OF this, where handle = "handleContainerEvent uri_ok cron_ok" and st = "(alloc, m, [])"]
  show ?thesis using w [of _ items] e [of n] by (simp add: WatchEvents_def list_all_iff maxBackoff_def)
qed

end
