(* ===== verification/K8s_Backend.thy ===== *)
theory K8s_Backend
  imports Docker_Discovery
begin

text \<open>
  \<open>internal/k8s/backend.go\<close>: the Kubernetes backend, where a target is a Deployment and its running
  state a replica count. The API is a record of functions on a cluster state \<open>'d\<close>; \<open>k8s_laws\<close> states
  what the backend relies on. \<open>NewBackend\<close> only builds the client. The methods that do nothing here
  (networks, swarm, compose, memory statistics) have no definition.
\<close>

subsection \<open>State\<close>

text \<open>The scale subresource by namespace and name; reading or updating it can fail.\<close>

record 'd k8s_api =
  GetScale :: "'d \<Rightarrow> string \<times> string \<Rightarrow> int option"
  UpdateScale :: "'d \<Rightarrow> string \<times> string \<Rightarrow> int \<Rightarrow> 'd \<times> bool"

record 'd Backend =
  be_client :: "'d k8s_api"
  be_cluster :: 'd
  be_namespace :: string
  be_serviceNames :: "(string \<times> string) list"

record Deployment =
  dep_Namespace :: string
  dep_Name :: string
  dep_Annotations :: "string \<Rightarrow> string option"
  dep_ReadyReplicas :: int

definition newBackendWithClient :: "'d k8s_api \<Rightarrow> 'd \<Rightarrow> string \<Rightarrow> 'd Backend" where
  "newBackendWithClient client d namespace =
     \<lparr>be_client = client, be_cluster = d, be_namespace = namespace, be_serviceNames = []\<rparr>"

definition splitID :: "string \<Rightarrow> string \<times> string" where
  "splitID tid = (case split2 (CHR ''/'') tid of [ns, name] \<Rightarrow> (ns, name) | _ \<Rightarrow> (''default'', tid))"

definition targetID :: "Deployment \<Rightarrow> string" where
  "targetID d = dep_Namespace d @ ''/'' @ dep_Name d"

definition k8s_DefaultTargetID :: "'d Backend \<Rightarrow> string \<Rightarrow> string" where
  "k8s_DefaultTargetID b name =
     (let ns = (if be_namespace b = '''' then ''default'' else be_namespace b) in ns @ ''/'' @ name)"

subsection \<open>Scaling\<close>

definition k8s_EnsureRunning :: "'d Backend \<Rightarrow> string \<Rightarrow> 'd Backend \<times> bool" where
  "k8s_EnsureRunning b tid =
     (case GetScale (be_client b) (be_cluster b) (splitID tid) of
        None \<Rightarrow> (b, False)
      | Some replicas \<Rightarrow>
          if replicas > 0 then (b, True)
          else (case UpdateScale (be_client b) (be_cluster b) (splitID tid) 1 of (d, ok) \<Rightarrow> (b\<lparr>be_cluster := d\<rparr>, ok)))"

definition k8s_StopContainer :: "'d Backend \<Rightarrow> string \<Rightarrow> string \<Rightarrow> 'd Backend \<times> bool" where
  "k8s_StopContainer b tid name =
     (case GetScale (be_client b) (be_cluster b) (splitID tid) of
        None \<Rightarrow> (b, False)
      | Some replicas \<Rightarrow>
          if replicas = 0 then (b, True)
          else (case UpdateScale (be_client b) (be_cluster b) (splitID tid) 0 of (d, ok) \<Rightarrow> (b\<lparr>be_cluster := d\<rparr>, ok)))"

definition k8s_GetUpstreamHost :: "'d Backend \<Rightarrow> string \<Rightarrow> string" where
  "k8s_GetUpstreamHost b tid =
     (case splitID tid of (ns, name) \<Rightarrow>
      let svcName = (case map_of (be_serviceNames b) tid of
                       Some n \<Rightarrow> if n = '''' then name else n
                     | None \<Rightarrow> name)
      in svcName @ ''.'' @ ns @ ''.svc.cluster.local'')"

subsection \<open>Deployments as targets\<close>

definition parseCronAnnotation :: "(string \<Rightarrow> bool) \<Rightarrow> string \<Rightarrow> string" where
  "parseCronAnnotation cron_ok raw =
     (let v = trim_space raw in if v = '''' then '''' else if \<not> cron_ok v then '''' else v)"

text \<open>The allocation of one host annotation, skipped when it is absent.\<close>

definition alloc_annotation :: "PortAllocator \<Rightarrow> string \<Rightarrow> PortAllocator \<times> string slice \<times> PortMapping list" where
  "alloc_annotation a str =
     (if str = '''' then (a, None, [])
      else case AllocatePortMappings a (ParseTraefikHostSpecs str) of (a', hosts, ports) \<Rightarrow> (a', Some hosts, ports))"

definition k8s_alloc ::
  "PortAllocator option \<Rightarrow> PortMapping slice \<Rightarrow> PortMapping slice \<Rightarrow> string \<Rightarrow> string
     \<Rightarrow> PortAllocator option \<times> PortMapping slice \<times> string slice \<times> string slice" where
  "k8s_alloc alloc ports udp hostsStr tcpHostsStr =
     (case alloc of None \<Rightarrow> (None, ports, None, None)
      | Some a \<Rightarrow>
          let a1 = ClaimPorts (ClaimPorts a (elems ports)) (elems udp);
              (a2, hosts, hp) = alloc_annotation a1 hostsStr;
              (a3, thosts, tp) = alloc_annotation a2 tcpHostsStr
          in (Some a3, append_slice (append_slice ports hp) tp, hosts, thosts))"

definition deploymentToTargetInfo ::
  "(string \<Rightarrow> bool) \<Rightarrow> (string \<Rightarrow> bool) \<Rightarrow> PortAllocator option \<Rightarrow> Deployment
     \<Rightarrow> PortAllocator option \<times> (target_error + TargetInfo)" where
  "deploymentToTargetInfo uri_ok cron_ok alloc d =
     (let ann = label_value (dep_Annotations d);
          portsStr = ann ''ports'';
          udpPortsStr = ann ''udp-ports'';
          hostsStr = trim_space (ann ''traefik-hosts'');
          tcpHostsStr = trim_space (ann ''traefik-tcp-hosts'');
          ports = (if portsStr \<noteq> '''' then ParsePortMappings portsStr else None);
          udp = label_udp_ports (dep_Annotations d) in
      if portsStr = '''' \<and> udpPortsStr = '''' \<and> hostsStr = '''' \<and> tcpHostsStr = '''' then (alloc, Inl MissingPorts)
      else if portsStr \<noteq> '''' \<and> elems ports = [] then (alloc, Inl NoValidPorts)
      else
        (case k8s_alloc alloc ports udp hostsStr tcpHostsStr of (alloc', ports', hosts, thosts) \<Rightarrow>
          (alloc', Inr (zero_info
             \<lparr>ContainerID := dep_Namespace d @ ''/'' @ dep_Name d,
              ContainerName := dep_Name d,
              Ports := ports',
              UDPPorts := udp,
              AllowList := label_ip_list (dep_Annotations d) ''allow-list'',
              BlockList := label_ip_list (dep_Annotations d) ''block-list'',
              IdleTimeout := ParseIdleTimeoutLabel (ann ''idle-timeout-secs''),
              StartTimeout := ParseStartTimeoutLabel (ann ''start-timeout-secs''),
              Running := dep_ReadyReplicas d > 0,
              WebhookURL := label_webhook uri_ok (dep_Annotations d),
              Dependants := label_dependants (dep_Annotations d),
              CronStart := parseCronAnnotation cron_ok (ann ''cron-start''),
              CronStop := parseCronAnnotation cron_ok (ann ''cron-stop''),
              HTTPHealthCheck := ParseHTTPHealthCheckLabel uri_ok (ann ''http-healthcheck''),
              TLS := (trim_space (ann ''tls'') = ''true''),
              APIKey := ParseAuthList (ann ''api-key''),
              BasicAuth := ParseAuthList (ann ''basic-auth''),
              TraefikHosts := hosts,
              TraefikTCPHosts := thosts,
              Availability := ParseAvailabilityLabel (ann ''availability''),
              ALPNProtocols := ParseALPNProtocols [ann ''alpn-protocols''],
              MinTLSVersion := ParseMinTLSVersion (ann ''min-version'')\<rparr>))))"

definition storeServiceName :: "string \<Rightarrow> (string \<Rightarrow> string option) \<Rightarrow> 'd Backend \<Rightarrow> 'd Backend" where
  "storeServiceName tid ann b =
     b\<lparr>be_serviceNames := AList.update tid (trim_space (label_value ann ''service-name'')) (be_serviceNames b)\<rparr>"

subsection \<open>Discovery and the watch loop\<close>

type_synonym 'd k8s_discovery = "PortAllocator option \<times> 'd Backend \<times> handler_call list"

definition k8s_discover_one ::
  "(string \<Rightarrow> bool) \<Rightarrow> (string \<Rightarrow> bool) \<Rightarrow> 'd k8s_discovery \<Rightarrow> Deployment \<Rightarrow> 'd k8s_discovery" where
  "k8s_discover_one uri_ok cron_ok st d =
     (case st of (alloc, b, calls) \<Rightarrow>
      case deploymentToTargetInfo uri_ok cron_ok alloc d of
        (alloc', Inl _) \<Rightarrow> (alloc', b, calls)
      | (alloc', Inr info) \<Rightarrow> (alloc', storeServiceName (targetID d) (dep_Annotations d) b, calls @ [HRegister info]))"

definition k8s_Discover ::
  "(string \<Rightarrow> bool) \<Rightarrow> (string \<Rightarrow> bool) \<Rightarrow> Deployment list option \<Rightarrow> PortAllocator option \<Rightarrow> 'd Backend
     \<Rightarrow> 'd k8s_discovery option" where
  "k8s_Discover uri_ok cron_ok listed alloc b =
     (case listed of None \<Rightarrow> None | Some ds \<Rightarrow> Some (foldl (k8s_discover_one uri_ok cron_ok) (alloc, b, []) ds))"

text \<open>
  What the watch delivers: \<open>OtherEvent\<close> is an object that is no Deployment or an event type the
  code ignores, \<open>Closed\<close> the end of one watch, \<open>WatchFailed\<close> a watch that could not be opened.
\<close>

datatype watch_item = Added Deployment | Modified Deployment | Deleted Deployment | OtherEvent | Closed | WatchFailed

definition k8s_updated ::
  "(string \<Rightarrow> bool) \<Rightarrow> (string \<Rightarrow> bool) \<Rightarrow> 'd k8s_discovery \<Rightarrow> Deployment \<Rightarrow> 'd k8s_discovery" where
  "k8s_updated uri_ok cron_ok st d =
     (case st of (alloc, b, calls) \<Rightarrow>
      case deploymentToTargetInfo uri_ok cron_ok alloc d of
        (alloc', Inl _) \<Rightarrow> (alloc', b, calls)
      | (alloc', Inr info) \<Rightarrow>
          (alloc', storeServiceName (targetID d) (dep_Annotations d) b,
           calls @ [HRegister info, if Running info then HStarted (targetID d) else HStopped (targetID d)]))"

fun k8s_watch ::
  "(string \<Rightarrow> bool) \<Rightarrow> (string \<Rightarrow> bool) \<Rightarrow> duration \<Rightarrow> 'd k8s_discovery \<Rightarrow> watch_item list \<Rightarrow> 'd k8s_discovery \<times> duration list" where
  "k8s_watch uri_ok cron_ok backoff st [] = (st, [])"
| "k8s_watch uri_ok cron_ok backoff st (Added d # items) =
     k8s_watch uri_ok cron_ok backoff (k8s_updated uri_ok cron_ok st d) items"
| "k8s_watch uri_ok cron_ok backoff st (Modified d # items) =
     k8s_watch uri_ok cron_ok backoff (k8s_updated uri_ok cron_ok st d) items"
| "k8s_watch uri_ok cron_ok backoff st (Deleted d # items) =
     (case st of (alloc, b, calls) \<Rightarrow>
      k8s_watch uri_ok cron_ok backoff (alloc, b, calls @ [HRemove (targetID d)]) items)"
| "k8s_watch uri_ok cron_ok backoff st (OtherEvent # items) = k8s_watch uri_ok cron_ok backoff st items"
| "k8s_watch uri_ok cron_ok backoff st (Closed # items) =
     (case k8s_watch uri_ok cron_ok second st items of (st', sleeps) \<Rightarrow> (st', second # sleeps))"
| "k8s_watch uri_ok cron_ok backoff st (WatchFailed # items) =
     (case k8s_watch uri_ok cron_ok (next_backoff backoff) st items of (st', sleeps) \<Rightarrow> (st', backoff # sleeps))"

definition k8s_WatchEvents ::
  "(string \<Rightarrow> bool) \<Rightarrow> (string \<Rightarrow> bool) \<Rightarrow> PortAllocator option \<Rightarrow> 'd Backend \<Rightarrow> watch_item list
     \<Rightarrow> 'd k8s_discovery \<times> duration list" where
  "k8s_WatchEvents uri_ok cron_ok alloc b items = k8s_watch uri_ok cron_ok second (alloc, b, []) items"

subsection \<open>What the backend relies on\<close>

definition k8s_up :: "'d k8s_api \<Rightarrow> 'd \<Rightarrow> string \<times> string \<Rightarrow> bool" where
  "k8s_up api d u = (case GetScale api d u of None \<Rightarrow> False | Some r \<Rightarrow> r > 0)"

text \<open>A successful update sets the replica count; no update touches another Deployment.\<close>

definition k8s_laws :: "'d k8s_api \<Rightarrow> bool" where
  "k8s_laws api \<longleftrightarrow>
     (\<forall>d u r. snd (UpdateScale api d u r) \<longrightarrow> GetScale api (fst (UpdateScale api d u r)) u = Some r)
     \<and> (\<forall>d u r v. v \<noteq> u \<longrightarrow> GetScale api (fst (UpdateScale api d u r)) v = GetScale api d v)"

definition backend_up :: "'d Backend \<Rightarrow> string \<Rightarrow> bool" where
  "backend_up b tid = k8s_up (be_client b) (be_cluster b) (splitID tid)"

definition backend_unit :: "'d Backend \<Rightarrow> string \<Rightarrow> string \<times> string" where
  "backend_unit b = splitID"

definition backend_ok :: "'d Backend \<Rightarrow> bool" where
  "backend_ok b \<longleftrightarrow> k8s_laws (be_client b)"

lemma UpdateScale_up:
  assumes "k8s_laws api" and "UpdateScale api d u r = (d', ok)"
  shows "ok \<Longrightarrow> k8s_up api d' u \<longleftrightarrow> r > 0" and "v \<noteq> u \<Longrightarrow> k8s_up api d' v = k8s_up api d v"
proof -
  have "snd (UpdateScale api d u r) \<longrightarrow> GetScale api (fst (UpdateScale api d u r)) u = Some r"
    and "v \<noteq> u \<longrightarrow> GetScale api (fst (UpdateScale api d u r)) v = GetScale api d v"
    using assms(1) unfolding k8s_laws_def by blast+
  then show "ok \<Longrightarrow> k8s_up api d' u \<longleftrightarrow> r > 0" and "v \<noteq> u \<Longrightarrow> k8s_up api d' v = k8s_up api d v"
    by (simp_all add: assms(2) k8s_up_def)
qed

interpretation k8s: container_backend k8s_EnsureRunning k8s_StopContainer backend_up backend_unit backend_ok
proof
  fix b :: "'d Backend" and c d n :: string
  assume ok: "backend_ok b"
  note up = UpdateScale_up [OF ok [unfolded backend_ok_def]]
  show "backend_ok (fst (k8s_EnsureRunning b c)) \<and> backend_unit (fst (k8s_EnsureRunning b c)) = backend_unit b"
    and "backend_ok (fst (k8s_StopContainer b c n)) \<and> backend_unit (fst (k8s_StopContainer b c n)) = backend_unit b"
    using ok by (simp_all add: k8s_EnsureRunning_def k8s_StopContainer_def backend_ok_def backend_unit_def
        split: option.splits prod.splits)
  show "backend_up (fst (k8s_EnsureRunning b c)) c" if "snd (k8s_EnsureRunning b c)"
    using that up(1) by (auto simp: k8s_EnsureRunning_def backend_up_def k8s_up_def [of _ "be_cluster b"]
        split: option.splits prod.splits if_splits)
  show "\<not> backend_up (fst (k8s_StopContainer b c n)) c" if "snd (k8s_StopContainer b c n)"
    using that up(1) by (auto simp: k8s_StopContainer_def backend_up_def k8s_up_def [of _ "be_cluster b"]
        split: option.splits prod.splits if_splits)
  show "backend_up (fst (k8s_EnsureRunning b c)) d = backend_up b d"
    and "backend_up (fst (k8s_StopContainer b c n)) d = backend_up b d" if "backend_unit b d \<noteq> backend_unit b c"
    using that up(2) by (auto simp: k8s_EnsureRunning_def k8s_StopContainer_def backend_up_def backend_unit_def
        split: option.splits prod.splits)
qed

subsection \<open>Target identifiers\<close>

lemma splitID_targetID: "CHR ''/'' \<notin> set ns \<Longrightarrow> splitID (ns @ ''/'' @ name) = (ns, name)"
  by (simp add: splitID_def split2_sep)

lemma deploymentToTargetInfo_result:
  assumes "deploymentToTargetInfo uri_ok cron_ok alloc d = (alloc', Inr info)"
  shows "ContainerID info = targetID d" "Running info = (dep_ReadyReplicas d > 0)" "DesiredReplicas info = 0"
  using assms
  by (auto simp: deploymentToTargetInfo_def targetID_def zero_info_def Let_def split: if_splits prod.splits)

subsection \<open>The targets a stream leaves\<close>

text \<open>The identifiers a stream of watch events leaves alive, from those before it.\<close>

fun live :: "string set \<Rightarrow> watch_item list \<Rightarrow> string set" where
  "live ids [] = ids"
| "live ids (Added d # items) = live (insert (targetID d) ids) items"
| "live ids (Modified d # items) = live (insert (targetID d) ids) items"
| "live ids (Deleted d # items) = live (ids - {targetID d}) items"
| "live ids (_ # items) = live ids items"

lemma k8s_updated_serves:
  assumes "k8s_updated uri_ok cron_ok (alloc, b, calls) d = (alloc', b', calls')"
    and "srv_ok s" and "server_ids (serve_all listen now s calls) \<subseteq> ids"
  shows "server_ids (serve_all listen now s calls') \<subseteq> insert (targetID d) ids"
proof (cases "deploymentToTargetInfo uri_ok cron_ok alloc d")
  case conv: (Pair a r)
  show ?thesis
  proof (cases r)
    case (Inl e)
    with assms(1,3) conv show ?thesis by (auto simp: k8s_updated_def)
  next
    case (Inr info)
    let ?new = "[HRegister info, if Running info then HStarted (targetID d) else HStopped (targetID d)]"
    have "server_ids (serve_all listen now (serve_all listen now s calls) ?new)
        \<subseteq> server_ids (serve_all listen now s calls) \<union> ContainerID ` set (registered ?new)"
      unfolding serve_all_def [of _ _ _ ?new] by (rule srv.ids_upper) (rule serve_all_ok [OF assms(2)])
    moreover have "registered ?new = [info]" by simp
    ultimately show ?thesis using assms(1,3) conv Inr deploymentToTargetInfo_result(1) [of uri_ok cron_ok alloc d a info]
      by (cases "Running info") (auto simp: k8s_updated_def)
  qed
qed

lemma k8s_watch_serves:
  assumes "srv_ok s" and "server_ids (serve_all listen now s (snd (snd st))) \<subseteq> ids"
  shows "server_ids (serve_all listen now s (snd (snd (fst (k8s_watch uri_ok cron_ok bo st items))))) \<subseteq> live ids items"
  using assms(2)
proof (induction items arbitrary: ids st bo)
  case (Cons item items)
  obtain alloc b calls where st: "st = (alloc, b, calls)" by (rule prod_cases3)
  note upd = k8s_updated_serves [OF _ assms(1) Cons.prems [unfolded st snd_conv], of uri_ok cron_ok alloc b]
  have step: "server_ids (serve_all listen now s (snd (snd (k8s_updated uri_ok cron_ok st d)))) \<subseteq> insert (targetID d) ids" for d
    using upd [of d] by (metis st prod.collapse)
  show ?case
  proof (cases item)
    case (Deleted d)
    have "server_ids (serve_all listen now s (calls @ [HRemove (targetID d)])) \<subseteq> ids - {targetID d}"
      using Cons.prems srv.remove_ids [OF serve_all_ok [OF assms(1)]] by (auto simp: st)
    with Cons.IH [of "(alloc, b, calls @ [HRemove (targetID d)])"] show ?thesis by (simp add: Deleted st)
  qed (use Cons.IH Cons.prems step in \<open>simp_all add: case_prod_unfold\<close>)
qed simp

subsection \<open>Properties\<close>

text \<open>A cluster of replica counts, for the witnesses.\<close>

definition demo_cluster :: "((string \<times> string) \<Rightarrow> int option) k8s_api" where
  "demo_cluster =
     \<lparr>GetScale = (\<lambda>d u. d u), UpdateScale = (\<lambda>d u r. if d u = None then (d, False) else (d(u \<mapsto> r), True))\<rparr>"

definition demo_backend :: "((string \<times> string) \<Rightarrow> int option) Backend" where
  "demo_backend = newBackendWithClient demo_cluster [(''prod'', ''web'') \<mapsto> 0, (''prod'', ''api'') \<mapsto> 3] ''''"

definition demo_deployment :: Deployment where
  "demo_deployment = \<lparr>dep_Namespace = ''prod'', dep_Name = ''web'',
     dep_Annotations = [lbl ''udp-ports'' \<mapsto> ''53:53''], dep_ReadyReplicas = 1\<rparr>"

lemma demo_backend_ok: "backend_ok demo_backend"
  by (auto simp: backend_ok_def k8s_laws_def demo_backend_def newBackendWithClient_def demo_cluster_def)

text \<open>
  C10: the Kubernetes backend keeps the server's contract, with the Deployment an identifier names as
  the unit: a successful \<open>EnsureRunning\<close> leaves it with replicas, a successful \<open>StopContainer\<close> with
  none, neither changes another Deployment, whatever either reports, and a running Deployment keeps
  the scale it has.
\<close>

theorem k8s_start_stop_contract:
  assumes "backend_ok b"
  shows "(snd (k8s_EnsureRunning b c) \<longrightarrow> backend_up (fst (k8s_EnsureRunning b c)) c)
    \<and> (snd (k8s_StopContainer b c n) \<longrightarrow> \<not> backend_up (fst (k8s_StopContainer b c n)) c)
    \<and> (splitID d \<noteq> splitID c \<longrightarrow> backend_up (fst (k8s_EnsureRunning b c)) d = backend_up b d
          \<and> backend_up (fst (k8s_StopContainer b c n)) d = backend_up b d)
    \<and> (backend_up b c \<longrightarrow> k8s_EnsureRunning b c = (b, True))"
proof -
  have "k8s_EnsureRunning b c = (b, True)" if "backend_up b c"
    using that by (simp add: backend_up_def k8s_up_def k8s_EnsureRunning_def split: option.splits)
  then show ?thesis
    using k8s.ensure_up [OF assms] k8s.stop_down [OF assms] k8s.ensure_other [OF assms] k8s.stop_other [OF assms]
    by (simp add: backend_unit_def)
qed

theorem k8s_start_stop_contract_witness:
  "backend_up (fst (k8s_EnsureRunning demo_backend ''prod/web'')) ''prod/web''
   \<and> backend_up (fst (k8s_StopContainer demo_backend ''prod/web'' ''web'')) ''prod/api''"
proof -
  have "splitID ''prod/web'' = (''prod'', ''web'')" "splitID ''prod/api'' = (''prod'', ''api'')" by code_simp+
  moreover from this have "snd (k8s_EnsureRunning demo_backend ''prod/web'')" "backend_up demo_backend ''prod/api''"
    by (simp_all add: k8s_EnsureRunning_def backend_up_def k8s_up_def demo_backend_def newBackendWithClient_def demo_cluster_def)
  ultimately show ?thesis using k8s_start_stop_contract [OF demo_backend_ok] by simp
qed

text \<open>
  C24: a deleted Deployment is not served any more. After the discovery of Deployments and any stream of
  watch events, with closed and failed watches in between, the server's targets are among those
  discovered, added or modified and not deleted since.
\<close>

theorem deleted_deployments_are_not_served:
  assumes "srv_ok s" and "k8s_Discover uri_ok cron_ok (Some ds) alloc b = Some (alloc1, b1, calls1)"
    and "fst (k8s_WatchEvents uri_ok cron_ok alloc1 b1 items) = (alloc2, b2, calls2)"
  shows "server_ids (serve_all listen now s (calls1 @ calls2)) \<subseteq> live (server_ids s \<union> targetID ` set ds) items"
proof -
  have "ContainerID ` set (registered (snd (snd (foldl (k8s_discover_one uri_ok cron_ok) st ds))))
      \<subseteq> ContainerID ` set (registered (snd (snd st))) \<union> targetID ` set ds" for st :: "'a k8s_discovery"
  proof (induction ds arbitrary: st)
    case (Cons d ds)
    have "ContainerID ` set (registered (snd (snd (k8s_discover_one uri_ok cron_ok st d))))
        \<subseteq> insert (targetID d) (ContainerID ` set (registered (snd (snd st))))"
      by (auto simp: k8s_discover_one_def deploymentToTargetInfo_result(1) split: prod.splits sum.splits)
    with Cons.IH [of "k8s_discover_one uri_ok cron_ok st d"] show ?case by simp blast
  qed simp
  from this [of "(alloc, b, [])"] assms(2) have "ContainerID ` set (registered calls1) \<subseteq> targetID ` set ds"
    by (simp add: k8s_Discover_def)
  then have "server_ids (serve_all listen now s calls1) \<subseteq> server_ids s \<union> targetID ` set ds"
    using srv.ids_upper [OF assms(1), of listen now calls1] unfolding serve_all_def by blast
  with k8s_watch_serves [OF serve_all_ok [OF assms(1)], where st = "(alloc1, b1, [])"] assms(3) show ?thesis
    by (simp add: k8s_WatchEvents_def)
      (metis snd_conv)
qed

theorem deleted_deployments_are_not_served_witness:
  "case k8s_Discover (\<lambda>_. True) (\<lambda>_. True) (Some [demo_deployment]) None demo_backend of
     None \<Rightarrow> False
   | Some (a1, b1, c1) \<Rightarrow>
       server_ids (serve_all (\<lambda>_ _. True) 0 (NewServer 0 0 0 0 False)
         (c1 @ snd (snd (fst (k8s_WatchEvents (\<lambda>_. True) (\<lambda>_. True) a1 b1 [Closed, WatchFailed, Deleted demo_deployment]))))) = {}"
proof -
  let ?s = "NewServer 0 0 0 0 False" and ?items = "[Closed, WatchFailed, Deleted demo_deployment]"
  have s: "srv_ok ?s" "server_ids ?s = {}"
    by (simp_all add: srv_ok_def NewServer_def server_ids_def bound_def cron_bound_def)
  obtain a1 b1 c1 where d: "k8s_Discover (\<lambda>_. True) (\<lambda>_. True) (Some [demo_deployment]) None demo_backend = Some (a1, b1, c1)"
    by (simp add: k8s_Discover_def) (metis prod.collapse)
  obtain a2 b2 c2 where w: "fst (k8s_WatchEvents (\<lambda>_. True) (\<lambda>_. True) a1 b1 ?items) = (a2, b2, c2)" by (rule prod_cases3)
  from deleted_deployments_are_not_served [OF s(1) d w, of "\<lambda>_ _. True" 0] have
    "server_ids (serve_all (\<lambda>_ _. True) 0 ?s (c1 @ c2)) = {}" by (simp add: s(2))
  then show ?thesis unfolding d option.case prod.case w by simp
qed

text \<open>
  An identifier names the Deployment it was made of: \<open>splitID\<close> takes \<open>targetID\<close> apart again, so
  after the target's registration its upstream host is \<open>service.namespace.svc.cluster.local\<close>, with the
  annotated service name when there is one and the Deployment's name otherwise.
\<close>

theorem deployment_id_roundtrip:
  assumes "CHR ''/'' \<notin> set (dep_Namespace d)"
  shows "splitID (targetID d) = (dep_Namespace d, dep_Name d)
    \<and> k8s_GetUpstreamHost (storeServiceName (targetID d) (dep_Annotations d) b) (targetID d)
      = (let n = trim_space (label_value (dep_Annotations d) ''service-name'') in
         (if n = '''' then dep_Name d else n) @ ''.'' @ dep_Namespace d @ ''.svc.cluster.local'')"
  using splitID_targetID [OF assms]
  by (simp add: targetID_def k8s_GetUpstreamHost_def storeServiceName_def update_conv' Let_def)

theorem deployment_id_roundtrip_witness:
  "k8s_GetUpstreamHost (storeServiceName (targetID demo_deployment) (dep_Annotations demo_deployment) demo_backend)
     (targetID demo_deployment) = ''web.prod.svc.cluster.local''"
proof -
  have "CHR ''/'' \<notin> set (dep_Namespace demo_deployment)" by (simp add: demo_deployment_def)
  from deployment_id_roundtrip [OF this, of demo_backend] show ?thesis
    by (simp add: demo_deployment_def label_value_def)
qed

end
