(* ===== verification/Traefik_Config.thy ===== *)
theory Traefik_Config
  imports Port_Alloc
begin

text \<open>
  \<open>internal/traefik/config.go\<close>: the dynamic configuration the proxy serves to Traefik. Go maps are
  association lists; HTTP and TCP routers have the same fields and share one record, as do HTTP and
  TCP services (a list of server addresses and, for HTTP, the name of a servers transport). The JSON
  tags are left out.
\<close>

subsection \<open>Data\<close>

record Snapshot =
  sn_ListenPort :: int
  sn_TraefikHosts :: "string list"
  sn_TraefikTCPHosts :: "string list"
  sn_ALPNProtocols :: "string list"
  sn_MinTLSVersion :: string

record TLSOption =
  opt_AlpnProtocols :: "string list"
  opt_MinVersion :: string

record RouterTLS =
  rt_CertResolver :: string
  rt_Options :: string

record Router =
  ro_Rule :: string
  ro_Service :: string
  ro_EntryPoints :: "string list"
  ro_TLS :: "RouterTLS option"

record HTTPService =
  se_Servers :: "string list"
  se_ServersTransport :: string

record config_section =
  Routers :: "(string \<times> Router) list"
  Services :: "(string \<times> HTTPService) list"

record TransportTimeouts =
  tt_DialTimeout :: string
  tt_ResponseHeaderTimeout :: string
  tt_IdleConnTimeout :: string

record TraefikConfig =
  HTTP :: config_section
  ServersTransports :: "(string \<times> TransportTimeouts) list"
  TCP :: "config_section option"
  TLS_Options :: "(string \<times> TLSOption) list option"

definition HTTPConfig_IsZero :: "TraefikConfig \<Rightarrow> bool" where
  "HTTPConfig_IsZero c \<longleftrightarrow> Routers (HTTP c) = [] \<and> Services (HTTP c) = [] \<and> ServersTransports c = []"

subsection \<open>Names\<close>

text \<open>
  \<open>strings.ToLower\<close> followed by the loop over runes, on the bytes of the string: an ASCII letter or
  digit stays (in lower case), every other byte becomes a hyphen. A rune of several bytes gives several
  hyphens here and one in Go, which the next step makes equal. Two runes outside ASCII have an ASCII
  lower case: the Kelvin sign and the dotted capital I.
\<close>

definition kelvin_sign :: string where
  "kelvin_sign = [CHR 0xE2, CHR 0x84, CHR 0xAA]"

definition dotted_I :: string where
  "dotted_I = [CHR 0xC4, CHR 0xB0]"

definition between :: "char \<Rightarrow> char \<Rightarrow> char \<Rightarrow> bool" where
  "between a b c \<longleftrightarrow> (of_char a :: nat) \<le> of_char c \<and> (of_char c :: nat) \<le> of_char b"

definition name_char :: "char \<Rightarrow> char" where
  "name_char c =
     (if between (CHR ''a'') (CHR ''z'') c \<or> between (CHR ''0'') (CHR ''9'') c then c
      else if between (CHR ''A'') (CHR ''Z'') c then char_of ((of_char c :: nat) + 32)
      else CHR ''-'')"

function name_chars :: "string \<Rightarrow> string" where
  "name_chars s =
     (if s = [] then []
      else if prefix kelvin_sign s then CHR ''k'' # name_chars (drop 3 s)
      else if prefix dotted_I s then CHR ''i'' # name_chars (drop 2 s)
      else name_char (hd s) # name_chars (tl s))"
  by pat_completeness auto

termination
  by (relation "measure length") (auto simp: kelvin_sign_def dotted_I_def neq_Nil_conv)

declare name_chars.simps [simp del]

text \<open>\<open>multiHyphen.ReplaceAllString(_, "-")\<close> and \<open>strings.Trim(_, "-")\<close>.\<close>

fun squeeze :: "string \<Rightarrow> string" where
  "squeeze (c # d # cs) = (if c = CHR ''-'' \<and> d = CHR ''-'' then squeeze (d # cs) else c # squeeze (d # cs))"
| "squeeze s = s"

definition trim_hyphens :: "string \<Rightarrow> string" where
  "trim_hyphens s = rev (dropWhile (\<lambda>c. c = CHR ''-'') (rev (dropWhile (\<lambda>c. c = CHR ''-'') s)))"

definition sanitiseName :: "string \<Rightarrow> string" where
  "sanitiseName s = trim_hyphens (squeeze (name_chars s))"

subsection \<open>TLS options\<close>

definition traefikDefaultALPN :: "string list" where
  "traefikDefaultALPN = [''h2'', ''http/1.1'', ''acme-tls/1'']"

definition minVersionNames :: "(string \<times> string) list" where
  "minVersionNames = [(''1.0'', ''VersionTLS10''), (''1.1'', ''VersionTLS11''), (''1.2'', ''VersionTLS12''),
     (''1.3'', ''VersionTLS13'')]"

definition extra_protocols :: "string list \<Rightarrow> string list" where
  "extra_protocols ps =
     foldl (\<lambda>extras p. if p = '''' \<or> p \<in> set traefikDefaultALPN \<or> p \<in> set extras then extras else extras @ [p]) [] ps"

definition tlsOptionFor :: "Snapshot \<Rightarrow> string \<times> TLSOption \<times> bool" where
  "tlsOptionFor snap =
     (let extras = extra_protocols (sn_ALPNProtocols snap);
          alpn = (if extras \<noteq> [] then traefikDefaultALPN @ extras else []);
          name = ''lazy-tls'' @ (if extras \<noteq> [] then ''-alpn-'' @ sanitiseName (join ''-'' extras) else '''');
          (minv, name') = (case map_of minVersionNames (sn_MinTLSVersion snap) of
             Some v \<Rightarrow> (v, name @ ''-min-'' @ sanitiseName (sn_MinTLSVersion snap))
           | None \<Rightarrow> ('''', name))
      in (name', \<lparr>opt_AlpnProtocols = alpn, opt_MinVersion = minv\<rparr>, extras \<noteq> [] \<or> minv \<noteq> ''''))"

text \<open>
  The loop tries the name and then \<open>name-2\<close>, \<open>name-3\<close> and so on; \<open>None\<close> means the fuel ran out,
  which the fuel of \<open>uniqueOptionName\<close> never does.
\<close>

primrec unique_from :: "nat \<Rightarrow> (string \<times> TLSOption) list \<Rightarrow> string \<Rightarrow> TLSOption \<Rightarrow> string \<Rightarrow> nat \<Rightarrow> string option" where
  "unique_from 0 existing name opt candidate i = None"
| "unique_from (Suc fuel) existing name opt candidate i =
     (case map_of existing candidate of
        None \<Rightarrow> Some candidate
      | Some cur \<Rightarrow> if cur = opt then Some candidate
                    else unique_from fuel existing name opt (name @ ''-'' @ show_int (int i)) (Suc i))"

definition uniqueOptionName :: "(string \<times> TLSOption) list \<Rightarrow> string \<Rightarrow> TLSOption \<Rightarrow> string" where
  "uniqueOptionName existing name opt =
     (case unique_from (Suc (length existing)) existing name opt name 2 of Some n \<Rightarrow> n | None \<Rightarrow> name)"

subsection \<open>Routers\<close>

definition routerEntryPoints :: "string \<Rightarrow> string list" where
  "routerEntryPoints entryPoint = (if entryPoint = '''' then [] else [entryPoint])"

definition routerTLS :: "string \<Rightarrow> string \<Rightarrow> RouterTLS option" where
  "routerTLS certResolver options =
     (if certResolver = '''' \<and> options = '''' then None
      else Some \<lparr>rt_CertResolver = certResolver, rt_Options = options\<rparr>)"

text \<open>The arguments of \<open>BuildConfig\<close> that every router and service depends on.\<close>

record build_args =
  ba_proxyHost :: string
  ba_entryPoint :: string
  ba_certResolver :: string
  ba_transport :: string

text \<open>\<open>Host(`domain`)\<close> and \<open>HostSNI(`domain`)\<close>.\<close>

definition host_rule :: "string \<Rightarrow> string \<Rightarrow> string" where
  "host_rule matcher domain = matcher @ ''('' @ [CHR 0x60] @ domain @ [CHR 0x60] @ '')''"

definition host_port :: "string \<Rightarrow> int \<Rightarrow> string" where
  "host_port h port = h @ '':'' @ show_int port"

definition route_name :: "string \<Rightarrow> int \<Rightarrow> string" where
  "route_name domain port = sanitiseName (domain @ ''-'' @ show_int port)"

text \<open>The checks that let an entry through.\<close>

definition route_entry :: "Snapshot \<Rightarrow> string \<Rightarrow> (string \<times> int) option" where
  "route_entry snap entry =
     (let idx = last_index entry (CHR '':'') in
      if idx < 1 then None
      else (case atoi (slice_from entry (idx + 1)) of
        None \<Rightarrow> None
      | Some port \<Rightarrow> if port \<noteq> sn_ListenPort snap then None else Some (slice_to entry idx, port)))"

definition add_route ::
  "string \<Rightarrow> string \<Rightarrow> string \<Rightarrow> build_args \<Rightarrow> string \<Rightarrow> config_section \<Rightarrow> string \<times> int \<Rightarrow> config_section" where
  "add_route matcher scheme transport args optName sec dp =
     (case dp of (domain, port) \<Rightarrow>
      let name = route_name domain port in
      sec\<lparr>Routers := AList.update (name @ ''-router'')
             \<lparr>ro_Rule = host_rule matcher domain, ro_Service = name @ ''-service'',
              ro_EntryPoints = routerEntryPoints (ba_entryPoint args), ro_TLS = routerTLS (ba_certResolver args) optName\<rparr>
             (Routers sec),
          Services := AList.update (name @ ''-service'')
             \<lparr>se_Servers = [scheme @ host_port (ba_proxyHost args) port], se_ServersTransport = transport\<rparr>
             (Services sec)\<rparr>)"

definition add_http :: "build_args \<Rightarrow> string \<Rightarrow> config_section \<Rightarrow> string \<times> int \<Rightarrow> config_section" where
  "add_http args = add_route ''Host'' ''http://'' (ba_transport args) args"

definition add_tcp :: "build_args \<Rightarrow> string \<Rightarrow> config_section \<Rightarrow> string \<times> int \<Rightarrow> config_section" where
  "add_tcp args = add_route ''HostSNI'' '''' '''' args"

subsection \<open>The configuration\<close>

record build_state =
  bs_http :: config_section
  bs_tcp :: config_section
  bs_tls :: "(string \<times> TLSOption) list"

definition empty_section :: config_section where
  "empty_section = \<lparr>Routers = [], Services = []\<rparr>"

text \<open>The snapshot's TLS option: its name (or the empty string) and the options with it.\<close>

definition add_option :: "(string \<times> TLSOption) list \<Rightarrow> Snapshot \<Rightarrow> string \<times> (string \<times> TLSOption) list" where
  "add_option opts snap =
     (case tlsOptionFor snap of (name, opt, ok) \<Rightarrow>
      if ok then let optName = uniqueOptionName opts name opt in (optName, AList.update optName opt opts)
      else ('''', opts))"

definition build_snapshot :: "build_args \<Rightarrow> build_state \<Rightarrow> Snapshot \<Rightarrow> build_state" where
  "build_snapshot args bs snap =
     (case add_option (bs_tls bs) snap of (optName, opts) \<Rightarrow>
      bs\<lparr>bs_tls := opts,
         bs_http := foldl (add_http args optName) (bs_http bs) (List.map_filter (route_entry snap) (sn_TraefikHosts snap)),
         bs_tcp := foldl (add_tcp args optName) (bs_tcp bs) (List.map_filter (route_entry snap) (sn_TraefikTCPHosts snap))\<rparr>)"

definition transportName :: string where
  "transportName = ''lazy-transport''"

definition useTransport :: "TransportTimeouts option \<Rightarrow> bool" where
  "useTransport timeouts \<longleftrightarrow>
     (case timeouts of None \<Rightarrow> False
      | Some t \<Rightarrow> tt_DialTimeout t \<noteq> '''' \<or> tt_ResponseHeaderTimeout t \<noteq> '''' \<or> tt_IdleConnTimeout t \<noteq> '''')"

definition config_args :: "string \<Rightarrow> string \<Rightarrow> string \<Rightarrow> TransportTimeouts option \<Rightarrow> build_args" where
  "config_args proxyHost entryPoint certResolver timeouts =
     \<lparr>ba_proxyHost = proxyHost, ba_entryPoint = entryPoint, ba_certResolver = certResolver,
      ba_transport = (if useTransport timeouts then transportName else '''')\<rparr>"

definition empty_build :: build_state where
  "empty_build = \<lparr>bs_http = empty_section, bs_tcp = empty_section, bs_tls = []\<rparr>"

definition BuildConfig ::
  "Snapshot list \<Rightarrow> string \<Rightarrow> string \<Rightarrow> string \<Rightarrow> string \<Rightarrow> int \<Rightarrow> TransportTimeouts option \<Rightarrow> TraefikConfig" where
  "BuildConfig snapshots proxyHost entryPoint certResolver webHost webPort timeouts =
     (let args = config_args proxyHost entryPoint certResolver timeouts;
          bs = foldl (build_snapshot args) empty_build snapshots;
          http = (if webHost \<noteq> '''' then add_http args '''' (bs_http bs) (webHost, webPort) else bs_http bs)
      in \<lparr>HTTP = http,
          ServersTransports = (case timeouts of Some t \<Rightarrow> if useTransport timeouts then [(transportName, t)] else [] | None \<Rightarrow> []),
          TCP = (if Routers (bs_tcp bs) \<noteq> [] then Some (bs_tcp bs) else None),
          TLS_Options = (if bs_tls bs \<noteq> [] then Some (bs_tls bs) else None)\<rparr>)"

subsection \<open>Identifiers\<close>

definition ident_char :: "char \<Rightarrow> bool" where
  "ident_char c \<longleftrightarrow> between (CHR ''a'') (CHR ''z'') c \<or> between (CHR ''0'') (CHR ''9'') c \<or> c = CHR ''-''"

definition no_double :: "string \<Rightarrow> bool" where
  "no_double s \<longleftrightarrow> successively (\<lambda>a b. \<not> (a = CHR ''-'' \<and> b = CHR ''-'')) s"

text \<open>What Traefik accepts as a name: the characters, no double and no outer hyphen.\<close>

definition traefik_name :: "string \<Rightarrow> bool" where
  "traefik_name s \<longleftrightarrow> list_all ident_char s \<and> no_double s \<and> (s \<noteq> [] \<longrightarrow> hd s \<noteq> CHR ''-'' \<and> last s \<noteq> CHR ''-'')"

lemma name_char_ident [simp]: "ident_char (name_char c)"
proof (cases "between (CHR ''A'') (CHR ''Z'') c")
  case True
  then have "of_char (char_of ((of_char c :: nat) + 32) :: char) = (of_char c :: nat) + 32"
    by (simp add: between_def)
  with True show ?thesis by (simp add: name_char_def ident_char_def between_def)
qed (simp add: name_char_def ident_char_def)

lemma name_char_fixed: "ident_char c \<Longrightarrow> name_char c = c"
  by (auto simp: ident_char_def name_char_def between_def)

lemma ident_ki: "ident_char (CHR ''k'')" "ident_char (CHR ''i'')"
  by (simp_all add: ident_char_def between_def)

lemma name_chars_ident: "list_all ident_char (name_chars s)"
proof (induction s rule: name_chars.induct)
  case (1 s)
  then show ?case
    by (subst name_chars.simps) (simp add: ident_ki)
qed

lemma name_chars_fixed: "list_all ident_char s \<Longrightarrow> name_chars s = s"
proof (induction s)
  case (Cons c s)
  have "\<not> prefix kelvin_sign (c # s)" "\<not> prefix dotted_I (c # s)"
    using Cons.prems by (auto simp: kelvin_sign_def dotted_I_def ident_char_def between_def)
  with Cons show ?case by (subst name_chars.simps) (simp add: name_char_fixed)
qed (simp add: name_chars.simps)

lemma squeeze_Nil [simp]: "squeeze s = [] \<longleftrightarrow> s = []"
  by (induction s rule: squeeze.induct) auto

lemma hd_squeeze: "s \<noteq> [] \<Longrightarrow> hd (squeeze s) = hd s"
  by (induction s rule: squeeze.induct) auto

lemma set_squeeze: "set (squeeze s) \<subseteq> set s"
  by (induction s rule: squeeze.induct) auto

lemma no_double_squeeze: "no_double (squeeze s)"
proof (induction s rule: squeeze.induct)
  case (1 c d cs)
  show ?case
  proof (cases "c = CHR ''-'' \<and> d = CHR ''-''")
    case False
    have "hd (squeeze (d # cs)) = d" using hd_squeeze by simp
    with 1 False show ?thesis
      by (cases "squeeze (d # cs)") (auto simp: no_double_def)
  qed (use 1 in simp)
qed (simp_all add: no_double_def)

lemma squeeze_fixed: "no_double s \<Longrightarrow> squeeze s = s"
  by (induction s rule: squeeze.induct) (auto simp: no_double_def)

lemma no_double_infix: "no_double (a @ b @ c) \<Longrightarrow> no_double b"
  by (simp add: no_double_def successively_append_iff)

lemma trim_hyphens_infix: "\<exists>a c. s = a @ trim_hyphens s @ c"
proof -
  define t where "t = dropWhile (\<lambda>c. c = CHR ''-'') s"
  have s: "s = takeWhile (\<lambda>c. c = CHR ''-'') s @ t" by (simp add: t_def)
  have "rev t = takeWhile (\<lambda>c. c = CHR ''-'') (rev t) @ dropWhile (\<lambda>c. c = CHR ''-'') (rev t)" by simp
  then have "t = rev (dropWhile (\<lambda>c. c = CHR ''-'') (rev t)) @ rev (takeWhile (\<lambda>c. c = CHR ''-'') (rev t))"
    by (metis rev_append rev_rev_ident)
  with s show ?thesis unfolding trim_hyphens_def t_def [symmetric] by metis
qed

lemma hd_trim_hyphens: "trim_hyphens s \<noteq> [] \<Longrightarrow> hd (trim_hyphens s) \<noteq> CHR ''-''"
proof -
  define t where "t = dropWhile (\<lambda>c. c = CHR ''-'') s"
  assume "trim_hyphens s \<noteq> []"
  then have ne: "rev (dropWhile (\<lambda>c. c = CHR ''-'') (rev t)) \<noteq> []" by (simp add: trim_hyphens_def t_def)
  then have "t \<noteq> []" by auto
  then have h: "hd t \<noteq> CHR ''-''" using hd_dropWhile [of "\<lambda>c. c = CHR ''-''" s] by (simp add: t_def)
  have "prefix (rev (dropWhile (\<lambda>c. c = CHR ''-'') (rev t))) t"
    using suffix_dropWhile [of "\<lambda>c. c = CHR ''-''" "rev t"] by (simp add: suffix_to_prefix)
  then have "hd (rev (dropWhile (\<lambda>c. c = CHR ''-'') (rev t))) = hd t"
    using ne by (metis hd_append prefixE)
  with h show ?thesis by (simp add: trim_hyphens_def t_def)
qed

lemma last_trim_hyphens: "trim_hyphens s \<noteq> [] \<Longrightarrow> last (trim_hyphens s) \<noteq> CHR ''-''"
  using hd_dropWhile [of "\<lambda>c. c = CHR ''-''" "rev (dropWhile (\<lambda>c. c = CHR ''-'') s)"]
  by (simp add: trim_hyphens_def last_rev)

lemma trim_hyphens_fixed: "(s \<noteq> [] \<Longrightarrow> hd s \<noteq> CHR ''-'' \<and> last s \<noteq> CHR ''-'') \<Longrightarrow> trim_hyphens s = s"
proof (cases s)
  case (Cons c cs)
  assume "s \<noteq> [] \<Longrightarrow> hd s \<noteq> CHR ''-'' \<and> last s \<noteq> CHR ''-''"
  with Cons have "hd s \<noteq> CHR ''-''" "hd (rev s) \<noteq> CHR ''-''" by (auto simp: hd_rev simp del: rev.simps)
  then have "dropWhile (\<lambda>c. c = CHR ''-'') s = s" "dropWhile (\<lambda>c. c = CHR ''-'') (rev s) = rev s"
    unfolding dropWhile_eq_self_iff by auto
  then show ?thesis by (simp add: trim_hyphens_def)
qed (simp add: trim_hyphens_def)

lemma sanitiseName_valid: "traefik_name (sanitiseName s)"
proof -
  let ?q = "squeeze (name_chars s)"
  obtain a c where q: "?q = a @ trim_hyphens ?q @ c" using trim_hyphens_infix by blast
  have "no_double (a @ trim_hyphens ?q @ c)" using no_double_squeeze [of "name_chars s"] q by simp
  then have "no_double (sanitiseName s)" unfolding sanitiseName_def by (rule no_double_infix)
  moreover have "list_all ident_char (sanitiseName s)"
    using set_squeeze [of "name_chars s"] name_chars_ident [of s] q
    unfolding sanitiseName_def list_all_iff by (metis UnCI in_mono set_append)
  ultimately show ?thesis
    unfolding traefik_name_def using hd_trim_hyphens [of ?q] last_trim_hyphens [of ?q] by (simp add: sanitiseName_def)
qed

lemma sanitiseName_fixed: "traefik_name s \<Longrightarrow> sanitiseName s = s"
  by (simp add: traefik_name_def sanitiseName_def name_chars_fixed squeeze_fixed trim_hyphens_fixed)

subsection \<open>Unique option names\<close>

definition candidate :: "string \<Rightarrow> nat \<Rightarrow> string" where
  "candidate name k = (if k = 0 then name else name @ ''-'' @ show_int (int (Suc k)))"

lemma show_int_of_nat_inj: "show_int (int a) = show_int (int b) \<longleftrightarrow> a = b"
  using show_nat_inj [of a b] by (auto simp: show_int_def)

lemma candidate_inj: "inj (candidate name)"
proof (rule injI)
  fix a b assume "candidate name a = candidate name b"
  then show "a = b"
    by (cases "a = 0"; cases "b = 0") (simp_all add: candidate_def show_int_of_nat_inj del: of_nat_Suc)
qed

lemma unique_from_none:
  "unique_from fuel existing name opt (candidate name k) (k + 2) = None \<Longrightarrow>
   j < fuel \<Longrightarrow> candidate name (k + j) \<in> fst ` set existing"
proof (induction fuel arbitrary: k j)
  case (Suc fuel)
  have next_name: "name @ ''-'' @ show_int (int (k + 2)) = candidate name (Suc k)"
    by (simp add: candidate_def)
  from Suc.prems(1) obtain cur where cur: "map_of existing (candidate name k) = Some cur" "cur \<noteq> opt"
    by (auto split: option.splits if_splits)
  show ?case
  proof (cases j)
    case 0
    with cur show ?thesis by (force dest: map_of_SomeD)
  next
    case (Suc i)
    have "unique_from fuel existing name opt (candidate name (Suc k)) (Suc k + 2) = None"
      using Suc.prems(1) cur next_name by simp
    from Suc.IH [OF this, of i] Suc.prems(2) Suc show ?thesis by simp
  qed
qed simp

lemma unique_from_some:
  "unique_from fuel existing name opt cand i = Some c \<Longrightarrow> map_of existing c = None \<or> map_of existing c = Some opt"
  by (induction fuel arbitrary: cand i) (auto split: option.splits if_splits)

text \<open>One more candidate than options: the search finds one.\<close>

lemma unique_from_total: "unique_from (Suc (length existing)) existing name opt name 2 \<noteq> None"
proof
  assume "unique_from (Suc (length existing)) existing name opt name 2 = None"
  then have "unique_from (Suc (length existing)) existing name opt (candidate name 0) (0 + 2) = None"
    by (simp add: candidate_def numeral_2_eq_2)
  from unique_from_none [OF this] have "candidate name ` {..<Suc (length existing)} \<subseteq> fst ` set existing" by auto
  then have "card (candidate name ` {..<Suc (length existing)}) \<le> card (set existing)"
    by (meson card_image_le card_mono finite_imageI finite_set order_trans)
  moreover have "card (candidate name ` {..<Suc (length existing)}) = Suc (length existing)"
    by (subst card_image) (auto intro: inj_on_subset [OF candidate_inj])
  ultimately show False using card_length [of existing] by simp
qed

lemma uniqueOptionName_free:
  "map_of existing (uniqueOptionName existing name opt) = None \<or> map_of existing (uniqueOptionName existing name opt) = Some opt"
proof -
  obtain c where "unique_from (Suc (length existing)) existing name opt name 2 = Some c"
    using unique_from_total [of existing name opt] by blast
  with unique_from_some [OF this] show ?thesis by (simp add: uniqueOptionName_def del: unique_from.simps)
qed

lemma add_option_grows:
  assumes "add_option opts snap = (optName, opts')"
  shows "map_of opts \<subseteq>\<^sub>m map_of opts'"
    and "optName \<noteq> '''' \<Longrightarrow> map_of opts' optName = Some (fst (snd (tlsOptionFor snap)))"
    and "snd (snd (tlsOptionFor snap)) \<Longrightarrow> map_of opts' optName = Some (fst (snd (tlsOptionFor snap)))"
proof -
  obtain name opt ok where t: "tlsOptionFor snap = (name, opt, ok)" by (rule prod_cases3)
  let ?n = "uniqueOptionName opts name opt"
  have "(optName, opts') = (if ok then (?n, AList.update ?n opt opts) else ('''', opts))"
    using assms t by (auto simp: add_option_def Let_def split: if_splits)
  with uniqueOptionName_free [of opts name opt] t
  show "map_of opts \<subseteq>\<^sub>m map_of opts'" and "optName \<noteq> '''' \<Longrightarrow> map_of opts' optName = Some (fst (snd (tlsOptionFor snap)))"
    and "snd (snd (tlsOptionFor snap)) \<Longrightarrow> map_of opts' optName = Some (fst (snd (tlsOptionFor snap)))"
    by (cases ok; auto simp: map_le_def update_conv')+
qed

subsection \<open>References\<close>

text \<open>Every name a section's routers and services mention exists.\<close>

definition section_ok :: "(string \<times> TLSOption) list \<Rightarrow> string \<Rightarrow> config_section \<Rightarrow> bool" where
  "section_ok opts transport sec \<longleftrightarrow>
     (\<forall>k r. map_of (Routers sec) k = Some r \<longrightarrow>
        map_of (Services sec) (ro_Service r) \<noteq> None
        \<and> (\<forall>t. ro_TLS r = Some t \<longrightarrow> rt_Options t = '''' \<or> map_of opts (rt_Options t) \<noteq> None))
     \<and> (\<forall>k se. map_of (Services sec) k = Some se \<longrightarrow> se_ServersTransport se = '''' \<or> se_ServersTransport se = transport)"

lemma section_ok_empty: "section_ok opts transport empty_section"
  by (simp add: section_ok_def empty_section_def)

lemma section_ok_mono:
  assumes "section_ok opts transport sec" and "map_of opts \<subseteq>\<^sub>m map_of opts'"
  shows "section_ok opts' transport sec"
proof -
  have "map_of opts k \<noteq> None \<Longrightarrow> map_of opts' k \<noteq> None" for k
    using assms(2) unfolding map_le_def by (metis domIff)
  with assms(1) show ?thesis unfolding section_ok_def by blast
qed

lemma add_route_ok:
  assumes "section_ok opts transport sec" and "optName = '''' \<or> map_of opts optName \<noteq> None" and "tr = '''' \<or> tr = transport"
  shows "section_ok opts transport (add_route matcher scheme tr args optName sec dp)"
proof -
  obtain domain port where dp: "dp = (domain, port)" by (rule prod.exhaust)
  show ?thesis
    using assms
    by (auto simp: section_ok_def add_route_def dp update_conv' routerTLS_def Let_def split: if_splits)
qed

lemma add_routes_ok:
  assumes "section_ok opts (ba_transport args) sec" and "optName = '''' \<or> map_of opts optName \<noteq> None"
  shows "section_ok opts (ba_transport args) (foldl (add_http args optName) sec dps)"
    and "section_ok opts (ba_transport args) (foldl (add_tcp args optName) sec dps)"
  using assms by (induction dps arbitrary: sec) (simp_all add: add_http_def add_tcp_def add_route_ok)

definition build_ok :: "build_args \<Rightarrow> build_state \<Rightarrow> bool" where
  "build_ok args bs \<longleftrightarrow> section_ok (bs_tls bs) (ba_transport args) (bs_http bs)
     \<and> section_ok (bs_tls bs) (ba_transport args) (bs_tcp bs)"

lemma build_snapshot_tls: "map_of (bs_tls bs) \<subseteq>\<^sub>m map_of (bs_tls (build_snapshot args bs snap))"
  using add_option_grows(1) [of "bs_tls bs" snap] by (simp add: build_snapshot_def split: prod.splits)

lemma build_snapshot_ok: "build_ok args bs \<Longrightarrow> build_ok args (build_snapshot args bs snap)"
proof -
  assume ok: "build_ok args bs"
  obtain optName opts where o: "add_option (bs_tls bs) snap = (optName, opts)" by (rule prod.exhaust)
  have "optName = '''' \<or> map_of opts optName \<noteq> None" using add_option_grows(2) [OF o] by blast
  moreover have "section_ok opts (ba_transport args) (bs_http bs)" "section_ok opts (ba_transport args) (bs_tcp bs)"
    using ok section_ok_mono [OF _ add_option_grows(1) [OF o]] by (simp_all add: build_ok_def)
  ultimately show ?thesis by (simp add: build_snapshot_def o build_ok_def add_routes_ok)
qed

lemma build_all_ok: "build_ok args bs \<Longrightarrow> build_ok args (foldl (build_snapshot args) bs snaps)"
  by (induction snaps arbitrary: bs) (simp_all add: build_snapshot_ok)

lemma build_all_tls: "map_of (bs_tls bs) \<subseteq>\<^sub>m map_of (bs_tls (foldl (build_snapshot args) bs snaps))"
proof (induction snaps arbitrary: bs)
  case (Cons snap snaps)
  show ?case using map_le_trans [OF build_snapshot_tls Cons.IH] by simp
qed simp

lemma build_all_options:
  assumes "snap \<in> set snaps" and "tlsOptionFor snap = (name, opt, True)"
  shows "\<exists>n. map_of (bs_tls (foldl (build_snapshot args) bs snaps)) n = Some opt"
proof -
  obtain xs ys where snaps: "snaps = xs @ snap # ys" using split_list [OF assms(1)] by blast
  let ?bs = "foldl (build_snapshot args) bs xs"
  obtain optName opts where o: "add_option (bs_tls ?bs) snap = (optName, opts)" by (rule prod.exhaust)
  have "map_of (bs_tls (build_snapshot args ?bs snap)) optName = Some opt"
    using add_option_grows(3) [OF o] assms(2) by (simp add: build_snapshot_def o)
  with build_all_tls [of "build_snapshot args ?bs snap" args ys] show ?thesis
    unfolding snaps map_le_def by (metis domIff foldl_Cons foldl_append option.distinct(1))
qed

text \<open>Looking a name up in the TLS options of a configuration.\<close>

definition cfg_option :: "TraefikConfig \<Rightarrow> string \<Rightarrow> TLSOption option" where
  "cfg_option cfg n = (case TLS_Options cfg of None \<Rightarrow> None | Some opts \<Rightarrow> map_of opts n)"

definition sections :: "TraefikConfig \<Rightarrow> config_section list" where
  "sections cfg = HTTP cfg # (case TCP cfg of None \<Rightarrow> [] | Some s \<Rightarrow> [s])"

lemma BuildConfig_parts:
  fixes snaps ph ep cr wh wp tt
  defines "cfg \<equiv> BuildConfig snaps ph ep cr wh wp tt" and "args \<equiv> config_args ph ep cr tt"
  defines "bs \<equiv> foldl (build_snapshot args) empty_build snaps"
  shows "cfg_option cfg = map_of (bs_tls bs)"
    and "HTTP cfg = (if wh \<noteq> '''' then add_http args '''' (bs_http bs) (wh, wp) else bs_http bs)"
    and "TCP cfg = Some sec \<Longrightarrow> sec = bs_tcp bs"
    and "ba_transport args = '''' \<or> map_of (ServersTransports cfg) (ba_transport args) \<noteq> None"
  by (auto simp: cfg_option_def BuildConfig_def Let_def fun_eq_iff cfg_def args_def bs_def config_args_def useTransport_def
      split: if_splits option.splits)

subsection \<open>Which host a router serves\<close>

lemma route_entry_printed:
  assumes "domain \<noteq> ''''" and "in_int64 (sn_ListenPort snap)"
  shows "route_entry snap (domain @ '':'' @ show_int (sn_ListenPort snap)) = Some (domain, sn_ListenPort snap)"
proof -
  have "CHR '':'' \<notin> set (show_int (sn_ListenPort snap))" by (rule show_int_no_char) simp_all
  then have "last_index (domain @ '':'' @ show_int (sn_ListenPort snap)) (CHR '':'') = int (length domain)"
    by (simp add: last_index_append)
  with assms show ?thesis by (cases domain) (simp_all add: route_entry_def atoi_show_int nat_add_distrib)
qed

text \<open>The router of this name, if there is one, serves this host at this address.\<close>

definition serves_host :: "string \<Rightarrow> string \<Rightarrow> build_args \<Rightarrow> string \<times> int \<Rightarrow> config_section \<Rightarrow> bool" where
  "serves_host matcher scheme args dp sec \<longleftrightarrow>
     (\<forall>r. map_of (Routers sec) (route_name (fst dp) (snd dp) @ ''-router'') = Some r \<longrightarrow>
        ro_Rule r = host_rule matcher (fst dp) \<and> ro_Service r = route_name (fst dp) (snd dp) @ ''-service''
        \<and> (\<exists>se. map_of (Services sec) (ro_Service r) = Some se
               \<and> se_Servers se = [scheme @ host_port (ba_proxyHost args) (snd dp)]))"

abbreviation has_router :: "string \<times> int \<Rightarrow> config_section \<Rightarrow> bool" where
  "has_router dp sec \<equiv> map_of (Routers sec) (route_name (fst dp) (snd dp) @ ''-router'') \<noteq> None"

abbreviation same_name :: "string \<times> int \<Rightarrow> string \<times> int \<Rightarrow> bool" where
  "same_name dp dq \<equiv> route_name (fst dp) (snd dp) = route_name (fst dq) (snd dq)"

lemma add_route_serves:
  assumes "serves_host matcher scheme args dp sec" and "same_name dq dp \<Longrightarrow> dq = dp"
  shows "serves_host matcher scheme args dp (add_route matcher scheme tr args optName sec dq)"
    and "has_router dp sec \<or> dq = dp \<Longrightarrow> has_router dp (add_route matcher scheme tr args optName sec dq)"
proof -
  obtain d p where dq: "dq = (d, p)" by (rule prod.exhaust)
  show "serves_host matcher scheme args dp (add_route matcher scheme tr args optName sec dq)"
    using assms by (auto simp: serves_host_def add_route_def dq update_conv' Let_def)
  show "has_router dp (add_route matcher scheme tr args optName sec dq)" if "has_router dp sec \<or> dq = dp"
    using that by (auto simp: add_route_def dq update_conv' Let_def)
qed

lemma add_http_routes_serve:
  assumes "serves_host ''Host'' ''http://'' args dp sec" and "\<And>dq. dq \<in> set dqs \<Longrightarrow> same_name dq dp \<Longrightarrow> dq = dp"
  shows "serves_host ''Host'' ''http://'' args dp (foldl (add_http args optName) sec dqs)
    \<and> (has_router dp sec \<or> dp \<in> set dqs \<longrightarrow> has_router dp (foldl (add_http args optName) sec dqs))"
  using assms
proof (induction dqs arbitrary: sec)
  case (Cons dq dqs)
  note one = add_route_serves [OF Cons.prems(1) Cons.prems(2) [OF list.set_intros(1)], where tr = "ba_transport args" and optName = optName]
  have "serves_host ''Host'' ''http://'' args dp (foldl (add_http args optName) (add_http args optName sec dq) dqs)
    \<and> (has_router dp (add_http args optName sec dq) \<or> dp \<in> set dqs
         \<longrightarrow> has_router dp (foldl (add_http args optName) (add_http args optName sec dq) dqs))"
    by (rule Cons.IH) (use one Cons.prems(2) in \<open>simp_all add: add_http_def\<close>)
  then show ?case using one(2) by (auto simp: add_http_def)
qed simp

text \<open>The hosts the snapshots ask for, by domain and port.\<close>

definition wanted_hosts :: "Snapshot list \<Rightarrow> (string \<times> int) set" where
  "wanted_hosts snaps = {dp. \<exists>snap \<in> set snaps. \<exists>entry \<in> set (sn_TraefikHosts snap). route_entry snap entry = Some dp}"

lemma set_map_filter_eq: "set (List.map_filter f xs) = {y. \<exists>x \<in> set xs. f x = Some y}"
  by (auto simp: map_filter_eq_concat split: option.splits)

lemma build_all_serve:
  assumes "serves_host ''Host'' ''http://'' args dp (bs_http bs)" and "\<And>dq. dq \<in> wanted_hosts snaps \<Longrightarrow> same_name dq dp \<Longrightarrow> dq = dp"
  shows "serves_host ''Host'' ''http://'' args dp (bs_http (foldl (build_snapshot args) bs snaps))
    \<and> (has_router dp (bs_http bs) \<or> dp \<in> wanted_hosts snaps
         \<longrightarrow> has_router dp (bs_http (foldl (build_snapshot args) bs snaps)))"
  using assms
proof (induction snaps arbitrary: bs)
  case Nil then show ?case by (simp add: wanted_hosts_def)
next
  case (Cons snap snaps)
  let ?dqs = "List.map_filter (route_entry snap) (sn_TraefikHosts snap)" and ?bs = "build_snapshot args bs snap"
  obtain optName opts where o: "add_option (bs_tls bs) snap = (optName, opts)" by (rule prod.exhaust)
  have w: "wanted_hosts (snap # snaps) = set ?dqs \<union> wanted_hosts snaps"
    by (auto simp: wanted_hosts_def set_map_filter_eq)
  have "serves_host ''Host'' ''http://'' args dp (bs_http ?bs) \<and> (has_router dp (bs_http bs) \<or> dp \<in> set ?dqs \<longrightarrow> has_router dp (bs_http ?bs))"
    using add_http_routes_serve [OF Cons.prems(1), of ?dqs optName] Cons.prems(2) by (simp add: build_snapshot_def o w)
  with Cons.IH [of ?bs] Cons.prems(2) show ?case by (simp add: w)
qed

subsection \<open>Properties\<close>

text \<open>A snapshot with one host and a minimum TLS version, for the witnesses.\<close>

definition demo_snap :: Snapshot where
  "demo_snap = \<lparr>sn_ListenPort = 80, sn_TraefikHosts = [''a.b'' @ '':'' @ show_int 80], sn_TraefikTCPHosts = [],
     sn_ALPNProtocols = [], sn_MinTLSVersion = ''1.2''\<rparr>"

lemma demo_route [simp]: "route_entry demo_snap (''a.b'' @ '':'' @ show_int 80) = Some (''a.b'', 80)"
  using route_entry_printed [of "''a.b''" demo_snap] by (simp add: demo_snap_def in_int64_def)

lemma demo_hosts [simp]: "sn_TraefikHosts demo_snap = [''a.b'' @ '':'' @ show_int 80]"
  by (simp add: demo_snap_def)

text \<open>
  \<open>sanitiseName\<close> returns an identifier Traefik accepts (lower-case letters, digits and single inner
  hyphens), whatever the bytes of its argument, and leaves such an identifier as it is.
\<close>

theorem sanitised_names_are_valid:
  "traefik_name (sanitiseName s) \<and> sanitiseName (sanitiseName s) = sanitiseName s"
  using sanitiseName_valid sanitiseName_fixed by simp

text \<open>
  C39: the search for a TLS option's name ends within one attempt more than there are options, and the
  name it finds is free or holds the very same option, so no snapshot's option is ever overwritten by a
  different one that sanitises alike.
\<close>

theorem option_name_search_ends:
  "\<exists>n. unique_from (Suc (length existing)) existing name opt name 2 = Some n \<and> uniqueOptionName existing name opt = n
     \<and> (map_of existing n = None \<or> map_of existing n = Some opt)"
  using unique_from_total [of existing name opt] uniqueOptionName_free [of existing name opt]
  by (auto simp: uniqueOptionName_def simp del: unique_from.simps)

text \<open>
  C27: the emitted configuration is closed: every service a router names exists in its section, every
  servers transport and TLS option that is referenced is defined, and the TLS option of each snapshot
  that needs one is among the options.
\<close>

theorem config_references_resolve:
  assumes "cfg = BuildConfig snaps proxyHost entryPoint certResolver webHost webPort timeouts"
    and "sec \<in> set (sections cfg)" and "map_of (Routers sec) k = Some r"
  shows "(\<exists>se. map_of (Services sec) (ro_Service r) = Some se
         \<and> (se_ServersTransport se = '''' \<or> map_of (ServersTransports cfg) (se_ServersTransport se) \<noteq> None))
    \<and> (\<forall>t. ro_TLS r = Some t \<longrightarrow> rt_Options t = '''' \<or> cfg_option cfg (rt_Options t) \<noteq> None)
    \<and> (\<forall>snap \<in> set snaps. \<forall>name opt. tlsOptionFor snap = (name, opt, True) \<longrightarrow> (\<exists>n. cfg_option cfg n = Some opt))"
proof -
  let ?args = "config_args proxyHost entryPoint certResolver timeouts"
  let ?bs = "foldl (build_snapshot ?args) empty_build snaps"
  note parts = BuildConfig_parts [where snaps = snaps and ph = proxyHost and ep = entryPoint and cr = certResolver and wh = webHost
      and wp = webPort and tt = timeouts, folded assms(1)]
  have "build_ok ?args ?bs" by (rule build_all_ok) (simp add: build_ok_def empty_build_def section_ok_empty)
  then have secs: "section_ok (bs_tls ?bs) (ba_transport ?args) (bs_http ?bs)" "section_ok (bs_tls ?bs) (ba_transport ?args) (bs_tcp ?bs)"
    by (simp_all add: build_ok_def)
  have "section_ok (bs_tls ?bs) (ba_transport ?args) sec"
  proof -
    consider "sec = HTTP cfg" | "TCP cfg = Some sec" using assms(2) by (auto simp: sections_def split: option.splits)
    then show ?thesis
      using secs add_routes_ok(1) [OF secs(1), of "''''" "[(webHost, webPort)]"] parts(2) parts(3) [of sec]
      by cases simp_all
  qed
  moreover have "\<exists>n. cfg_option cfg n = Some opt" if "snap \<in> set snaps" "tlsOptionFor snap = (name, opt, True)" for snap name opt
    unfolding parts(1) by (rule build_all_options [OF that])
  ultimately show ?thesis
    using assms(3) parts(4) unfolding section_ok_def parts(1) by (metis (no_types, lifting) not_None_eq)
qed

theorem config_references_resolve_witness:
  "\<exists>n. cfg_option (BuildConfig [demo_snap] ''proxy'' '''' '''' '''' 0 None) n
     = Some \<lparr>opt_AlpnProtocols = [], opt_MinVersion = ''VersionTLS12''\<rparr>"
proof -
  let ?cfg = "BuildConfig [demo_snap] ''proxy'' '''' '''' '''' 0 None"
  have "tlsOptionFor demo_snap = (''lazy-tls-min-'' @ sanitiseName ''1.2'',
      \<lparr>opt_AlpnProtocols = [], opt_MinVersion = ''VersionTLS12''\<rparr>, True)"
    by (simp add: tlsOptionFor_def demo_snap_def extra_protocols_def minVersionNames_def)
  moreover have "List.map_filter (route_entry demo_snap) (sn_TraefikHosts demo_snap) = [(''a.b'', 80)]"
    using demo_route by (simp add: List.map_filter_def del: append.simps)
  then have "\<exists>r. map_of (Routers (HTTP ?cfg)) (route_name ''a.b'' 80 @ ''-router'') = Some r"
    by (simp add: BuildConfig_def build_snapshot_def add_http_def add_route_def update_conv' Let_def split: prod.splits)
  moreover have "HTTP ?cfg \<in> set (sections ?cfg)" by (simp add: sections_def)
  ultimately show ?thesis using config_references_resolve [OF refl] by (metis list.set_intros(1))
qed

text \<open>
  Every host of a snapshot is routed: an entry \<open>domain:port\<close> with the snapshot's listen port has an
  HTTP router that matches exactly this domain, and its service sends to that port of the proxy, unless
  another wanted host (or the web endpoint's) sanitises to the same name.
\<close>

lemma every_host_is_routed:
  assumes "snap \<in> set snaps" and "domain @ '':'' @ show_int (sn_ListenPort snap) \<in> set (sn_TraefikHosts snap)"
    and "domain \<noteq> ''''" and "in_int64 (sn_ListenPort snap)"
    and "\<And>d p. (d, p) \<in> wanted_hosts snaps \<or> webHost \<noteq> '''' \<and> (d, p) = (webHost, webPort) \<Longrightarrow>
           route_name d p = route_name domain (sn_ListenPort snap) \<Longrightarrow> d = domain \<and> p = sn_ListenPort snap"
  shows "\<exists>r se. map_of (Routers (HTTP (BuildConfig snaps proxyHost ep cr webHost webPort timeouts)))
        (route_name domain (sn_ListenPort snap) @ ''-router'') = Some r
    \<and> ro_Rule r = host_rule ''Host'' domain
    \<and> map_of (Services (HTTP (BuildConfig snaps proxyHost ep cr webHost webPort timeouts))) (ro_Service r) = Some se
    \<and> se_Servers se = [''http://'' @ host_port proxyHost (sn_ListenPort snap)]"
proof -
  let ?args = "config_args proxyHost ep cr timeouts" and ?dp = "(domain, sn_ListenPort snap)"
  let ?bs = "foldl (build_snapshot ?args) empty_build snaps"
  let ?http = "HTTP (BuildConfig snaps proxyHost ep cr webHost webPort timeouts)"
  have "?dp \<in> wanted_hosts snaps"
    using assms(1,2) route_entry_printed [OF assms(3,4)] unfolding wanted_hosts_def by blast
  moreover have "serves_host ''Host'' ''http://'' ?args ?dp (bs_http empty_build)"
    by (simp add: serves_host_def empty_build_def empty_section_def)
  ultimately have all: "serves_host ''Host'' ''http://'' ?args ?dp (bs_http ?bs) \<and> has_router ?dp (bs_http ?bs)"
    using build_all_serve [of ?args ?dp empty_build snaps] assms(5) by fastforce
  have "serves_host ''Host'' ''http://'' ?args ?dp ?http \<and> has_router ?dp ?http"
  proof (cases "webHost = ''''")
    case False
    then have "dq = ?dp" if "dq \<in> set [(webHost, webPort)]" "same_name dq ?dp" for dq
      using that assms(5) by auto
    with add_http_routes_serve [of ?args ?dp "bs_http ?bs" "[(webHost, webPort)]" "''''"] all False
    show ?thesis by (simp add: BuildConfig_parts(2))
  qed (use all in \<open>simp add: BuildConfig_parts(2)\<close>)
  then show ?thesis by (auto simp: serves_host_def config_args_def)
qed

subsection \<open>Router names tell ports apart\<close>

lemma prefix_disjoint: "set u \<inter> set b = {} \<Longrightarrow> prefix u (a @ b) \<longleftrightarrow> prefix u a"
  by (auto simp: prefix_append) (metis Int_iff append_Nil2 empty_iff list.set_intros(1) neq_Nil_conv prefix_Cons prefix_def set_append Un_iff prefix_order.refl)

lemma name_chars_append: "list_all ident_char b \<Longrightarrow> name_chars (a @ b) = name_chars a @ b"
proof (induction "length a" arbitrary: a rule: less_induct)
  case less
  have no: "CHR 0x84 \<notin> set b" "CHR 0xAA \<notin> set b" "CHR 0xB0 \<notin> set b" "CHR 0xE2 \<notin> set b" "CHR 0xC4 \<notin> set b"
    using less.prems by (auto simp: list_all_iff ident_char_def between_def)
  show ?case
  proof (cases a)
    case Nil
    with less.prems show ?thesis by (simp add: name_chars_fixed name_chars.simps [of "[]"])
  next
    case (Cons c cs)
    have k: "prefix kelvin_sign (a @ b) \<longleftrightarrow> prefix kelvin_sign a" and i: "prefix dotted_I (a @ b) \<longleftrightarrow> prefix dotted_I a"
      using no by (auto intro!: prefix_disjoint simp: kelvin_sign_def dotted_I_def)
    have lens: "prefix kelvin_sign a \<Longrightarrow> 3 \<le> length a" "prefix dotted_I a \<Longrightarrow> 2 \<le> length a"
      by (auto dest!: prefix_length_le simp: kelvin_sign_def dotted_I_def)
    have ih: "name_chars (drop 3 a @ b) = name_chars (drop 3 a) @ b" "name_chars (drop 2 a @ b) = name_chars (drop 2 a) @ b"
      "name_chars (tl a @ b) = name_chars (tl a) @ b"
      using less.hyps [of "drop 3 a"] less.hyps [of "drop 2 a"] less.hyps [of "tl a"] less.prems by (simp_all add: Cons)
    have "a \<noteq> []" "a @ b \<noteq> []" by (simp_all add: Cons)
    then show ?thesis
      unfolding name_chars.simps [of "a @ b"] name_chars.simps [of a] k i using lens ih by simp
  qed
qed

lemma squeeze_Cons:
  "s \<noteq> [] \<Longrightarrow> squeeze (c # s) = (if c = CHR ''-'' \<and> hd s = CHR ''-'' then squeeze s else c # squeeze s)"
  by (cases s) auto

lemma squeeze_last_part:
  assumes "CHR ''-'' \<notin> set ds" "ds \<noteq> []"
  shows "\<exists>p. squeeze (x @ CHR ''-'' # ds) = p @ CHR ''-'' # ds"
proof (induction x)
  case Nil
  have "no_double (CHR ''-'' # ds)"
    using assms by (cases ds) (auto simp: no_double_def successively_conv_nth in_set_conv_nth nth_Cons')
  then have "squeeze (CHR ''-'' # ds) = CHR ''-'' # ds" by (rule squeeze_fixed)
  then show ?case by (intro exI [of _ "[]"]) simp
next
  case (Cons c x)
  then obtain p where p: "squeeze (x @ CHR ''-'' # ds) = p @ CHR ''-'' # ds" by blast
  have "squeeze (c # x @ CHR ''-'' # ds) \<in> {p @ CHR ''-'' # ds, c # p @ CHR ''-'' # ds}"
    by (simp add: squeeze_Cons p)
  then show ?case by (auto intro: exI [of _ p] exI [of _ "c # p"])
qed

lemma trim_hyphens_last_part:
  assumes "CHR ''-'' \<notin> set ds" "ds \<noteq> []"
  shows "\<exists>q. trim_hyphens (p @ CHR ''-'' # ds) = q @ ds \<and> (q = [] \<or> last q = CHR ''-'')"
proof -
  obtain l r where ds: "rev ds = l # r" "l \<noteq> CHR ''-''" using assms by (cases "rev ds") auto
  define t where "t = dropWhile (\<lambda>c. c = CHR ''-'') (p @ CHR ''-'' # ds)"
  have "\<exists>q. t = q @ ds \<and> (q = [] \<or> last q = CHR ''-'')"
  proof (cases "\<forall>c \<in> set p. c = CHR ''-''")
    case True
    then have "t = dropWhile (\<lambda>c. c = CHR ''-'') ds" by (simp add: t_def dropWhile_append)
    also have "\<dots> = ds" using assms by (cases ds) auto
    finally show ?thesis by (intro exI [of _ "[]"]) simp
  next
    case False
    then have "t = dropWhile (\<lambda>c. c = CHR ''-'') p @ CHR ''-'' # ds" by (auto simp: t_def dropWhile_append)
    then show ?thesis by (intro exI [of _ "dropWhile (\<lambda>c. c = CHR ''-'') p @ ''-''"]) simp
  qed
  then obtain q where q: "t = q @ ds" "q = [] \<or> last q = CHR ''-''" by blast
  have "dropWhile (\<lambda>c. c = CHR ''-'') (rev t) = rev t" using ds by (simp add: q)
  then have "trim_hyphens (p @ CHR ''-'' # ds) = t" by (simp add: trim_hyphens_def t_def)
  with q show ?thesis by blast
qed

text \<open>A router's name ends in its port.\<close>

lemma route_name_port:
  assumes "0 \<le> p" "0 \<le> q" "route_name d p = route_name e q"
  shows "p = q"
proof -
  have digits: "CHR ''-'' \<notin> set (show_int i)" "list_all ident_char (CHR ''-'' # show_int i)" if "0 \<le> i" for i
  proof -
    show "CHR ''-'' \<notin> set (show_int i)" using that show_nat_no_char by (simp add: show_int_def)
    show "list_all ident_char (CHR ''-'' # show_int i)"
      using that show_nat_digits [of "nat i"] by (auto simp: show_int_def list_all_iff ident_char_def between_def digit_char_def)
  qed
  have last_part: "\<exists>z. route_name d i = z @ show_int i \<and> (z = [] \<or> last z = CHR ''-'')" if i: "0 \<le> i" for d i
  proof -
    obtain x where "squeeze (name_chars d @ CHR ''-'' # show_int i) = x @ CHR ''-'' # show_int i"
      using squeeze_last_part [OF digits(1) [OF i]] by fastforce
    then have "route_name d i = trim_hyphens (x @ CHR ''-'' # show_int i)"
      using name_chars_append [OF digits(2) [OF i], of d] by (simp add: route_name_def sanitiseName_def)
    then show ?thesis using trim_hyphens_last_part [OF digits(1) [OF i]] by simp
  qed
  have port: "rev (takeWhile (\<lambda>c. c \<noteq> CHR ''-'') (rev (z @ show_int i))) = show_int i"
    if "0 \<le> i" "z = [] \<or> last z = CHR ''-''" for z i
  proof -
    have all: "\<forall>c \<in> set (rev (show_int i)). c \<noteq> CHR ''-''" using digits(1) [OF that(1)] by auto
    have "takeWhile (\<lambda>c. c \<noteq> CHR ''-'') (rev (show_int i) @ rev z) = rev (show_int i)"
      using all that(2) by (cases z rule: rev_cases) (auto simp: takeWhile_append)
    then show ?thesis by simp
  qed
  obtain y z where "route_name d p = y @ show_int p" "y = [] \<or> last y = CHR ''-''"
    "route_name e q = z @ show_int q" "z = [] \<or> last z = CHR ''-''"
    using last_part [OF assms(1), of d] last_part [OF assms(2), of e] by blast
  then have "show_int p = show_int q" using port [OF assms(1)] port [OF assms(2)] assms(3) by metis
  then show ?thesis using assms(1,2) show_nat_inj [of "nat p" "nat q"] by (simp add: show_int_def)
qed

end
