(* ===== verification/Config_Store.thy ===== *)
theory Config_Store
  imports Target_Handler Port_Alloc
begin

text \<open>
  \<open>internal/config/store.go\<close>: the YAML configuration file and its overlay over the discovered targets.
  The YAML library is a pair of parameters \<open>marshal\<close> and \<open>unmarshal\<close>, \<open>uri_ok\<close> is
  \<open>url.ParseRequestURI\<close> succeeding and \<open>cron_ok\<close> the five-field cron parser.
\<close>

subsection \<open>Data\<close>

record ServiceEntry =
  ce_Name :: string
  ce_Ports :: "string slice"
  ce_UDPPorts :: "string slice"
  ce_AllowList :: "string slice"
  ce_BlockList :: "string slice"
  ce_IdleTimeoutSecs :: "int option"
  ce_StartTimeoutSecs :: "int option"
  ce_WebhookURL :: string
  ce_Dependants :: "string slice"
  ce_CronStart :: string
  ce_CronStop :: string
  ce_HTTPHealthCheck :: string
  ce_TLS :: bool
  ce_APIKey :: "string slice"
  ce_BasicAuth :: "string slice"
  ce_Scale :: "int option"
  ce_TraefikHosts :: "string slice"
  ce_TraefikTCPHosts :: "string slice"
  ce_Availability :: string
  ce_ALPNProtocols :: "string slice"
  ce_MinVersion :: string

text \<open>The only field of \<open>DynamicConfig\<close> is its list of services.\<close>

type_synonym DynamicConfig = "ServiceEntry list"

text \<open>The port allocator is shared with the backend and passed along by the operations.\<close>

record Store =
  st_path :: string
  st_config :: DynamicConfig

definition New_Store :: "string \<Rightarrow> Store" where
  "New_Store path = \<lparr>st_path = path, st_config = []\<rparr>"

subsection \<open>The file\<close>

type_synonym disk = "string \<Rightarrow> string option"

datatype io_error = ReadFailed | ParseFailed | Invalid | MarshalFailed | WriteFailed | RenameFailed

text \<open>
  \<open>readable\<close> is false for a read error other than a missing file, \<open>writable\<close> says whether the placeholder
  could be created; the placeholder is the commented example of the source.
\<close>

definition Load ::
  "(string \<Rightarrow> DynamicConfig option) \<Rightarrow> string \<Rightarrow> bool \<Rightarrow> bool \<Rightarrow> disk \<Rightarrow> Store \<Rightarrow> disk \<times> Store \<times> io_error option" where
  "Load unmarshal placeholder readable writable d st =
     (if \<not> readable then (d, st, Some ReadFailed)
      else case d (st_path st) of
        None \<Rightarrow> ((if writable then d(st_path st \<mapsto> placeholder) else d), st\<lparr>st_config := []\<rparr>, None)
      | Some content \<Rightarrow>
          (case unmarshal content of
             None \<Rightarrow> (d, st, Some ParseFailed)
           | Some cfg \<Rightarrow> (d, st\<lparr>st_config := cfg\<rparr>, None)))"

definition entry_errors :: "(string \<Rightarrow> bool) \<Rightarrow> (string \<Rightarrow> bool) \<Rightarrow> ServiceEntry \<Rightarrow> string list" where
  "entry_errors uri_ok cron_ok e =
     (if ce_Name e = '''' then [''name''] else [])
     @ (if ce_CronStart e \<noteq> '''' \<and> \<not> cron_ok (ce_CronStart e) then [''cron_start''] else [])
     @ (if ce_CronStop e \<noteq> '''' \<and> \<not> cron_ok (ce_CronStop e) then [''cron_stop''] else [])
     @ (if ce_WebhookURL e \<noteq> '''' \<and> \<not> uri_ok (ce_WebhookURL e) then [''webhook_url''] else [])
     @ (if ce_Availability e \<in> {'''', ''ondemand'', ''cron'', ''manual''} then [] else [''availability''])"

definition validate :: "(string \<Rightarrow> bool) \<Rightarrow> (string \<Rightarrow> bool) \<Rightarrow> DynamicConfig \<Rightarrow> string list" where
  "validate uri_ok cron_ok cfg = concat (map (entry_errors uri_ok cron_ok) cfg)"

text \<open>
  \<open>write_result\<close> is what \<open>os.WriteFile\<close> made of the temporary file: everything, or an error after
  some part of it; \<open>os.Rename\<close> replaces the file in one step or leaves both as they are.
\<close>

definition Save ::
  "(string \<Rightarrow> bool) \<Rightarrow> (string \<Rightarrow> bool) \<Rightarrow> (DynamicConfig \<Rightarrow> string option) \<Rightarrow> string option option \<Rightarrow> bool
     \<Rightarrow> DynamicConfig \<Rightarrow> disk \<Rightarrow> Store \<Rightarrow> disk \<times> Store \<times> io_error option" where
  "Save uri_ok cron_ok marshal write_failed rename_ok cfg d st =
     (if validate uri_ok cron_ok cfg \<noteq> [] then (d, st, Some Invalid)
      else case marshal cfg of
        None \<Rightarrow> (d, st, Some MarshalFailed)
      | Some content \<Rightarrow>
          let tmp = st_path st @ ''.tmp'' in
          (case write_failed of
             Some left \<Rightarrow> (d(tmp := left), st, Some WriteFailed)
           | None \<Rightarrow>
               if \<not> rename_ok then (d(tmp \<mapsto> content), st, Some RenameFailed)
               else (d(st_path st \<mapsto> content, tmp := None), st\<lparr>st_config := cfg\<rparr>, None)))"

subsection \<open>Entries as targets\<close>

datatype entry_error = NoPortsDeclared | InvalidWebhook

definition entry_list :: "(string \<Rightarrow> 'a slice) \<Rightarrow> string slice \<Rightarrow> 'a slice" where
  "entry_list parse xs = (if elems xs \<noteq> [] then parse (join '','' (elems xs)) else None)"

definition entry_scale :: "ServiceEntry \<Rightarrow> int" where
  "entry_scale e = (case ce_Scale e of Some n \<Rightarrow> if n \<ge> 1 then n else 0 | None \<Rightarrow> 0)"

definition entryToTargetInfo ::
  "(string \<Rightarrow> bool) \<Rightarrow> PortAllocator option \<Rightarrow> ServiceEntry \<Rightarrow> PortAllocator option \<times> (entry_error + TargetInfo)" where
  "entryToTargetInfo uri_ok alloc e =
     (let ports = entry_list ParsePortMappings (ce_Ports e);
          udp = entry_list ParsePortMappings (ce_UDPPorts e);
          hs = concat (map ParseTraefikHostSpecs (elems (ce_TraefikHosts e)));
          ths = concat (map ParseTraefikHostSpecs (elems (ce_TraefikTCPHosts e))) in
      if elems ports = [] \<and> elems udp = [] \<and> hs = [] \<and> ths = [] then (alloc, Inl NoPortsDeclared)
      else if ce_WebhookURL e \<noteq> '''' \<and> \<not> uri_ok (ce_WebhookURL e) then (alloc, Inl InvalidWebhook)
      else
        (case alloc_hosts alloc ports udp hs ths of (alloc', ports', hosts, thosts) \<Rightarrow>
          (alloc', Inr (zero_info
             \<lparr>ContainerName := ce_Name e,
              Ports := ports',
              UDPPorts := udp,
              AllowList := entry_list ParseIPList (ce_AllowList e),
              BlockList := entry_list ParseIPList (ce_BlockList e),
              IdleTimeout := map_option secs (ce_IdleTimeoutSecs e),
              StartTimeout := map_option secs (ce_StartTimeoutSecs e),
              WebhookURL := ce_WebhookURL e,
              Dependants := ce_Dependants e,
              CronStart := ce_CronStart e,
              CronStop := ce_CronStop e,
              HTTPHealthCheck := ce_HTTPHealthCheck e,
              TLS := ce_TLS e,
              APIKey := ce_APIKey e,
              BasicAuth := ce_BasicAuth e,
              TraefikHosts := hosts,
              TraefikTCPHosts := thosts,
              Availability := ParseAvailabilityLabel (ce_Availability e),
              ALPNProtocols := ParseALPNProtocols (elems (ce_ALPNProtocols e)),
              MinTLSVersion := ParseMinTLSVersion (ce_MinVersion e),
              DesiredReplicas := entry_scale e\<rparr>))))"

subsection \<open>The overlay\<close>

text \<open>\<open>byName\<close>: the last index with a name.\<close>

definition by_name :: "TargetInfo list \<Rightarrow> string \<Rightarrow> nat option" where
  "by_name ts = foldl (\<lambda>m i. m(ContainerName (ts ! i) \<mapsto> i)) Map.empty [0..<length ts]"

text \<open>The fields of a target that belong to the backend.\<close>

definition with_backend_fields :: "TargetInfo \<Rightarrow> TargetInfo \<Rightarrow> TargetInfo" where
  "with_backend_fields t info =
     info\<lparr>ContainerID := ContainerID t, NetworkIDs := NetworkIDs t, Running := Running t,
          HasHealthCheck := HasHealthCheck t, DesiredReplicas := DesiredReplicas t\<rparr>"

type_synonym overlay = "PortAllocator option \<times> TargetInfo list \<times> (string \<times> entry_error) list"

definition apply_entry ::
  "(string \<Rightarrow> bool) \<Rightarrow> TargetInfo list \<Rightarrow> (string \<Rightarrow> string) \<Rightarrow> overlay \<Rightarrow> ServiceEntry \<Rightarrow> overlay" where
  "apply_entry uri_ok discovered defaultID st e =
     (case st of (alloc, result, errs) \<Rightarrow>
      case entryToTargetInfo uri_ok alloc e of
        (alloc', Inl err) \<Rightarrow> (alloc', result, errs @ [(ce_Name e, err)])
      | (alloc', Inr info) \<Rightarrow>
          (case by_name discovered (ce_Name e) of
             Some i \<Rightarrow> (alloc', result[i := with_backend_fields (discovered ! i) info], errs)
           | None \<Rightarrow> (alloc', result @ [info\<lparr>ContainerID := defaultID (ce_Name e)\<rparr>], errs)))"

definition Apply ::
  "(string \<Rightarrow> bool) \<Rightarrow> Store \<Rightarrow> PortAllocator option \<Rightarrow> TargetInfo list \<Rightarrow> (string \<Rightarrow> string) \<Rightarrow> overlay" where
  "Apply uri_ok st alloc discovered defaultID =
     foldl (apply_entry uri_ok discovered defaultID) (alloc, discovered, []) (st_config st)"

subsection \<open>The collector in front of discovery\<close>

type_synonym TargetCollector = "TargetInfo list"

definition collect :: "TargetCollector \<Rightarrow> handler_call \<Rightarrow> TargetCollector" where
  "collect c call = (case call of HRegister info \<Rightarrow> c @ [info] | _ \<Rightarrow> c)"

definition Targets :: "TargetCollector \<Rightarrow> TargetInfo list" where
  "Targets c = c"

lemma entryToTargetInfo_grows: "alloc_grows alloc (fst (entryToTargetInfo uri_ok alloc e))"
  using alloc_hosts_grows by (auto simp: entryToTargetInfo_def Let_def split: prod.splits)

lemma entryToTargetInfo_name:
  "entryToTargetInfo uri_ok alloc e = (alloc', Inr info) \<Longrightarrow> ContainerName info = ce_Name e \<and> DesiredReplicas info = entry_scale e"
  by (auto simp: entryToTargetInfo_def Let_def split: prod.splits if_splits)

lemma Apply_grows: "alloc_grows alloc (fst (Apply uri_ok st alloc discovered defaultID))"
proof -
  have "alloc_grows (fst s) (fst (apply_entry uri_ok discovered defaultID s e))" for s e
    using entryToTargetInfo_grows [of "fst s" uri_ok e]
    by (auto simp: apply_entry_def split: prod.splits sum.splits option.splits)
  from alloc_grows_fold [of "apply_entry uri_ok discovered defaultID", OF this, of "(alloc, discovered, [])"]
  show ?thesis by (simp add: Apply_def)
qed

subsection \<open>The overlay keeps identities\<close>

lemma by_name_spec:
  "(by_name ts n = None \<longrightarrow> n \<notin> ContainerName ` set ts)
   \<and> (\<forall>i. by_name ts n = Some i \<longrightarrow> i < length ts \<and> ContainerName (ts ! i) = n)"
proof -
  have "(foldl (\<lambda>m i. m(ContainerName (ts ! i) \<mapsto> i)) Map.empty [0..<k]) n = None
      \<longrightarrow> (\<forall>i < k. ContainerName (ts ! i) \<noteq> n)"
    and "(foldl (\<lambda>m i. m(ContainerName (ts ! i) \<mapsto> i)) Map.empty [0..<k]) n = Some i
      \<longrightarrow> i < k \<and> ContainerName (ts ! i) = n" for k i
    by (induction k) (auto simp: less_Suc_eq split: if_splits)
  from this [of "length ts"] show ?thesis by (auto simp: by_name_def in_set_conv_nth)
qed

text \<open>What the overlay must not change of a discovered target.\<close>

definition same_identity :: "TargetInfo \<Rightarrow> TargetInfo \<Rightarrow> bool" where
  "same_identity t t' \<longleftrightarrow> ContainerID t' = ContainerID t \<and> ContainerName t' = ContainerName t \<and> NetworkIDs t' = NetworkIDs t
     \<and> Running t' = Running t \<and> HasHealthCheck t' = HasHealthCheck t"

lemma same_identity_refl [simp]: "same_identity t t"
  by (simp add: same_identity_def)

definition overlay_ok :: "DynamicConfig \<Rightarrow> TargetInfo list \<Rightarrow> (string \<Rightarrow> string) \<Rightarrow> TargetInfo list \<Rightarrow> bool" where
  "overlay_ok cfg discovered defaultID result \<longleftrightarrow>
     length discovered \<le> length result
     \<and> (\<forall>i < length discovered. same_identity (discovered ! i) (result ! i)
          \<and> DesiredReplicas (result ! i) = DesiredReplicas (discovered ! i)
          \<and> (ContainerName (discovered ! i) \<notin> ce_Name ` set cfg \<longrightarrow> result ! i = discovered ! i))
     \<and> (\<forall>i < length result. length discovered \<le> i \<longrightarrow>
          (\<exists>e \<in> set cfg. ContainerName (result ! i) = ce_Name e \<and> ContainerID (result ! i) = defaultID (ce_Name e)
             \<and> DesiredReplicas (result ! i) = entry_scale e \<and> ce_Name e \<notin> ContainerName ` set discovered))"

lemma apply_entry_ok:
  assumes "overlay_ok cfg discovered defaultID result" and "e \<in> set cfg"
  shows "overlay_ok cfg discovered defaultID (fst (snd (apply_entry uri_ok discovered defaultID (alloc, result, errs) e)))"
proof (cases "entryToTargetInfo uri_ok alloc e")
  case conv: (Pair alloc' r)
  show ?thesis
  proof (cases r)
    case (Inl err)
    with assms conv show ?thesis by (simp add: apply_entry_def)
  next
    case (Inr info)
    note name = entryToTargetInfo_name [OF conv [unfolded Inr]]
    show ?thesis
    proof (cases "by_name discovered (ce_Name e)")
      case None
      then have "ce_Name e \<notin> ContainerName ` set discovered" using by_name_spec by blast
      with assms conv Inr None name show ?thesis
        by (auto simp: apply_entry_def overlay_ok_def nth_append less_Suc_eq)
    next
      case (Some i)
      then have "i < length discovered" "ContainerName (discovered ! i) = ce_Name e" using by_name_spec by blast+
      with assms(1) imageI [OF assms(2), of ce_Name] conv Inr Some name show ?thesis
        by (auto simp: apply_entry_def overlay_ok_def nth_list_update same_identity_def with_backend_fields_def)
    qed
  qed
qed

lemma Apply_ok: "overlay_ok (st_config st) discovered defaultID (fst (snd (Apply uri_ok st alloc discovered defaultID)))"
proof -
  have "overlay_ok (st_config st) discovered defaultID (fst (snd (foldl (apply_entry uri_ok discovered defaultID) ov es)))"
    if "set es \<subseteq> set (st_config st)" "overlay_ok (st_config st) discovered defaultID (fst (snd ov))" for es ov
    using that
  proof (induction es arbitrary: ov)
    case (Cons e es)
    obtain a r x where ov: "ov = (a, r, x)" by (rule prod_cases3)
    show ?case
      using Cons.IH [OF _ apply_entry_ok [of "st_config st" discovered defaultID r e uri_ok a x]] Cons.prems by (simp add: ov)
  qed simp
  from this [of "st_config st" "(alloc, discovered, [])"] show ?thesis
    by (simp add: Apply_def overlay_ok_def same_identity_def)
qed

subsection \<open>The collector\<close>

definition collected_ids :: "TargetCollector \<Rightarrow> string set" where
  "collected_ids c = ContainerID ` set c"

interpretation col: target_sink collect collected_ids "\<lambda>_. True"
  by unfold_locales (auto simp: collect_def collected_ids_def)

lemma collect_all: "foldl collect c calls = c @ registered calls"
proof (induction calls arbitrary: c)
  case (Cons call calls)
  then show ?case by (cases call) (simp_all add: collect_def)
qed simp

subsection \<open>Properties\<close>

text \<open>One entry and one discovered container, for the witnesses.\<close>

definition demo_entry :: ServiceEntry where
  "demo_entry =
     \<lparr>ce_Name = ''db'', ce_Ports = Some [''5432:5432''], ce_UDPPorts = None, ce_AllowList = None, ce_BlockList = None,
      ce_IdleTimeoutSecs = Some 60, ce_StartTimeoutSecs = None, ce_WebhookURL = '''', ce_Dependants = None,
      ce_CronStart = '''', ce_CronStop = '''', ce_HTTPHealthCheck = '''', ce_TLS = False, ce_APIKey = None,
      ce_BasicAuth = None, ce_Scale = None, ce_TraefikHosts = Some [], ce_TraefikTCPHosts = None,
      ce_Availability = '''', ce_ALPNProtocols = None, ce_MinVersion = ''''\<rparr>"


text \<open>
  The witness encodes a configuration by the names of its entries, one on a line, and decodes a line to
  an entry with that name and one port: the encoding is not inverted, and the file still loads.
\<close>

definition names_file :: "DynamicConfig \<Rightarrow> string option" where
  "names_file cfg = Some (join [CHR 0x0A] (map ce_Name cfg))"

definition read_names :: "string \<Rightarrow> DynamicConfig option" where
  "read_names s = Some (map (\<lambda>n. demo_entry\<lparr>ce_Name := n, ce_IdleTimeoutSecs := None\<rparr>) (split_on (CHR 0x0A) s))"


subsection \<open>What an entry contributes\<close>

text \<open>An entry that converts, and a target that has the configuration of an entry.\<close>

definition entry_valid :: "(string \<Rightarrow> bool) \<Rightarrow> ServiceEntry \<Rightarrow> bool" where
  "entry_valid uri_ok e \<longleftrightarrow>
     (elems (entry_list ParsePortMappings (ce_Ports e)) \<noteq> [] \<or> elems (entry_list ParsePortMappings (ce_UDPPorts e)) \<noteq> []
       \<or> concat (map ParseTraefikHostSpecs (elems (ce_TraefikHosts e))) \<noteq> []
       \<or> concat (map ParseTraefikHostSpecs (elems (ce_TraefikTCPHosts e))) \<noteq> [])
     \<and> (ce_WebhookURL e = '''' \<or> uri_ok (ce_WebhookURL e))"

definition configured_as :: "ServiceEntry \<Rightarrow> TargetInfo \<Rightarrow> bool" where
  "configured_as e t \<longleftrightarrow>
     ContainerName t = ce_Name e
     \<and> set (elems (entry_list ParsePortMappings (ce_Ports e))) \<subseteq> set (elems (Ports t))
     \<and> UDPPorts t = entry_list ParsePortMappings (ce_UDPPorts e)
     \<and> AllowList t = entry_list ParseIPList (ce_AllowList e)
     \<and> BlockList t = entry_list ParseIPList (ce_BlockList e)
     \<and> IdleTimeout t = map_option secs (ce_IdleTimeoutSecs e)
     \<and> StartTimeout t = map_option secs (ce_StartTimeoutSecs e)
     \<and> WebhookURL t = ce_WebhookURL e \<and> Dependants t = ce_Dependants e
     \<and> CronStart t = ce_CronStart e \<and> CronStop t = ce_CronStop e
     \<and> HTTPHealthCheck t = ce_HTTPHealthCheck e \<and> TLS t = ce_TLS e
     \<and> APIKey t = ce_APIKey e \<and> BasicAuth t = ce_BasicAuth e
     \<and> Availability t = ParseAvailabilityLabel (ce_Availability e)
     \<and> ALPNProtocols t = ParseALPNProtocols (elems (ce_ALPNProtocols e))
     \<and> MinTLSVersion t = ParseMinTLSVersion (ce_MinVersion e)"

lemma entryToTargetInfo_cases:
  obtains (invalid) err where "\<not> entry_valid uri_ok e" "entryToTargetInfo uri_ok alloc e = (alloc, Inl err)"
  | (valid) alloc' info where "entry_valid uri_ok e" "entryToTargetInfo uri_ok alloc e = (alloc', Inr info)" "configured_as e info"
proof -
  let ?p = "entry_list ParsePortMappings (ce_Ports e)" and ?u = "entry_list ParsePortMappings (ce_UDPPorts e)"
  let ?h = "concat (map ParseTraefikHostSpecs (elems (ce_TraefikHosts e)))"
  let ?t = "concat (map ParseTraefikHostSpecs (elems (ce_TraefikTCPHosts e)))"
  obtain a' p' h t where a: "alloc_hosts alloc ?p ?u ?h ?t = (a', p', h, t)" by (rule prod_cases4)
  show ?thesis
  proof (cases "entry_valid uri_ok e")
    case True
    with a alloc_hosts_ports [OF a] show ?thesis
      by (intro valid [OF True])
        (auto simp: entryToTargetInfo_def Let_def entry_valid_def configured_as_def)
  next
    case False
    then show ?thesis
      by (intro invalid [OF False, of "if elems ?p = [] \<and> elems ?u = [] \<and> ?h = [] \<and> ?t = [] then NoPortsDeclared else InvalidWebhook"])
        (auto simp: entryToTargetInfo_def Let_def entry_valid_def)
  qed
qed

lemma configured_as_fields:
  "configured_as e (with_backend_fields d info) \<longleftrightarrow> configured_as e info"
  "configured_as e (info\<lparr>ContainerID := c\<rparr>) \<longleftrightarrow> configured_as e info"
  by (simp_all add: configured_as_def with_backend_fields_def)

text \<open>
  One step of the overlay on the list: an entry that converts is written over the discovered target
  of its name or added under the default identifier, and any other entry changes nothing.
\<close>

lemma apply_entry_list:
  obtains (skipped) "\<not> entry_valid uri_ok e" "fst (snd (apply_entry uri_ok discovered defaultID (alloc, rs, errs) e)) = rs"
  | (replaced) i t where "entry_valid uri_ok e" "i < length discovered" "ContainerName (discovered ! i) = ce_Name e"
      "by_name discovered (ce_Name e) = Some i"
      "fst (snd (apply_entry uri_ok discovered defaultID (alloc, rs, errs) e)) = rs[i := t]"
      "configured_as e t" "same_identity (discovered ! i) t"
  | (added) t where "entry_valid uri_ok e" "ce_Name e \<notin> ContainerName ` set discovered"
      "fst (snd (apply_entry uri_ok discovered defaultID (alloc, rs, errs) e)) = rs @ [t]"
      "configured_as e t" "ContainerID t = defaultID (ce_Name e)"
proof (cases rule: entryToTargetInfo_cases [of uri_ok e alloc])
  case (invalid err)
  then show ?thesis by (intro skipped) (simp_all add: apply_entry_def)
next
  case (valid alloc' info)
  show ?thesis
  proof (cases "by_name discovered (ce_Name e)")
    case None
    with valid by_name_spec [of discovered "ce_Name e"] show ?thesis
      by (intro added [of "info\<lparr>ContainerID := defaultID (ce_Name e)\<rparr>"]) (simp_all add: apply_entry_def configured_as_fields)
  next
    case (Some i)
    with by_name_spec [of discovered "ce_Name e"]
    have i: "i < length discovered" "ContainerName (discovered ! i) = ce_Name e" by blast+
    have "same_identity (discovered ! i) (with_backend_fields (discovered ! i) info)"
      using i(2) valid(3) by (simp add: same_identity_def with_backend_fields_def configured_as_def)
    with i Some valid show ?thesis
      by (intro replaced [of i "with_backend_fields (discovered ! i) info"]) (simp_all add: apply_entry_def configured_as_fields)
  qed
qed
text \<open>
  The list the overlay makes of the entries \<open>es\<close> of a configuration: where it differs from
  discovery a converted entry is the reason, and an entry whose name no other entry has is found
  in it, over the discovered target of its name or added.
\<close>

definition overlay_applied ::
  "(string \<Rightarrow> bool) \<Rightarrow> DynamicConfig \<Rightarrow> TargetInfo list \<Rightarrow> (string \<Rightarrow> string) \<Rightarrow> ServiceEntry set \<Rightarrow> TargetInfo list \<Rightarrow> bool" where
  "overlay_applied uri_ok cfg discovered defaultID es result \<longleftrightarrow>
     (\<forall>t \<in> set result. t \<in> set discovered \<or> (\<exists>e \<in> es. entry_valid uri_ok e \<and> configured_as e t))
     \<and> (\<forall>e \<in> es. entry_valid uri_ok e \<and> (\<forall>f \<in> set cfg. ce_Name f = ce_Name e \<longrightarrow> f = e) \<longrightarrow>
          (\<exists>t. configured_as e t
            \<and> (case by_name discovered (ce_Name e) of
                 Some i \<Rightarrow> i < length result \<and> t = result ! i \<and> same_identity (discovered ! i) t
               | None \<Rightarrow> t \<in> set (drop (length discovered) result) \<and> ContainerID t = defaultID (ce_Name e))))"

lemma in_set_list_update: "t \<in> set (xs[i := u]) \<Longrightarrow> t = u \<or> t \<in> set xs"
  using set_update_subset_insert [of xs i u] by blast

lemma overlay_applied_step:
  assumes ok: "overlay_applied uri_ok cfg discovered defaultID es rs" and "e \<in> set cfg"
    and len: "length discovered \<le> length rs" and es: "es \<subseteq> set cfg"
  shows "overlay_applied uri_ok cfg discovered defaultID (insert e es)
    (fst (snd (apply_entry uri_ok discovered defaultID (alloc, rs, errs) e)))"
  (is "overlay_applied _ _ _ _ _ ?rs")
proof -
  let ?found = "\<lambda>rs x t. configured_as x t
            \<and> (case by_name discovered (ce_Name x) of
                 Some i \<Rightarrow> i < length rs \<and> t = rs ! i \<and> same_identity (discovered ! i) t
               | None \<Rightarrow> t \<in> set (drop (length discovered) rs) \<and> ContainerID t = defaultID (ce_Name x))"
  have old: "\<exists>t. ?found rs x t" if "x \<in> es" "entry_valid uri_ok x" "\<forall>f \<in> set cfg. ce_Name f = ce_Name x \<longrightarrow> f = x" for x
    using ok that unfolding overlay_applied_def by blast
  have src: "t \<in> set discovered \<or> (\<exists>x \<in> es. entry_valid uri_ok x \<and> configured_as x t)" if "t \<in> set rs" for t
    using ok that unfolding overlay_applied_def by blast
  show ?thesis
  proof (cases rule: apply_entry_list [of uri_ok e discovered defaultID alloc rs errs])
    case skipped
    then show ?thesis using ok unfolding overlay_applied_def skipped(2) by blast
  next
    case (replaced i t)
    have "\<exists>u. ?found ?rs x u" if x: "x \<in> insert e es" "entry_valid uri_ok x" "\<forall>f \<in> set cfg. ce_Name f = ce_Name x \<longrightarrow> f = x" for x
    proof (cases "ce_Name x = ce_Name e")
      case True
      then have "x = e" using bspec [OF x(3) assms(2)] by simp
      have "?found ?rs e t" unfolding replaced(5) using replaced(2,4,6,7) len by simp
      with \<open>x = e\<close> show ?thesis by blast
    next
      case False
      with x have "x \<in> es" by blast
      with old x obtain u where u: "?found rs x u" by blast
      have "by_name discovered (ce_Name x) \<noteq> Some i" using by_name_spec [of discovered "ce_Name x"] replaced(3) False by auto
      with u have "?found ?rs x u" unfolding replaced(5) using replaced(2)
        by (cases "by_name discovered (ce_Name x)") (auto simp: drop_update_cancel)
      then show ?thesis by blast
    qed
    moreover have "u \<in> set discovered \<or> (\<exists>x \<in> insert e es. entry_valid uri_ok x \<and> configured_as x u)" if "u \<in> set ?rs" for u
      using that src [of u] replaced(1,6) in_set_list_update [of u rs i t] unfolding replaced(5) by blast
    ultimately show ?thesis unfolding overlay_applied_def by blast
  next
    case (added t)
    have none: "by_name discovered (ce_Name e) = None" using by_name_spec [of discovered "ce_Name e"] added(2)
      by (cases "by_name discovered (ce_Name e)") (simp, metis imageI nth_mem)
    have "\<exists>u. ?found ?rs x u" if x: "x \<in> insert e es" "entry_valid uri_ok x" "\<forall>f \<in> set cfg. ce_Name f = ce_Name x \<longrightarrow> f = x" for x
    proof (cases "x = e")
      case True
      have "?found ?rs e t" unfolding added(3) using added(4,5) none len by simp
      with True show ?thesis by blast
    next
      case False
      with old x obtain u where u: "?found rs x u" by blast
      then have "?found ?rs x u" unfolding added(3)
        by (cases "by_name discovered (ce_Name x)") (auto simp: nth_append)
      then show ?thesis by blast
    qed
    moreover have "u \<in> set discovered \<or> (\<exists>x \<in> insert e es. entry_valid uri_ok x \<and> configured_as x u)" if "u \<in> set ?rs" for u
      using that src [of u] added(1,4) unfolding added(3) by auto
    ultimately show ?thesis unfolding overlay_applied_def by blast
  qed
qed

lemma Apply_applied:
  assumes "Apply uri_ok st alloc discovered defaultID = (alloc', result, errs)"
  shows "overlay_applied uri_ok (st_config st) discovered defaultID (set (st_config st)) result"
proof -
  let ?ov = "\<lambda>es. foldl (apply_entry uri_ok discovered defaultID) (alloc, discovered, []) es"
  have "overlay_applied uri_ok (st_config st) discovered defaultID (set es) (fst (snd (?ov es)))
      \<and> length discovered \<le> length (fst (snd (?ov es)))"
    if "set es \<subseteq> set (st_config st)" for es
    using that
  proof (induction es rule: rev_induct)
    case (snoc e es)
    obtain a rs x where ov: "?ov es = (a, rs, x)" by (rule prod_cases3)
    with snoc have "overlay_applied uri_ok (st_config st) discovered defaultID (set es) rs" "length discovered \<le> length rs"
      "e \<in> set (st_config st)" "set es \<subseteq> set (st_config st)" by auto
    moreover from this(2) have "length discovered \<le> length (fst (snd (apply_entry uri_ok discovered defaultID (a, rs, x) e)))"
      by (cases rule: apply_entry_list [of uri_ok e discovered defaultID a rs x]) simp_all
    ultimately show ?case using overlay_applied_step [of uri_ok "st_config st" discovered defaultID "set es" rs e a x] ov by simp
  qed (simp add: overlay_applied_def)
  from this [of "st_config st"] assms show ?thesis by (simp add: Apply_def)
qed


text \<open>
  The replica count of a discovered target is the backend's: the \<open>scale\<close> of an entry counts for
  added targets only, although the requirements let it override the label.
\<close>

theorem overlay_ignores_scale:
  assumes "Apply uri_ok st alloc discovered defaultID = (alloc', result, errs)"
  shows "\<forall>i < length discovered. DesiredReplicas (result ! i) = DesiredReplicas (discovered ! i)"
  using Apply_ok [of st discovered defaultID uri_ok alloc] assms unfolding overlay_ok_def by simp

lemma demo_entry_ports: "entry_list ParsePortMappings (ce_Ports demo_entry) = Some [\<lparr>ListenPort = 5432, TargetPort = 5432\<rparr>]"
proof -
  have "join '','' (map show_mapping [\<lparr>ListenPort = 5432, TargetPort = 5432\<rparr>]) = ''5432:5432''"
    by (simp add: show_mapping_def show_eval)
  with port_mappings_roundtrip [of "[\<lparr>ListenPort = 5432, TargetPort = 5432\<rparr>]"]
  have "ParsePortMappings ''5432:5432'' = Some [\<lparr>ListenPort = 5432, TargetPort = 5432\<rparr>]"
    by (simp add: mapping_in_range_def in_int64_def appended_def)
  then show ?thesis by (simp add: entry_list_def demo_entry_def)
qed

lemma demo_entry_valid: "entry_valid (\<lambda>_. True) demo_entry"
  by (simp add: entry_valid_def demo_entry_ports)


end
