(* ===== verification/Reload.thy ===== *)
theory Reload
  imports Config_Store K8s_Backend
begin

text \<open>
  \<open>main.go\<close> and \<open>internal/admin/server.go\<close>: how a (re)load of the configuration drives discovery, the
  overlay, the backend and the server, and the administration requests that trigger it. A backend is a record of the operations \<open>main.go\<close>
  uses, filled in for Docker and for Kubernetes.
\<close>

subsection \<open>Backends\<close>

record 'b backendManager =
  bm_Discover :: "PortAllocator option \<Rightarrow> 'b \<Rightarrow> (PortAllocator option \<times> 'b \<times> handler_call list) option"
  bm_DiscoverServices :: "PortAllocator option \<Rightarrow> 'b \<Rightarrow> (PortAllocator option \<times> 'b \<times> handler_call list) option"
  bm_DefaultTargetID :: "'b \<Rightarrow> string \<Rightarrow> string"
  bm_NotifyTargets :: "TargetInfo list \<Rightarrow> 'b \<Rightarrow> 'b"
  bm_JoinNetworksForContainerNames :: "string list \<Rightarrow> 'b \<Rightarrow> 'b"
  bm_InspectRunning :: "'b \<Rightarrow> string \<Rightarrow> (bool \<times> bool) option"
  bm_SetConfigOnlyNames :: "(string \<times> string) list \<Rightarrow> 'b \<Rightarrow> 'b"

text \<open>What the API answers to the listings is an argument.\<close>

definition docker_backend ::
  "(string \<Rightarrow> bool) \<Rightarrow> (string \<Rightarrow> bool) \<Rightarrow> string list option \<Rightarrow> bool option \<Rightarrow> Service list option \<Rightarrow> 'd Manager backendManager" where
  "docker_backend uri_ok cron_ok listed active services =
     \<lparr>bm_Discover = Discover uri_ok cron_ok listed,
      bm_DiscoverServices = DiscoverServices uri_ok cron_ok active services,
      bm_DefaultTargetID = (\<lambda>_. DefaultTargetID),
      bm_NotifyTargets = NotifyTargets,
      bm_JoinNetworksForContainerNames = JoinNetworksForContainerNames,
      bm_InspectRunning = InspectRunning,
      bm_SetConfigOnlyNames = SetConfigOnlyNames\<rparr>"

definition k8s_backend :: "(string \<Rightarrow> bool) \<Rightarrow> (string \<Rightarrow> bool) \<Rightarrow> Deployment list option \<Rightarrow> 'd Backend backendManager" where
  "k8s_backend uri_ok cron_ok listed =
     \<lparr>bm_Discover = k8s_Discover uri_ok cron_ok listed,
      bm_DiscoverServices = (\<lambda>alloc b. Some (alloc, b, [])),
      bm_DefaultTargetID = k8s_DefaultTargetID,
      bm_NotifyTargets = (\<lambda>_ b. b),
      bm_JoinNetworksForContainerNames = (\<lambda>_ b. b),
      bm_InspectRunning = (\<lambda>_ _. Some (False, True)),
      bm_SetConfigOnlyNames = (\<lambda>_ b. b)\<rparr>"

subsection \<open>Discovery and overlay\<close>

type_synonym 'b discovered = "PortAllocator option \<times> 'b \<times> TargetInfo list"

text \<open>Both discoveries into one collector; an error of the second is only logged.\<close>

definition discover_all :: "'b backendManager \<Rightarrow> PortAllocator option \<Rightarrow> 'b \<Rightarrow> 'b discovered option" where
  "discover_all ops alloc b =
     (case bm_Discover ops alloc b of
        None \<Rightarrow> None
      | Some (alloc1, b1, calls1) \<Rightarrow>
          (case bm_DiscoverServices ops alloc1 b1 of
             None \<Rightarrow> Some (alloc1, b1, Targets (foldl collect [] calls1))
           | Some (alloc2, b2, calls2) \<Rightarrow> Some (alloc2, b2, Targets (foldl collect (foldl collect [] calls1) calls2))))"

definition inspect_target :: "'b backendManager \<Rightarrow> 'b \<Rightarrow> string set \<Rightarrow> TargetInfo \<Rightarrow> TargetInfo" where
  "inspect_target ops b ids t =
     (if ContainerID t \<in> ids then t
      else case bm_InspectRunning ops b (ContainerID t) of
        None \<Rightarrow> t
      | Some (up, present) \<Rightarrow> t\<lparr>Running := up, Missing := \<not> present\<rparr>)"

definition config_only_names :: "string set \<Rightarrow> TargetInfo list \<Rightarrow> (string \<times> string) list" where
  "config_only_names ids ts =
     foldl (\<lambda>m t. if ContainerID t \<in> ids then m else AList.update (ContainerName t) (ContainerID t) m) [] ts"

definition merged_targets ::
  "'b backendManager \<Rightarrow> (string \<Rightarrow> bool) \<Rightarrow> Store \<Rightarrow> 'b discovered \<Rightarrow> PortAllocator option \<times> TargetInfo list" where
  "merged_targets ops uri_ok st dis =
     (case dis of (alloc, b, discovered) \<Rightarrow>
      case Apply uri_ok st alloc discovered (bm_DefaultTargetID ops b) of (alloc', merged, errs) \<Rightarrow>
        (alloc', map (inspect_target ops b (ContainerID ` set discovered)) merged))"

definition notify_backend :: "'b backendManager \<Rightarrow> string set \<Rightarrow> TargetInfo list \<Rightarrow> 'b \<Rightarrow> 'b" where
  "notify_backend ops ids merged b =
     bm_JoinNetworksForContainerNames ops (map ContainerName (filter (\<lambda>t. elems (NetworkIDs t) = []) merged))
       (bm_NotifyTargets ops merged (bm_SetConfigOnlyNames ops (config_only_names ids merged) b))"

text \<open>The last component is false when discovery failed, and then nothing changed.\<close>

definition discoverAndApply ::
  "'b backendManager \<Rightarrow> (string \<Rightarrow> bool) \<Rightarrow> (bool \<Rightarrow> int \<Rightarrow> bool) \<Rightarrow> Store
     \<Rightarrow> PortAllocator option \<times> 'b \<times> ProxyServer \<Rightarrow> (PortAllocator option \<times> 'b \<times> ProxyServer) \<times> server_effect list \<times> bool" where
  "discoverAndApply ops uri_ok listen st sys =
     (case sys of (alloc, b, s) \<Rightarrow>
      case discover_all ops alloc b of
        None \<Rightarrow> (sys, [], False)
      | Some (alloc1, b1, discovered) \<Rightarrow>
          (case merged_targets ops uri_ok st (alloc1, b1, discovered) of (alloc2, merged) \<Rightarrow>
           let b2 = notify_backend ops (ContainerID ` set discovered) merged b1;
               (s', eff) = Update listen s merged
           in ((alloc2, b2, s'), eff, True)))"

subsection \<open>Administration requests\<close>

text \<open>An update carries the decoded body, \<open>None\<close> when it is no JSON of a configuration.\<close>

datatype admin_request = GetConfig | ReloadConfig | UpdateConfig "DynamicConfig option"

datatype admin_body = Unauthorized | Configuration DynamicConfig | InvalidJSON | SaveFailed io_error
  | LoadFailed io_error | ReloadFailed | ServicesLoaded nat

record 'b world =
  w_disk :: disk
  w_store :: Store
  w_system :: "PortAllocator option \<times> 'b \<times> ProxyServer"

text \<open>What the environment does during one request.\<close>

record 'b request_env =
  re_ops :: "'b backendManager"
  re_listen :: "bool \<Rightarrow> int \<Rightarrow> bool"
  re_uri_ok :: "string \<Rightarrow> bool"
  re_cron_ok :: "string \<Rightarrow> bool"
  re_marshal :: "DynamicConfig \<Rightarrow> string option"
  re_unmarshal :: "string \<Rightarrow> DynamicConfig option"
  re_placeholder :: string
  re_readable :: bool
  re_writable :: bool
  re_write_failed :: "string option option"
  re_rename_ok :: bool

definition reload_world :: "'b request_env \<Rightarrow> 'b world \<Rightarrow> 'b world \<times> bool" where
  "reload_world env w =
     (case discoverAndApply (re_ops env) (re_uri_ok env) (re_listen env) (w_store w) (w_system w) of
        (sys, eff, ok) \<Rightarrow> (w\<lparr>w_system := sys\<rparr>, ok))"

definition handleReload :: "'b request_env \<Rightarrow> 'b world \<Rightarrow> 'b world \<times> nat \<times> admin_body" where
  "handleReload env w =
     (case Load (re_unmarshal env) (re_placeholder env) (re_readable env) (re_writable env) (w_disk w) (w_store w) of
        (d, st, Some e) \<Rightarrow> (w\<lparr>w_disk := d, w_store := st\<rparr>, 500, LoadFailed e)
      | (d, st, None) \<Rightarrow>
          (case reload_world env (w\<lparr>w_disk := d, w_store := st\<rparr>) of
             (w', False) \<Rightarrow> (w', 500, ReloadFailed)
           | (w', True) \<Rightarrow> (w', 200, ServicesLoaded (length (st_config (w_store w'))))))"

definition handleUpdate :: "'b request_env \<Rightarrow> DynamicConfig option \<Rightarrow> 'b world \<Rightarrow> 'b world \<times> nat \<times> admin_body" where
  "handleUpdate env body w =
     (case body of
        None \<Rightarrow> (w, 400, InvalidJSON)
      | Some cfg \<Rightarrow>
          (case Save (re_uri_ok env) (re_cron_ok env) (re_marshal env) (re_write_failed env) (re_rename_ok env) cfg (w_disk w) (w_store w) of
             (d, st, Some e) \<Rightarrow> (w\<lparr>w_disk := d, w_store := st\<rparr>, 400, SaveFailed e)
           | (d, st, None) \<Rightarrow>
               (case reload_world env (w\<lparr>w_disk := d, w_store := st\<rparr>) of
                  (w', False) \<Rightarrow> (w', 500, ReloadFailed)
                | (w', True) \<Rightarrow> (w', 200, ServicesLoaded (length cfg)))))"

text \<open>\<open>header\<close> is the value of \<open>X-API-Key\<close>, empty when it is absent.\<close>

definition admin_auth :: "string \<Rightarrow> string \<Rightarrow> ('b world \<Rightarrow> 'b world \<times> nat \<times> admin_body) \<Rightarrow> 'b world \<Rightarrow> 'b world \<times> nat \<times> admin_body" where
  "admin_auth apiKey header handler w = (if header \<noteq> apiKey then (w, 401, Unauthorized) else handler w)"

definition admin_handle :: "'b request_env \<Rightarrow> string \<Rightarrow> string \<Rightarrow> admin_request \<Rightarrow> 'b world \<Rightarrow> 'b world \<times> nat \<times> admin_body" where
  "admin_handle env apiKey header req =
     admin_auth apiKey header (\<lambda>w. case req of
        GetConfig \<Rightarrow> (w, 200, Configuration (st_config (w_store w)))
      | ReloadConfig \<Rightarrow> handleReload env w
      | UpdateConfig body \<Rightarrow> handleUpdate env body w)"

subsection \<open>What a reload relies on\<close>

text \<open>
  The laws of a backend: its discovery uses the shared allocator like everybody else, reports replica
  counts that are Go integers, and no operation breaks its own invariant.
\<close>

definition int_scales :: "TargetInfo list \<Rightarrow> bool" where
  "int_scales ts \<longleftrightarrow> list_all (\<lambda>t. in_int64 (DesiredReplicas t)) ts"

locale backend_manager =
  fixes ops :: "'b backendManager" and ok :: "'b \<Rightarrow> bool"
  assumes discover: "bm_Discover ops alloc b = Some (alloc', b', calls) \<Longrightarrow>
      alloc_grows alloc alloc' \<and> int_scales (registered calls) \<and> (ok b \<longrightarrow> ok b')"
    and services: "bm_DiscoverServices ops alloc b = Some (alloc', b', calls) \<Longrightarrow>
      alloc_grows alloc alloc' \<and> int_scales (registered calls) \<and> (ok b \<longrightarrow> ok b')"
    and names_ok: "ok b \<Longrightarrow> ok (bm_SetConfigOnlyNames ops names b)"
    and notify_ok: "ok b \<Longrightarrow> int_scales ts \<Longrightarrow> ok (bm_NotifyTargets ops ts b)"
    and join_ok: "ok b \<Longrightarrow> ok (bm_JoinNetworksForContainerNames ops xs b)"
begin

lemma discover_all:
  assumes "discover_all ops alloc b = Some (alloc', b', discovered)"
  shows "alloc_grows alloc alloc' \<and> int_scales discovered \<and> (ok b \<longrightarrow> ok b')"
proof -
  obtain a1 b1 calls1 where one: "bm_Discover ops alloc b = Some (a1, b1, calls1)"
    using assms by (auto simp: discover_all_def split: option.splits)
  show ?thesis
  proof (cases "bm_DiscoverServices ops a1 b1")
    case None
    with assms one discover [OF one] show ?thesis by (simp add: discover_all_def Targets_def collect_all)
  next
    case (Some r)
    obtain a2 b2 calls2 where two: "bm_DiscoverServices ops a1 b1 = Some (a2, b2, calls2)"
      using Some by (metis prod_cases3)
    with assms one discover [OF one] services [OF two] show ?thesis
      by (auto simp: discover_all_def Targets_def collect_all int_scales_def intro: alloc_grows_trans)
  qed
qed

lemma merged_alloc: "alloc_grows alloc (fst (merged_targets ops uri_ok st (alloc, b, discovered)))"
  using Apply_grows [of alloc uri_ok st discovered "bm_DefaultTargetID ops b"]
  by (simp add: merged_targets_def case_prod_unfold)

lemma notify_backend_ok: "ok b \<Longrightarrow> int_scales merged \<Longrightarrow> ok (notify_backend ops ids merged b)"
  by (simp add: notify_backend_def names_ok notify_ok join_ok)

end

subsection \<open>Merged targets\<close>

lemma inspect_target_frame [simp]:
  "ContainerID (inspect_target ops b ids t) = ContainerID t"
  "ContainerName (inspect_target ops b ids t) = ContainerName t"
  "DesiredReplicas (inspect_target ops b ids t) = DesiredReplicas t"
  "declared (inspect_target ops b ids t) = declared t"
  by (simp_all add: inspect_target_def declared_def split: option.split prod.split)

text \<open>Every merged target is a discovered one or comes from an entry.\<close>

definition merged_from :: "'b backendManager \<Rightarrow> 'b \<Rightarrow> DynamicConfig \<Rightarrow> TargetInfo list \<Rightarrow> TargetInfo \<Rightarrow> bool" where
  "merged_from ops b cfg discovered t \<longleftrightarrow>
     (\<exists>d \<in> set discovered. ContainerID t = ContainerID d \<and> DesiredReplicas t = DesiredReplicas d)
     \<or> (\<exists>e \<in> set cfg. ContainerID t = bm_DefaultTargetID ops b (ce_Name e) \<and> DesiredReplicas t = entry_scale e)"

lemma merged_spec:
  assumes "merged_targets ops uri_ok st (alloc, b, discovered) = (alloc', merged)"
  shows "list_all (merged_from ops b (st_config st) discovered) merged"
    and "d \<in> set discovered \<Longrightarrow> ContainerName d \<notin> ce_Name ` set (st_config st) \<Longrightarrow> d \<in> set merged"
proof -
  obtain result errs where ap: "Apply uri_ok st alloc discovered (bm_DefaultTargetID ops b) = (alloc', result, errs)"
    and merged: "merged = map (inspect_target ops b (ContainerID ` set discovered)) result"
    using assms by (auto simp: merged_targets_def split: prod.splits)
  have ov: "overlay_ok (st_config st) discovered (bm_DefaultTargetID ops b) result"
    using Apply_ok [of st discovered "bm_DefaultTargetID ops b" uri_ok alloc] ap by simp
  have "merged_from ops b (st_config st) discovered (result ! i)" if "i < length result" for i
  proof (cases "i < length discovered")
    case True
    then have "same_identity (discovered ! i) (result ! i)" "discovered ! i \<in> set discovered"
      "DesiredReplicas (result ! i) = DesiredReplicas (discovered ! i)"
      using ov by (auto simp: overlay_ok_def)
    then show ?thesis unfolding merged_from_def same_identity_def by metis
  next
    case False
    with ov that show ?thesis unfolding overlay_ok_def merged_from_def by (meson not_less)
  qed
  then show "list_all (merged_from ops b (st_config st) discovered) merged"
    by (auto simp: merged list_all_length merged_from_def)
  show "d \<in> set merged" if dis: "d \<in> set discovered" and nm: "ContainerName d \<notin> ce_Name ` set (st_config st)"
  proof -
    obtain i where i: "i < length discovered" "d = discovered ! i" using dis unfolding in_set_conv_nth by blast
    then have "result ! i = d" "i < length result" using ov nm unfolding overlay_ok_def by auto
    then have "d \<in> set result" using nth_mem by metis
    moreover have "inspect_target ops b (ContainerID ` set discovered) d = d" using dis by (simp add: inspect_target_def)
    ultimately show ?thesis unfolding merged by (metis image_eqI set_map)
  qed
qed

text \<open>Asking the backend about a target changes its running state only.\<close>

lemma inspect_target_fields [simp]:
  "ContainerID (inspect_target ops b ids t) = ContainerID t"
  "declared (inspect_target ops b ids t) = declared t"
  "configured_as e (inspect_target ops b ids t) = configured_as e t"
  by (simp_all add: inspect_target_def declared_def configured_as_def split: option.split prod.split)

lemma merged_applied:
  assumes "merged_targets ops uri_ok st (alloc, b, discovered) = (alloc', merged)"
  shows "t \<in> set merged \<Longrightarrow> t \<in> set discovered \<or> (\<exists>e \<in> set (st_config st). entry_valid uri_ok e \<and> configured_as e t)"
    and "e \<in> set (st_config st) \<Longrightarrow> entry_valid uri_ok e \<Longrightarrow> \<forall>f \<in> set (st_config st). ce_Name f = ce_Name e \<longrightarrow> f = e \<Longrightarrow>
      \<exists>t \<in> set merged. configured_as e t
        \<and> ContainerID t = (case by_name discovered (ce_Name e) of
             Some j \<Rightarrow> ContainerID (discovered ! j) | None \<Rightarrow> bm_DefaultTargetID ops b (ce_Name e))"
proof -
  obtain result errs where ap: "Apply uri_ok st alloc discovered (bm_DefaultTargetID ops b) = (alloc', result, errs)"
    and merged: "merged = map (inspect_target ops b (ContainerID ` set discovered)) result"
    using assms by (auto simp: merged_targets_def split: prod.splits)
  note ov = Apply_applied [OF ap, unfolded overlay_applied_def]
  show "t \<in> set discovered \<or> (\<exists>e \<in> set (st_config st). entry_valid uri_ok e \<and> configured_as e t)" if t: "t \<in> set merged"
  proof -
    obtain u where u: "u \<in> set result" "t = inspect_target ops b (ContainerID ` set discovered) u" using t merged by auto
    show ?thesis
    proof (cases "u \<in> set discovered")
      case True
      then have "t = u" using u(2) by (simp add: inspect_target_def)
      with True show ?thesis by simp
    next
      case False
      with ov u show ?thesis by auto
    qed
  qed
  show "\<exists>t \<in> set merged. configured_as e t
        \<and> ContainerID t = (case by_name discovered (ce_Name e) of
             Some j \<Rightarrow> ContainerID (discovered ! j) | None \<Rightarrow> bm_DefaultTargetID ops b (ce_Name e))"
    if e: "e \<in> set (st_config st)" "entry_valid uri_ok e" "\<forall>f \<in> set (st_config st). ce_Name f = ce_Name e \<longrightarrow> f = e"
  proof -
    have "\<exists>u. configured_as e u
            \<and> (case by_name discovered (ce_Name e) of
                 Some i \<Rightarrow> i < length result \<and> u = result ! i \<and> same_identity (discovered ! i) u
               | None \<Rightarrow> u \<in> set (drop (length discovered) result) \<and> ContainerID u = bm_DefaultTargetID ops b (ce_Name e))"
      using ov e by blast
    then obtain u where "configured_as e u" "u \<in> set result"
      "ContainerID u = (case by_name discovered (ce_Name e) of
         Some j \<Rightarrow> ContainerID (discovered ! j) | None \<Rightarrow> bm_DefaultTargetID ops b (ce_Name e))"
      by (cases "by_name discovered (ce_Name e)") (auto simp: same_identity_def dest: in_set_dropD)
    then show ?thesis unfolding merged set_map by (intro bexI [OF _ imageI]) simp_all
  qed
qed

lemma merged_scales:
  assumes "merged_targets ops uri_ok st (alloc, b, discovered) = (alloc', merged)"
    and "int_scales discovered" and "list_all (\<lambda>e. in_int64 (entry_scale e)) (st_config st)"
  shows "int_scales merged"
  using merged_spec(1) [OF assms(1)] assms(2,3) unfolding int_scales_def list_all_iff merged_from_def by metis

lemma discoverAndApply_steps:
  assumes "discoverAndApply ops uri_ok listen st (alloc, b, s) = ((alloc', b', s'), eff, ok)"
  obtains (failed) "\<not> ok" "alloc' = alloc" "b' = b" "s' = s" "discover_all ops alloc b = None"
  | (reloaded) alloc1 b1 discovered merged where "ok" "discover_all ops alloc b = Some (alloc1, b1, discovered)"
      "merged_targets ops uri_ok st (alloc1, b1, discovered) = (alloc', merged)"
      "b' = notify_backend ops (ContainerID ` set discovered) merged b1" "Update listen s merged = (s', eff)"
  using assms by (auto simp: discoverAndApply_def Let_def split: option.splits prod.splits)

context backend_manager
begin

lemma reload_keeps:
  assumes "discoverAndApply ops uri_ok listen st (alloc, b, s) = ((alloc', b', s'), eff, res)"
  shows "alloc_grows alloc alloc'"
    and "ok b \<Longrightarrow> list_all (\<lambda>e. in_int64 (entry_scale e)) (st_config st) \<Longrightarrow> ok b'"
proof -
  have "alloc_grows alloc alloc' \<and> (ok b \<and> list_all (\<lambda>e. in_int64 (entry_scale e)) (st_config st) \<longrightarrow> ok b')"
    using assms
  proof (cases rule: discoverAndApply_steps)
    case (reloaded alloc1 b1 discovered merged)
    note dis = discover_all [OF reloaded(2)]
    have "alloc_grows alloc1 alloc'" using merged_alloc [of alloc1 uri_ok st b1 discovered] reloaded(3) by simp
    with dis merged_scales [OF reloaded(3)] reloaded(4) show ?thesis
      using alloc_grows_trans notify_backend_ok by blast
  qed simp
  then show "alloc_grows alloc alloc'"
    and "ok b \<Longrightarrow> list_all (\<lambda>e. in_int64 (entry_scale e)) (st_config st) \<Longrightarrow> ok b'" by blast+
qed

end

subsection \<open>The two backends\<close>

lemma containerToTargetInfo_grows:
  "containerToTargetInfo uri_ok cron_ok m alloc cid = (alloc', Inr info) \<Longrightarrow> alloc_grows alloc alloc' \<and> DesiredReplicas info = 0"
  using alloc_hosts_grows
  by (auto simp: containerToTargetInfo_def zero_info_def Let_def split: api_result.splits if_splits prod.splits)

lemma serviceToTargetInfo_grows:
  "serviceToTargetInfo uri_ok cron_ok alloc svc = (alloc', r) \<Longrightarrow> alloc_grows alloc alloc'"
  using alloc_hosts_grows
  by (auto simp: serviceToTargetInfo_def Let_def split: option.splits if_splits prod.splits)

lemma k8s_alloc_hosts:
  "fst (k8s_alloc alloc ports udp hs ths) = fst (alloc_hosts alloc ports udp (ParseTraefikHostSpecs hs) (ParseTraefikHostSpecs ths))"
proof -
  have "fst (alloc_annotation a str) = fst (AllocatePortMappings a (ParseTraefikHostSpecs str))" for a str
    by (simp add: alloc_annotation_def ParseTraefikHostSpecs_def parse_host_spec_def map_filter_eq_concat split: prod.split)
  then show ?thesis
    by (simp add: k8s_alloc_def alloc_hosts_def allocate_target_def Let_def case_prod_unfold split: option.split)
qed

lemma deploymentToTargetInfo_grows:
  "deploymentToTargetInfo uri_ok cron_ok alloc d = (alloc', r) \<Longrightarrow> alloc_grows alloc alloc'"
proof -
  have k: "alloc_grows alloc (fst (k8s_alloc alloc ports udp hs ths))" for ports udp hs ths
    unfolding k8s_alloc_hosts by (rule alloc_hosts_grows) (rule prod.collapse [symmetric])
  show "deploymentToTargetInfo uri_ok cron_ok alloc d = (alloc', r) \<Longrightarrow> alloc_grows alloc alloc'"
    using k by (auto simp: deploymentToTargetInfo_def Let_def case_prod_unfold split: if_splits)
qed

text \<open>What one step of a discovery loop keeps.\<close>

definition discovery_ok :: "('b \<Rightarrow> bool) \<Rightarrow> PortAllocator option \<Rightarrow> PortAllocator option \<times> 'b \<times> handler_call list \<Rightarrow> bool" where
  "discovery_ok ok alloc r \<longleftrightarrow> alloc_grows alloc (fst r) \<and> int_scales (registered (snd (snd r))) \<and> ok (fst (snd r))"

lemma discovery_fold:
  assumes "\<And>r x. discovery_ok ok alloc r \<Longrightarrow> discovery_ok ok alloc (step r x)" and "discovery_ok ok alloc r"
  shows "discovery_ok ok alloc (foldl step r xs)"
  using assms(2)
proof (induction xs arbitrary: r)
  case (Cons x xs)
  show ?case using Cons.IH [OF assms(1) [OF Cons.prems]] by simp
qed simp

lemma discover_one_ok:
  assumes "discovery_ok ok alloc r" and "\<And>m m'. same_registrations m m' \<Longrightarrow> ok m \<Longrightarrow> ok m'"
  shows "discovery_ok ok alloc (discover_one uri_ok cron_ok r cid)"
proof -
  obtain a m cs where r: "r = (a, m, cs)" by (rule prod_cases3)
  obtain a' x where conv: "containerToTargetInfo uri_ok cron_ok m a cid = (a', x)" by (rule prod.exhaust)
  show ?thesis
  proof (cases x)
    case (Inl e)
    with assms containerToTargetInfo_error [of uri_ok cron_ok m a cid a' e] conv show ?thesis
      by (simp add: discovery_ok_def discover_one_def r)
  next
    case (Inr info)
    have "ok (fst (JoinNetworks (elems (NetworkIDs info)) m))" if "ok m" by (rule assms(2) [OF JoinNetworks_same that])
    with assms(1) containerToTargetInfo_grows [OF conv [unfolded Inr]] conv Inr show ?thesis
      by (auto simp: discovery_ok_def discover_one_def r int_scales_def in_int64_def intro: alloc_grows_trans)
  qed
qed

lemma discover_service_ok:
  assumes "discovery_ok (\<lambda>m. docker_ok m0 \<longrightarrow> docker_ok m) alloc r"
  shows "discovery_ok (\<lambda>m. docker_ok m0 \<longrightarrow> docker_ok m) alloc (discover_service uri_ok cron_ok r svc)"
proof -
  obtain a m cs where r: "r = (a, m, cs)" by (rule prod_cases3)
  obtain a' x where conv: "serviceToTargetInfo uri_ok cron_ok a svc = (a', x)" by (rule prod.exhaust)
  note grows = serviceToTargetInfo_grows [OF conv]
  show ?thesis
  proof (cases x)
    case (Inl e)
    with assms conv grows show ?thesis
      by (auto simp: discovery_ok_def discover_service_def r intro: alloc_grows_trans)
  next
    case (Inr info)
    have "docker_ok (add_service info m)" if "docker_ok m"
      using tracks_conversion [OF conv [unfolded Inr], of m] that by (simp add: tracks_def)
    with assms serviceToTargetInfo_result(3) [OF conv [unfolded Inr]] conv grows Inr show ?thesis
      by (auto simp: discovery_ok_def discover_service_def r int_scales_def intro: alloc_grows_trans)
  qed
qed

text \<open>Docker: what \<open>SetConfigOnlyNames\<close>, \<open>NotifyTargets\<close> and joining networks keep.\<close>

lemma join_names_same: "same_registrations m (JoinNetworksForContainerNames xs m)"
proof -
  have "same_registrations m (case inspect m x of Found r \<Rightarrow> fst (JoinNetworks (network_ids r) m) | _ \<Rightarrow> m)" for m :: "'d Manager" and x
    by (simp split: api_result.split)
  then show ?thesis unfolding JoinNetworksForContainerNames_def
    by (induction xs arbitrary: m) (auto intro: same_registrations_trans)
qed

lemma NotifyTargets_step:
  "NotifyTargets (t # ts) m =
     NotifyTargets ts (if DesiredReplicas t > 0 then registerSwarmService (ContainerID t) (DesiredReplicas t) m else m)"
  by (simp add: NotifyTargets_def)

lemma NotifyTargets_spec:
  assumes "docker_ok m" and "int_scales ts"
  shows "docker_ok (NotifyTargets ts m) \<and> configOnlyIDs (NotifyTargets ts m) = configOnlyIDs m
    \<and> known_services (NotifyTargets ts m) = known_services m \<union> ContainerID ` {t \<in> set ts. DesiredReplicas t > 0}"
  using assms
proof (induction ts arbitrary: m)
  case Nil then show ?case by (simp add: NotifyTargets_def)
next
  case (Cons t ts)
  let ?m = "if DesiredReplicas t > 0 then registerSwarmService (ContainerID t) (DesiredReplicas t) m else m"
  have "docker_ok ?m" "int_scales ts"
    using Cons.prems by (auto simp: docker_ok_def swarm_ok_def registerSwarmService_def update_conv' int_scales_def)
  from Cons.IH [OF this] show ?case
    unfolding NotifyTargets_step by (auto simp: known_services_def registerSwarmService_def update_conv')
qed

interpretation docker_mgr: backend_manager "docker_backend uri_ok cron_ok listed active services" docker_ok
proof
  fix alloc alloc' and b b' :: "'a Manager" and calls names ts xs
  let ?ok = "\<lambda>m. docker_ok b \<longrightarrow> docker_ok m"
  have start: "discovery_ok ?ok alloc (alloc, b, [])" by (simp add: discovery_ok_def int_scales_def)
  have cs: "discovery_ok ?ok alloc (foldl (discover_one uri_ok cron_ok) (alloc, b, []) cids)" for cids
    by (rule discovery_fold [OF discover_one_ok start]) (auto intro: docker_ok_same_registrations)
  show "alloc_grows alloc alloc' \<and> int_scales (registered calls) \<and> (docker_ok b \<longrightarrow> docker_ok b')"
    if fnd: "bm_Discover (docker_backend uri_ok cron_ok listed active services) alloc b = Some (alloc', b', calls)"
  proof -
    obtain cids where "foldl (discover_one uri_ok cron_ok) (alloc, b, []) cids = (alloc', b', calls)"
      using fnd by (auto simp: docker_backend_def Discover_def split: option.splits)
    with cs [of cids] show ?thesis by (simp add: discovery_ok_def)
  qed
  have svs: "discovery_ok ?ok alloc (foldl (discover_service uri_ok cron_ok) (alloc, b, []) svcs)" for svcs
    by (rule discovery_fold [OF discover_service_ok start])
  show "alloc_grows alloc alloc' \<and> int_scales (registered calls) \<and> (docker_ok b \<longrightarrow> docker_ok b')"
    if fnd: "bm_DiscoverServices (docker_backend uri_ok cron_ok listed active services) alloc b = Some (alloc', b', calls)"
  proof -
    consider "(alloc, b, []) = (alloc', b', calls)"
      | svcs where "foldl (discover_service uri_ok cron_ok) (alloc, b, []) svcs = (alloc', b', calls)"
      using fnd by (auto simp: docker_backend_def DiscoverServices_def split: option.splits bool.splits)
    then show ?thesis
    proof cases
      case 1 with start show ?thesis by (simp add: discovery_ok_def)
    next
      case (2 svcs) with svs [of svcs] show ?thesis by (simp add: discovery_ok_def)
    qed
  qed
  assume ok: "docker_ok b"
  then show "docker_ok (bm_SetConfigOnlyNames (docker_backend uri_ok cron_ok listed active services) names b)"
    by (simp add: docker_backend_def SetConfigOnlyNames_def docker_ok_def swarm_ok_def)
  show "docker_ok (bm_NotifyTargets (docker_backend uri_ok cron_ok listed active services) ts b)" if "int_scales ts"
    using NotifyTargets_spec [OF ok that] by (simp add: docker_backend_def)
  show "docker_ok (bm_JoinNetworksForContainerNames (docker_backend uri_ok cron_ok listed active services) xs b)"
    using docker_ok_same_registrations [OF join_names_same ok] by (simp add: docker_backend_def)
qed

interpretation k8s_mgr: backend_manager "k8s_backend uri_ok cron_ok listed" backend_ok
proof
  fix alloc alloc' and b b' :: "'a Backend" and calls
  let ?ok = "\<lambda>m. backend_ok b \<longrightarrow> backend_ok m"
  have start: "discovery_ok ?ok alloc (alloc, b, [])" by (simp add: discovery_ok_def int_scales_def)
  have one: "discovery_ok ?ok alloc (k8s_discover_one uri_ok cron_ok r d)" if "discovery_ok ?ok alloc r" for r d
    using that deploymentToTargetInfo_grows deploymentToTargetInfo_result(3)
    by (fastforce simp: k8s_discover_one_def discovery_ok_def int_scales_def in_int64_def storeServiceName_def backend_ok_def
        split: prod.splits sum.splits intro: alloc_grows_trans)
  have ds: "discovery_ok ?ok alloc (foldl (k8s_discover_one uri_ok cron_ok) (alloc, b, []) ds)" for ds
    by (rule discovery_fold [OF one start])
  show "alloc_grows alloc alloc' \<and> int_scales (registered calls) \<and> (backend_ok b \<longrightarrow> backend_ok b')"
    if fnd: "bm_Discover (k8s_backend uri_ok cron_ok listed) alloc b = Some (alloc', b', calls)"
  proof -
    obtain xs where "foldl (k8s_discover_one uri_ok cron_ok) (alloc, b, []) xs = (alloc', b', calls)"
      using fnd by (auto simp: k8s_backend_def k8s_Discover_def split: option.splits)
    with ds [of xs] show ?thesis by (simp add: discovery_ok_def)
  qed
qed (simp_all add: k8s_backend_def int_scales_def)

subsection \<open>Properties\<close>

text \<open>A Kubernetes backend with one Deployment and a Docker backend without containers, for the witnesses.\<close>

abbreviation demo_k8s :: "((string \<times> string) \<Rightarrow> int option) Backend backendManager" where
  "demo_k8s \<equiv> k8s_backend (\<lambda>_. True) (\<lambda>_. True) (Some [demo_deployment])"

abbreviation demo_docker_mgr :: "demo_daemon Manager backendManager" where
  "demo_docker_mgr \<equiv> docker_backend (\<lambda>_. True) (\<lambda>_. True) (Some []) (Some True) (Some [demo_service])"

lemma demo_discovered:
  "\<exists>info b. discover_all demo_k8s None demo_backend = Some (None, b, [info]) \<and> ContainerID info = ''prod/web''"
proof -
  have "\<exists>info. deploymentToTargetInfo (\<lambda>_. True) (\<lambda>_. True) None demo_deployment = (None, Inr info)"
    by (simp add: deploymentToTargetInfo_def demo_deployment_def label_value_def k8s_alloc_def Let_def)
  then obtain info where i: "deploymentToTargetInfo (\<lambda>_. True) (\<lambda>_. True) None demo_deployment = (None, Inr info)" by blast
  have "ContainerID info = ''prod/web''"
    using deploymentToTargetInfo_result(1) [OF i] by (simp add: targetID_def demo_deployment_def)
  with i show ?thesis
    by (simp add: discover_all_def k8s_backend_def k8s_Discover_def k8s_discover_one_def collect_def Targets_def)
qed

lemma no_entries_merged:
  assumes "st_config st = []"
  shows "merged_targets ops uri_ok st (alloc, b, discovered) = (alloc, discovered)"
proof -
  have "map (inspect_target ops b (ContainerID ` set discovered)) discovered = discovered"
    by (rule map_idI) (simp add: inspect_target_def)
  with assms show ?thesis by (simp add: merged_targets_def Apply_def)
qed





text \<open>
  C25: after a reload the Docker backend knows what the server serves: its own contract still holds, and
  every merged target with a replica count is a swarm service it scales, so that starting and stopping
  it never falls through to the container calls.
\<close>

theorem reload_registers_services:
  assumes "discover_all (docker_backend uri_ok cron_ok listed active services) alloc m = Some (alloc1, m1, discovered)"
    and "merged_targets (docker_backend uri_ok cron_ok listed active services) uri_ok st (alloc1, m1, discovered) = (alloc2, merged)"
    and "docker_ok m" and "list_all (\<lambda>e. in_int64 (entry_scale e)) (st_config st)"
    and "discoverAndApply (docker_backend uri_ok cron_ok listed active services) uri_ok listen st (alloc, m, s)
      = ((alloc', m', s'), eff, ok)"
  shows "docker_ok m' \<and> (\<forall>t \<in> set merged. 0 < DesiredReplicas t \<longrightarrow> isSwarmService m' (ContainerID t) \<noteq> None)"
proof -
  have "known_services m' \<supseteq> ContainerID ` {t \<in> set merged. 0 < DesiredReplicas t}"
    using assms(5)
  proof (cases rule: discoverAndApply_steps)
    case (reloaded x y z w)
    let ?m = "SetConfigOnlyNames (config_only_names (ContainerID ` set discovered) merged) m1"
    note dis = docker_mgr.discover_all [OF assms(1)]
    have "docker_ok m1" using dis assms(3) by blast
    then have "docker_ok ?m" by (simp add: docker_ok_def swarm_ok_def SetConfigOnlyNames_def)
    moreover have "int_scales merged" by (rule merged_scales [OF assms(2) _ assms(4)]) (use dis in simp)
    ultimately have "known_services (NotifyTargets merged ?m)
        = known_services ?m \<union> ContainerID ` {t \<in> set merged. 0 < DesiredReplicas t}"
      by (rule NotifyTargets_spec [THEN conjunct2, THEN conjunct2])
    then have "ContainerID ` {t \<in> set merged. 0 < DesiredReplicas t} \<subseteq> known_services (NotifyTargets merged ?m)"
      by (simp only: Un_upper2)
    moreover have "same_registrations (NotifyTargets merged ?m) m'"
      using reloaded assms(1,2) by (simp add: notify_backend_def docker_backend_def join_names_same)
    then have "swarmServices m' = swarmServices (NotifyTargets merged ?m)" by (rule same_registrationsD(2))
    ultimately show ?thesis by (simp add: known_services_def)
  qed (use assms(1) in simp)
  then show ?thesis
    using docker_mgr.reload_keeps(2) [OF assms(5,3,4)] by (auto simp: known_services_def isSwarmService_def)
qed

theorem reload_registers_services_witness:
  "isSwarmService (fst (snd (fst (discoverAndApply demo_docker_mgr (\<lambda>_. True) (\<lambda>_ _. True) (New_Store ''/c'') (None, demo_manager, demo_server)))))
     ''s1'' \<noteq> None"
proof -
  obtain info where i: "serviceToTargetInfo (\<lambda>_. True) (\<lambda>_. True) None demo_service = (None, Inr info)"
    using demo_service_converts by blast
  have c: "ContainerID info = ''s1''" "1 \<le> DesiredReplicas info"
    using serviceToTargetInfo_result [OF i] by (simp_all add: demo_service_def)
  have d: "discover_all demo_docker_mgr None demo_manager = Some (None, add_service info demo_manager, [info])"
    using i by (simp add: discover_all_def docker_backend_def Discover_def DiscoverServices_def discover_service_def
        collect_def Targets_def)
  have m: "merged_targets demo_docker_mgr (\<lambda>_. True) (New_Store ''/c'') (None, add_service info demo_manager, [info]) = (None, [info])"
    by (rule no_entries_merged) (simp add: New_Store_def)
  obtain a' m' s' eff ok where r: "discoverAndApply demo_docker_mgr (\<lambda>_. True) (\<lambda>_ _. True) (New_Store ''/c'') (None, demo_manager, demo_server)
      = ((a', m', s'), eff, ok)" by (metis prod.exhaust)
  have "list_all (\<lambda>e. in_int64 (entry_scale e)) (st_config (New_Store ''/c''))" by (simp add: New_Store_def)
  from reload_registers_services [OF d m demo_manager_ok this r] c show ?thesis unfolding r by auto
qed

lemma reload_world_frame: "w_store (fst (reload_world env w)) = w_store w" "w_disk (fst (reload_world env w)) = w_disk w"
  by (simp_all add: reload_world_def split: prod.split)

text \<open>
  C19: administration requests are authenticated and updates are all or nothing: a request with another
  key changes nothing; an update that is refused (status 400 or 401) leaves the running system, the
  configuration in memory and its file as they were; any other update saved a configuration that was
  valid: it is the one in memory, the configuration file holds its encoding and the temporary file is
  gone, no other file has changed, and the answer is 200 exactly when the reload with it succeeded,
  whose outcome is the running system.
\<close>

theorem admin_updates_are_checked:
  assumes "admin_handle env apiKey header req w = (w', status, reply)"
  shows "(header \<noteq> apiKey \<longrightarrow> w' = w \<and> status = 401)
    \<and> (req = UpdateConfig body \<and> status \<in> {400, 401} \<longrightarrow>
          w_system w' = w_system w \<and> w_store w' = w_store w \<and> w_disk w' (st_path (w_store w)) = w_disk w (st_path (w_store w)))
    \<and> (req = UpdateConfig body \<and> status \<notin> {400, 401} \<longrightarrow>
          (\<exists>cfg. body = Some cfg \<and> validate (re_uri_ok env) (re_cron_ok env) cfg = []
            \<and> w_store w' = (w_store w)\<lparr>st_config := cfg\<rparr>
            \<and> (\<exists>content. re_marshal env cfg = Some content
                \<and> w_disk w' = (w_disk w)(st_path (w_store w) \<mapsto> content, st_path (w_store w) @ ''.tmp'' := None))
            \<and> (\<exists>eff ok. discoverAndApply (re_ops env) (re_uri_ok env) (re_listen env) (w_store w') (w_system w) = (w_system w', eff, ok)
                \<and> status = (if ok then 200 else 500))))"
proof (cases "header = apiKey \<and> req = UpdateConfig body")
  case True
  then have h: "handleUpdate env body w = (w', status, reply)" using assms by (simp add: admin_handle_def admin_auth_def)
  show ?thesis
  proof (cases body)
    case None
    with h True show ?thesis by (auto simp: handleUpdate_def)
  next
    case (Some cfg)
    obtain d st err where sv: "Save (re_uri_ok env) (re_cron_ok env) (re_marshal env) (re_write_failed env) (re_rename_ok env) cfg
        (w_disk w) (w_store w) = (d, st, err)" by (rule prod_cases3)
    have bad: "d (st_path (w_store w)) = w_disk w (st_path (w_store w)) \<and> st = w_store w" if "err \<noteq> None"
      using sv that by (auto simp: Save_def Let_def split: if_splits option.splits)
    have good: "validate (re_uri_ok env) (re_cron_ok env) cfg = [] \<and> st = (w_store w)\<lparr>st_config := cfg\<rparr>
        \<and> (\<exists>content. re_marshal env cfg = Some content
            \<and> d = (w_disk w)(st_path (w_store w) \<mapsto> content, st_path (w_store w) @ ''.tmp'' := None))" if "err = None"
      using sv that by (auto simp: Save_def Let_def split: if_splits option.splits)
    show ?thesis
    proof (cases err)
      case None
      let ?w = "w\<lparr>w_disk := d, w_store := st\<rparr>"
      obtain sys eff ok where rl: "discoverAndApply (re_ops env) (re_uri_ok env) (re_listen env) st (w_system w) = (sys, eff, ok)"
        by (rule prod_cases3)
      then have "w' = ?w\<lparr>w_system := sys\<rparr> \<and> status = (if ok then 200 else 500)"
        using h sv Some None by (auto simp: handleUpdate_def reload_world_def split: bool.splits)
      then have "w_store w' = st" "w_disk w' = d" "w_system w' = sys" "status = (if ok then 200 else 500)" by simp_all
      with good [OF None] rl Some True show ?thesis by (auto split: if_splits)
    next
      case err: (Some e)
      with h sv Some True bad show ?thesis by (auto simp: handleUpdate_def)
    qed
  qed
qed (use assms in \<open>auto simp: admin_handle_def admin_auth_def split: if_splits\<close>)

definition demo_env :: "((string \<times> string) \<Rightarrow> int option) Backend request_env" where
  "demo_env = \<lparr>re_ops = demo_k8s, re_listen = (\<lambda>_ _. True), re_uri_ok = (\<lambda>_. True), re_cron_ok = (\<lambda>_. True),
     re_marshal = (\<lambda>_. Some ''services:''), re_unmarshal = (\<lambda>_. Some []), re_placeholder = ''#'', re_readable = True,
     re_writable = True, re_write_failed = None, re_rename_ok = True\<rparr>"

definition demo_world :: "((string \<times> string) \<Rightarrow> int option) Backend world" where
  "demo_world = \<lparr>w_disk = Map.empty, w_store = New_Store ''/c'', w_system = (None, demo_backend, demo_server)\<rparr>"

theorem admin_updates_are_checked_witness:
  "fst (admin_handle demo_env ''key'' ''guess'' (UpdateConfig (Some [demo_entry])) demo_world) = demo_world
   \<and> st_config (w_store (fst (admin_handle demo_env ''key'' ''key'' (UpdateConfig (Some [demo_entry])) demo_world))) = [demo_entry]
   \<and> w_disk (fst (admin_handle demo_env ''key'' ''key'' (UpdateConfig (Some [demo_entry])) demo_world)) ''/c'' = Some ''services:''"
proof -
  obtain w1 n1 r1 where one: "admin_handle demo_env ''key'' ''guess'' (UpdateConfig (Some [demo_entry])) demo_world = (w1, n1, r1)"
    by (rule prod_cases3)
  obtain w2 n2 r2 where two: "admin_handle demo_env ''key'' ''key'' (UpdateConfig (Some [demo_entry])) demo_world = (w2, n2, r2)"
    by (rule prod_cases3)
  have "n2 \<notin> {400, 401}"
    using two by (auto simp: admin_handle_def admin_auth_def handleUpdate_def Save_def validate_def entry_errors_def demo_env_def
        demo_entry_def demo_world_def New_Store_def split: prod.splits bool.splits)
  with admin_updates_are_checked [OF two, of "Some [demo_entry]"]
  have "w_store w2 = (w_store demo_world)\<lparr>st_config := [demo_entry]\<rparr>" "w_disk w2 ''/c'' = Some ''services:''"
    by (auto simp: demo_env_def demo_world_def New_Store_def)
  with admin_updates_are_checked [OF one, of "Some [demo_entry]"]
  show ?thesis by (simp add: one two)
qed

end
