(* ===== verification/Git_Pack.thy ===== *)
theory Git_Pack
  imports Go_Path
begin

text \<open>
  \<open>internal/portainer/git.go\<close>: the read-only git endpoint that serves the recipe files as a
  one-commit repository, built anew for every request. Bytes are characters. SHA-1 and zlib are
  arguments \<open>sha1\<close> and \<open>zlib\<close>; the file system is an argument \<open>recipe_files\<close> that answers
  \<open>filepath.Glob\<close> and \<open>os.ReadFile\<close>. The contract, a client that clones, is in \<open>Git_Clone\<close>.
\<close>

subsection \<open>Objects\<close>

definition objCommit :: int where "objCommit = 1"
definition objTree :: int where "objTree = 2"
definition objBlob :: int where "objBlob = 3"

record repoSnapshot =
  commitSHA :: string
  packData :: string

record recipe_files =
  glob_files :: "string \<Rightarrow> string list option"
  read_file :: "string \<Rightarrow> string option"

definition gitObjectData :: "string \<Rightarrow> string \<Rightarrow> string" where
  "gitObjectData objType content = objType @ '' '' @ show_int (int (length content)) @ [CHR 0x00] @ content"

definition gitSHA :: "(string \<Rightarrow> string) \<Rightarrow> string \<Rightarrow> string \<Rightarrow> string" where
  "gitSHA sha1 objType content = sha1 (gitObjectData objType content)"

text \<open>
  The type and size header: the loop emits seven bits of the size a byte, lowest first, with the
  top bit saying that more follow.
\<close>

unbundle bit_operations_syntax

function type_size_loop :: "8 word \<Rightarrow> int \<Rightarrow> string" where
  "type_size_loop b sz =
     (if 0 < sz
      then char_of (unat (b OR 0x80)) # type_size_loop (word_of_int (sz AND 0x7f)) (drop_bit 7 sz)
      else [char_of (unat b)])"
  by pat_completeness auto
termination by (relation "measure (nat \<circ> snd)") (auto simp: drop_bit_eq_div)

declare type_size_loop.simps [simp del]

definition packTypeSize :: "int \<Rightarrow> int \<Rightarrow> string" where
  "packTypeSize objType sz =
     type_size_loop (word_of_int (push_bit 4 objType OR (sz AND 0xf))) (drop_bit 4 sz)"

subsection \<open>The snapshot\<close>

record blobEntry =
  blob_name :: string
  blob_sha :: string
  blob_content :: string

fun read_blobs :: "(string \<Rightarrow> string) \<Rightarrow> recipe_files \<Rightarrow> string list \<Rightarrow> blobEntry list" where
  "read_blobs sha1 fs [] = []"
| "read_blobs sha1 fs (path # paths) =
     (case read_file fs path of
        None \<Rightarrow> read_blobs sha1 fs paths
      | Some data \<Rightarrow>
          \<lparr>blob_name = path_base path, blob_sha = gitSHA sha1 ''blob'' data, blob_content = data\<rparr>
          # read_blobs sha1 fs paths)"

text \<open>An error of \<open>Glob\<close> is ignored: no entries.\<close>

definition recipe_paths :: "recipe_files \<Rightarrow> string \<Rightarrow> string list" where
  "recipe_paths fs recipesDir =
     (case glob_files fs (path_join [recipesDir, ''*.yml'']) of None \<Rightarrow> [] | Some ps \<Rightarrow> sort ps)"

definition tree_bytes :: "blobEntry list \<Rightarrow> string" where
  "tree_bytes blobs = concat (map (\<lambda>b. ''100644 '' @ blob_name b @ [CHR 0x00] @ blob_sha b) blobs)"

text \<open>\<open>%x\<close> of a byte string.\<close>

definition hex_digit :: "nat \<Rightarrow> char" where
  "hex_digit n = (if n < 10 then char_of (48 + n) else char_of (87 + n))"

definition hex_bytes :: "string \<Rightarrow> string" where
  "hex_bytes s = concat (map (\<lambda>c. let n = of_char c :: nat in [hex_digit (n div 16), hex_digit (n mod 16)]) s)"

definition commit_bytes :: "string \<Rightarrow> string" where
  "commit_bytes treeSHA =
     ''tree '' @ hex_bytes treeSHA @ [CHR 0x0A]
     @ ''author lazy-tcp-proxy <noreply@localhost> 0 +0000'' @ [CHR 0x0A]
     @ ''committer lazy-tcp-proxy <noreply@localhost> 0 +0000'' @ [CHR 0x0A, CHR 0x0A]
     @ ''recipes'' @ [CHR 0x0A]"

text \<open>\<open>binary.Write(w, binary.BigEndian, uint32(n))\<close>.\<close>

definition big_endian32 :: "32 word \<Rightarrow> string" where
  "big_endian32 w = map (\<lambda>k. char_of (unat (drop_bit k w AND 0xff))) [24, 16, 8, 0]"

definition pack_object :: "(string \<Rightarrow> string) \<Rightarrow> int \<Rightarrow> string \<Rightarrow> string" where
  "pack_object zlib objType content = packTypeSize objType (int (length content)) @ zlib content"

definition pack_body :: "(string \<Rightarrow> string) \<Rightarrow> string list \<Rightarrow> string \<Rightarrow> string \<Rightarrow> string" where
  "pack_body zlib contents tree commit =
     ''PACK'' @ big_endian32 2 @ big_endian32 (word_of_nat (length contents + 2))
     @ concat (map (pack_object zlib objBlob) contents)
     @ pack_object zlib objTree tree @ pack_object zlib objCommit commit"

definition buildSnapshot ::
  "(string \<Rightarrow> string) \<Rightarrow> (string \<Rightarrow> string) \<Rightarrow> recipe_files \<Rightarrow> string \<Rightarrow> repoSnapshot" where
  "buildSnapshot sha1 zlib fs recipesDir =
     (let blobs = read_blobs sha1 fs (recipe_paths fs recipesDir);
          tree = tree_bytes blobs;
          commit = commit_bytes (gitSHA sha1 ''tree'' tree);
          body = pack_body zlib (map blob_content blobs) tree commit
      in \<lparr>commitSHA = gitSHA sha1 ''commit'' commit, packData = body @ sha1 body\<rparr>)"

subsection \<open>The protocol\<close>

fun show_hex :: "nat \<Rightarrow> string" where
  "show_hex n = (if n < 16 then [hex_digit n] else show_hex (n div 16) @ [hex_digit (n mod 16)])"

declare show_hex.simps [simp del]

text \<open>\<open>%04x\<close> pads to four digits and prints more when they are needed.\<close>

definition hex4 :: "nat \<Rightarrow> string" where
  "hex4 n = replicate (4 - length (show_hex n)) (CHR ''0'') @ show_hex n"

definition pktLine :: "string \<Rightarrow> string" where
  "pktLine s = hex4 (length s + 4) @ s"

definition pktFlush :: string where "pktFlush = ''0000''"

record http_response =
  resp_status :: nat
  resp_headers :: "(string \<times> string) list"
  resp_body :: string

definition serveInfoRefs :: "repoSnapshot \<Rightarrow> http_response" where
  "serveInfoRefs snap =
     (let sha = hex_bytes (commitSHA snap) in
      \<lparr>resp_status = 200,
       resp_headers = [(''Content-Type'', ''application/x-git-upload-pack-advertisement''),
                       (''Cache-Control'', ''no-cache'')],
       resp_body =
         pktLine (''# service=git-upload-pack'' @ [CHR 0x0A]) @ pktFlush
         @ pktLine (sha @ '' HEAD'' @ [CHR 0x00]
             @ ''symref=HEAD:refs/heads/main side-band-64k agent=lazy-tcp-proxy'' @ [CHR 0x0A])
         @ pktLine (sha @ '' refs/heads/main'' @ [CHR 0x0A]) @ pktFlush\<rparr>)"

definition chunkSize :: nat where "chunkSize = 65516"

function band_chunks :: "string \<Rightarrow> string list" where
  "band_chunks data =
     (if 0 < length data
      then let n = if length data > chunkSize then chunkSize else length data
           in pktLine (CHR 0x01 # take n data) # band_chunks (drop n data)
      else [])"
  by pat_completeness auto
termination by (relation "measure length") (auto simp: chunkSize_def)

declare band_chunks.simps [simp del]

definition serveUploadPack :: "repoSnapshot \<Rightarrow> string \<Rightarrow> http_response" where
  "serveUploadPack snap body =
     \<lparr>resp_status = 200,
      resp_headers = [(''Content-Type'', ''application/x-git-upload-pack-result''),
                      (''Cache-Control'', ''no-cache'')],
      resp_body =
        (if contains body ''deepen''
         then pktLine (''shallow '' @ hex_bytes (commitSHA snap) @ [CHR 0x0A]) @ pktFlush else [])
        @ pktLine (''NAK'' @ [CHR 0x0A])
        @ (if contains body ''side-band'' then concat (band_chunks (packData snap)) @ pktFlush
           else packData snap)\<rparr>"

text \<open>\<open>http.NotFound\<close>.\<close>

definition not_found :: http_response where
  "not_found =
     \<lparr>resp_status = 404,
      resp_headers = [(''Content-Type'', ''text/plain; charset=utf-8''), (''X-Content-Type-Options'', ''nosniff'')],
      resp_body = ''404 page not found'' @ [CHR 0x0A]\<rparr>"

definition GitHandler ::
  "(string \<Rightarrow> string) \<Rightarrow> (string \<Rightarrow> string) \<Rightarrow> recipe_files \<Rightarrow> string \<Rightarrow> string \<Rightarrow> string \<Rightarrow> http_response" where
  "GitHandler sha1 zlib fs recipesDir path body =
     (let snap = buildSnapshot sha1 zlib fs recipesDir in
      if suffix ''/info/refs'' path then serveInfoRefs snap
      else if suffix ''/git-upload-pack'' path then serveUploadPack snap body
      else not_found)"

end
