(* ===== verification/Git_Clone.thy ===== *)
theory Git_Clone
  imports Git_Pack
begin

text \<open>
  The contract of the git endpoint: git's side of the protocol as executable readers, each the
  inverse of one writer of \<open>Git_Pack\<close>, put together into a client that clones. A reader returns what
  it read and the bytes that remain, so the round trips of the parts compose.
\<close>

subsection \<open>Hexadecimal\<close>

definition hex_val :: "char \<Rightarrow> nat option" where
  "hex_val c =
     (let n = of_char c :: nat in
      if 48 \<le> n \<and> n \<le> 57 then Some (n - 48) else if 97 \<le> n \<and> n \<le> 102 then Some (n - 87) else None)"

fun read_hex :: "nat \<Rightarrow> string \<Rightarrow> nat option" where
  "read_hex acc [] = Some acc"
| "read_hex acc (c # cs) = (case hex_val c of None \<Rightarrow> None | Some d \<Rightarrow> read_hex (16 * acc + d) cs)"

fun unhex_bytes :: "string \<Rightarrow> string option" where
  "unhex_bytes [] = Some []"
| "unhex_bytes [c] = None"
| "unhex_bytes (a # b # cs) =
     (case (hex_val a, hex_val b, unhex_bytes cs) of
        (Some x, Some y, Some r) \<Rightarrow> Some (char_of (16 * x + y) # r)
      | _ \<Rightarrow> None)"

lemma hex_val_digit [simp]: "d < 16 \<Longrightarrow> hex_val (hex_digit d) = Some d"
  by (auto simp: hex_val_def hex_digit_def Let_def)

lemma unhex_hex_bytes [simp]: "unhex_bytes (hex_bytes s) = Some s"
  by (induction s) (simp_all add: hex_bytes_def Let_def less_mult_imp_div_less)

lemma length_hex_bytes [simp]: "length (hex_bytes s) = 2 * length s"
  by (induction s) (simp_all add: hex_bytes_def Let_def)

lemma read_hex_append:
  "read_hex acc (s @ t) = (case read_hex acc s of None \<Rightarrow> None | Some a \<Rightarrow> read_hex a t)"
  by (induction s arbitrary: acc) (auto split: option.splits)

lemma read_show_hex: "read_hex 0 (show_hex n) = Some n"
proof (induction n rule: show_hex.induct)
  case (1 n)
  then show ?case by (cases "n < 16") (simp_all add: show_hex.simps [of n] read_hex_append)
qed

lemma read_hex_zeros: "read_hex 0 (replicate k (CHR ''0'') @ s) = read_hex 0 s"
  by (induction k) (simp_all add: hex_val_def)

lemma length_show_hex: "n < 16 ^ Suc k \<Longrightarrow> length (show_hex n) \<le> Suc k"
proof (induction k arbitrary: n)
  case (Suc k)
  then have "n div 16 < 16 ^ Suc k" by (simp add: less_mult_imp_div_less mult.commute)
  then show ?case using Suc.IH [of "n div 16"] by (simp add: show_hex.simps [of n])
qed (simp add: show_hex.simps)

lemma length_hex4: "n < 65536 \<Longrightarrow> length (hex4 n) = 4"
  using length_show_hex [of n 3] by (simp add: hex4_def)

lemma read_hex4: "read_hex 0 (hex4 n) = Some n"
  by (simp add: hex4_def read_hex_zeros read_show_hex)

subsection \<open>pkt-lines\<close>

text \<open>A line (\<open>Some\<close>) or a flush packet, and the rest of the stream.\<close>

definition read_pkt :: "string \<Rightarrow> (string option \<times> string) option" where
  "read_pkt s =
     (if length s < 4 then None
      else case read_hex 0 (take 4 s) of
        None \<Rightarrow> None
      | Some n \<Rightarrow>
          if n = 0 then Some (None, drop 4 s)
          else if n < 4 \<or> length s < n then None
          else Some (Some (take (n - 4) (drop 4 s)), drop n s))"

lemma read_pktLine [simp]:
  assumes "length l < 65532"
  shows "read_pkt (pktLine l @ rest) = Some (Some l, rest)"
proof -
  have "length (hex4 (length l + 4)) = 4" using assms by (intro length_hex4) simp
  then show ?thesis by (simp add: read_pkt_def pktLine_def read_hex4)
qed

lemma read_pktFlush [simp]: "read_pkt (pktFlush @ rest) = Some (None, rest)"
  by (simp add: read_pkt_def pktFlush_def hex_val_def)

text \<open>All lines up to the next flush. The fuel bounds the lines; the length of the stream is enough.\<close>

fun read_pkts :: "nat \<Rightarrow> string \<Rightarrow> (string list \<times> string) option" where
  "read_pkts 0 s = None"
| "read_pkts (Suc n) s =
     (case read_pkt s of
        None \<Rightarrow> None
      | Some (None, r) \<Rightarrow> Some ([], r)
      | Some (Some l, r) \<Rightarrow> map_option (\<lambda>(ls, r'). (l # ls, r')) (read_pkts n r))"

lemma read_pkts_lines:
  assumes "\<forall>l \<in> set ls. length l < 65532" "length ls < n"
  shows "read_pkts n (concat (map pktLine ls) @ pktFlush @ rest) = Some (ls, rest)"
  using assms
proof (induction ls arbitrary: n)
  case Nil
  then show ?case by (cases n) simp_all
next
  case (Cons l ls)
  then show ?case by (cases n) simp_all
qed

lemma length_pktLine_ge: "4 + length l \<le> length (pktLine l)"
  by (simp add: pktLine_def hex4_def)

lemma pktLines_length: "length ls \<le> length (concat (map pktLine ls))"
proof (induction ls)
  case (Cons l ls)
  then show ?case using length_pktLine_ge [of l] by simp
qed simp

definition read_section :: "string \<Rightarrow> (string list \<times> string) option" where
  "read_section s = read_pkts (length s) s"

lemma read_section_lines [simp]:
  assumes "\<forall>l \<in> set ls. length l < 65532"
  shows "read_section (concat (map pktLine ls) @ pktFlush @ rest) = Some (ls, rest)"
proof -
  have "length ls < length (concat (map pktLine ls) @ pktFlush @ rest)"
    using pktLines_length [of ls] by (simp add: pktFlush_def)
  then show ?thesis unfolding read_section_def using assms by (intro read_pkts_lines)
qed

subsection \<open>Object headers and integers\<close>

text \<open>Bytes of seven bits, lowest first, at the given place; the last one has the top bit clear.\<close>

fun read_varint :: "nat \<Rightarrow> nat \<Rightarrow> string \<Rightarrow> (nat \<times> string) option" where
  "read_varint place acc [] = None"
| "read_varint place acc (c # cs) =
     (let n = of_char c :: nat; acc' = acc + (n mod 128) * place in
      if n < 128 then Some (acc', cs) else read_varint (place * 128) acc' cs)"

definition read_type_size :: "string \<Rightarrow> (nat \<times> nat \<times> string) option" where
  "read_type_size s =
     (case s of
        [] \<Rightarrow> None
      | c # cs \<Rightarrow>
          (let n = of_char c :: nat; ty = n mod 128 div 16 in
           if n < 128 then Some (ty, n mod 16, cs)
           else map_option (\<lambda>(sz, r). (ty, sz, r)) (read_varint 16 (n mod 16) cs)))"

definition read_be32 :: "string \<Rightarrow> nat" where
  "read_be32 s = foldl (\<lambda>acc c. 256 * acc + of_char c) 0 (take 4 s)"

lemma byte_of_seven_bits:
  assumes "0 \<le> x" "x < 128"
  shows "unat (word_of_int x :: 8 word) = nat x"
    and "unat (word_of_int x OR 0x80 :: 8 word) = nat x + 128"
proof -
  show "unat (word_of_int x :: 8 word) = nat x"
    using assms by (simp add: take_bit_eq_mod uint_word_of_int_eq flip: nat_uint_eq)
  have "uint (word_of_int x OR 0x80 :: 8 word) = x OR 128"
    using assms by (simp add: uint_or take_bit_eq_mod uint_word_of_int_eq)
  also have "\<dots> = take_bit 7 x OR push_bit 7 1" using assms by (simp add: take_bit_eq_mod)
  also have "\<dots> = x + 128" using assms concat_bit_eq [of 7 x 1]
    by (simp add: concat_bit_def take_bit_eq_mod)
  finally show "unat (word_of_int x OR 0x80 :: 8 word) = nat x + 128"
    using assms by (simp add: nat_add_distrib flip: nat_uint_eq)
qed

lemma seven_bits: "(i :: int) AND 0x7f = i mod 128" "(i :: int) AND 0xf = i mod 16"
  using take_bit_eq_mask [of 7 i] take_bit_eq_mask [of 4 i] by (simp_all add: take_bit_eq_mod mask_eq_exp_minus_1)

lemma read_varint_loop:
  assumes "0 \<le> x" "x < 128" "0 \<le> sz"
  shows "read_varint place acc (type_size_loop (word_of_int x) sz @ rest)
      = Some (acc + (nat x + 128 * nat sz) * place, rest)"
  using assms
proof (induction "nat sz" arbitrary: x sz place acc rule: less_induct)
  case less
  show ?case
  proof (cases "0 < sz")
    case False
    moreover have "nat x < 128" using less.prems by linarith
    ultimately show ?thesis using less.prems
      by (simp add: type_size_loop.simps byte_of_seven_bits Let_def)
  next
    case True
    have x: "unat (word_of_int x OR 0x80 :: 8 word) = nat x + 128"
      using less.prems by (intro byte_of_seven_bits)
    have sz: "nat sz = nat (sz mod 128) + 128 * nat (sz div 128)"
      using less.prems by (simp add: nat_mod_distrib nat_div_distrib)
    have "read_varint (place * 128) (acc + nat x * place) (type_size_loop (word_of_int (sz mod 128)) (sz div 128) @ rest)
        = Some (acc + nat x * place + (nat (sz mod 128) + 128 * nat (sz div 128)) * (place * 128), rest)"
      using less.prems True by (intro less.hyps) auto
    moreover have "nat x mod 128 = nat x" using less.prems by simp
    ultimately show ?thesis using True less.prems sz
      by (simp add: type_size_loop.simps [of _ sz] x seven_bits drop_bit_eq_div algebra_simps)
  qed
qed

lemma mod_add_cancel16: "((m :: nat) + 128) mod 16 = m mod 16"
  using mod_mult_self2 [of m 16 8] by simp

lemma read_type_size_header:
  assumes "0 \<le> ty" "ty < 8"
  shows "read_type_size (packTypeSize ty (int n) @ rest) = Some (nat ty, n, rest)"
proof -
  define x q where x_def: "x = 16 * ty + int n mod 16" and q_def: "q = int n div 16"
  have "push_bit 4 ty OR (int n AND 0xf) = concat_bit 4 (int n) ty"
    by (simp add: concat_bit_def seven_bits take_bit_eq_mod or.commute)
  also have "\<dots> = x" by (simp add: x_def concat_bit_eq take_bit_eq_mod push_bit_eq_mult)
  finally have hd: "packTypeSize ty (int n) = type_size_loop (word_of_int x) q"
    by (simp add: packTypeSize_def drop_bit_eq_div q_def)
  have x: "0 \<le> x" "x < 128" "nat x < 128" using assms by (auto simp: x_def)
  have parts: "nat x div 16 = nat ty" "nat x mod 16 = n mod 16" using assms by (auto simp: x_def nat_add_distrib nat_mult_distrib nat_mod_distrib)
  show ?thesis
  proof (cases "0 < q")
    case False
    then have "n < 16" by (simp add: q_def)
    then show ?thesis using parts x False
      by (simp add: hd read_type_size_def type_size_loop.simps byte_of_seven_bits [OF x(1,2)] Let_def)
  next
    case True
    have "read_varint 16 (n mod 16) (type_size_loop (word_of_int (q mod 128)) (q div 128) @ rest)
        = Some (n mod 16 + (nat (q mod 128) + 128 * nat (q div 128)) * 16, rest)"
      using True by (intro read_varint_loop) auto
    also have "n mod 16 + (nat (q mod 128) + 128 * nat (q div 128)) * 16 = n"
      by (simp add: q_def nat_mod_distrib nat_div_distrib)
    finally have rest: "read_varint 16 (n mod 16) (type_size_loop (word_of_int (q mod 128)) (q div 128) @ rest) = Some (n, rest)" .
    have low: "(nat x + 128) mod 16 = n mod 16" and ty: "(nat x + 128) mod 128 div 16 = nat ty"
      by (metis parts(2) mod_add_cancel16) (metis parts(1) mod_add_self2 mod_less x(3))
    have "packTypeSize ty (int n) = char_of (nat x + 128) # type_size_loop (word_of_int (q mod 128)) (q div 128)"
      using True by (simp add: hd type_size_loop.simps [of _ q] byte_of_seven_bits [OF x(1,2)] seven_bits drop_bit_eq_div)
    moreover have "of_char (char_of (nat x + 128) :: char) = nat x + 128" using x(3) by simp
    ultimately show ?thesis using rest low ty
      by (simp only: read_type_size_def append_Cons list.case Let_def) simp
  qed
qed

lemma base_256:
  "16777216 * (v div 16777216) + 65536 * (v div 65536 mod 256) + 256 * (v div 256 mod 256) + v mod 256 = (v :: nat)"
proof -
  have d: "v div 65536 = v div 256 div 256" "v div 16777216 = v div 256 div 256 div 256"
    by (simp_all flip: div_mult2_eq)
  have "v = 256 * (v div 256) + v mod 256" "v div 256 = 256 * (v div 256 div 256) + v div 256 mod 256"
    "v div 256 div 256 = 256 * (v div 256 div 256 div 256) + v div 256 div 256 mod 256"
    by simp_all
  then show ?thesis unfolding d by linarith
qed

lemma read_be32_big_endian [simp]: "read_be32 (big_endian32 w @ rest) = unat w"
proof -
  have b: "unat (drop_bit k w AND 0xff) mod 256 = unat w div 2 ^ k mod 256" for k
  proof -
    have "drop_bit k w AND 0xff = take_bit 8 (drop_bit k w)"
      by (simp add: take_bit_eq_mask mask_eq_exp_minus_1)
    then have "unat (drop_bit k w AND 0xff) = take_bit 8 (unat (drop_bit k w))"
      by (simp only: unsigned_take_bit_eq)
    then show ?thesis by (simp add: unat_drop_bit_eq take_bit_eq_mod drop_bit_eq_div [of k "unat w"])
  qed
  have "unat w < 2 ^ 32" using unsigned_less [of w, where ?'a = nat] by simp
  then have "256 * (256 * (256 * (unat w div 2 ^ 24 mod 256) + unat w div 2 ^ 16 mod 256) + unat w div 2 ^ 8 mod 256)
      + unat w div 2 ^ 0 mod 256 = unat w"
    using base_256 [of "unat w"] by simp
  with b [of 0] show ?thesis by (simp add: read_be32_def big_endian32_def b)
qed

subsection \<open>PACK files\<close>

text \<open>
  \<open>inflate\<close> reads one zlib stream from the front of its input and returns the data and what follows,
  as git's \<open>index-pack\<close> uses it. A pack is refused unless its signature, version, object count, sizes
  and trailing checksum are right and nothing is left over.
\<close>

definition read_object ::
  "(string \<Rightarrow> (string \<times> string) option) \<Rightarrow> string \<Rightarrow> ((nat \<times> string) \<times> string) option" where
  "read_object inflate s =
     (case read_type_size s of
        None \<Rightarrow> None
      | Some (ty, n, r) \<Rightarrow>
          (case inflate r of
             None \<Rightarrow> None
           | Some (d, r') \<Rightarrow> if length d = n then Some ((ty, d), r') else None))"

fun read_objects ::
  "(string \<Rightarrow> (string \<times> string) option) \<Rightarrow> nat \<Rightarrow> string \<Rightarrow> ((nat \<times> string) list \<times> string) option" where
  "read_objects inflate 0 s = Some ([], s)"
| "read_objects inflate (Suc n) s =
     (case read_object inflate s of
        None \<Rightarrow> None
      | Some (x, r) \<Rightarrow> map_option (\<lambda>(xs, r'). (x # xs, r')) (read_objects inflate n r))"

definition read_pack ::
  "(string \<Rightarrow> string) \<Rightarrow> (string \<Rightarrow> (string \<times> string) option) \<Rightarrow> string \<Rightarrow> (nat \<times> string) list option" where
  "read_pack sha1 inflate s =
     (let content = take (length s - 20) s in
      if take 4 s \<noteq> ''PACK'' \<or> read_be32 (drop 4 s) \<noteq> 2 \<or> drop (length s - 20) s \<noteq> sha1 content then None
      else case read_objects inflate (read_be32 (drop 8 s)) (drop 12 content) of
        Some (xs, []) \<Rightarrow> Some xs
      | _ \<Rightarrow> None)"

lemma read_pack_object:
  assumes "\<And>d r. inflate (zlib d @ r) = Some (d, r)" "0 \<le> ty" "ty < 8"
  shows "read_object inflate (pack_object zlib ty d @ rest) = Some ((nat ty, d), rest)"
  using assms by (simp add: read_object_def pack_object_def read_type_size_header)

lemma read_pack_objects:
  assumes "\<And>d r. inflate (zlib d @ r) = Some (d, r)" "\<forall>(ty, d) \<in> set xs. 0 \<le> ty \<and> ty < 8"
  shows "read_objects inflate (length xs) (concat (map (\<lambda>(ty, d). pack_object zlib ty d) xs) @ rest)
      = Some (map (\<lambda>(ty, d). (nat ty, d)) xs, rest)"
  using assms(2)
proof (induction xs)
  case (Cons x xs)
  then show ?case by (cases x) (simp add: read_pack_object [OF assms(1)])
qed simp

lemma length_big_endian32 [simp]: "length (big_endian32 w) = 4"
  by (simp add: big_endian32_def)

lemma read_pack_framed:
  assumes "\<And>d. length (sha1 d) = 20" "s = ''PACK'' @ big_endian32 2 @ big_endian32 w @ objs"
    "read_objects inflate (unat w) objs = Some (xs, [])"
  shows "read_pack sha1 inflate (s @ sha1 s) = Some xs"
proof -
  have "take 4 (s @ sha1 s) = ''PACK''" by (simp add: assms(2))
  moreover have "drop 4 (s @ sha1 s) = big_endian32 2 @ big_endian32 w @ objs @ sha1 s"
    "drop 8 (s @ sha1 s) = big_endian32 w @ objs @ sha1 s" "drop 12 s = objs"
    unfolding assms(2) by simp_all
  ultimately show ?thesis by (simp add: read_pack_def assms(1,3))
qed

text \<open>The objects of a snapshot, as the pack holds them.\<close>

definition repo_objects :: "string list \<Rightarrow> string \<Rightarrow> string \<Rightarrow> (nat \<times> string) list" where
  "repo_objects contents tree commit = map (\<lambda>d. (3, d)) contents @ [(2, tree), (1, commit)]"

lemma read_pack_body:
  assumes inflate: "\<And>d r. inflate (zlib d @ r) = Some (d, r)"
    and sha1: "\<And>d. length (sha1 d) = 20" and few: "length contents + 2 < 2 ^ 32"
  shows "read_pack sha1 inflate (pack_body zlib contents tree commit @ sha1 (pack_body zlib contents tree commit))
      = Some (repo_objects contents tree commit)"
proof -
  let ?xs = "map (\<lambda>d. (objBlob, d)) contents @ [(objTree, tree), (objCommit, commit)]"
  let ?n = "word_of_nat (length contents + 2) :: 32 word"
  let ?objs = "concat (map (\<lambda>(ty, d). pack_object zlib ty d) ?xs)"
  have body: "pack_body zlib contents tree commit = ''PACK'' @ big_endian32 2 @ big_endian32 ?n @ ?objs"
    by (simp add: pack_body_def comp_def)
  have n: "unat ?n = length ?xs"
    using unat_of_nat [of "length contents + 2", where ?'a = 32] few by simp
  have "read_objects inflate (length ?xs) ?objs = Some (map (\<lambda>(ty, d). (nat ty, d)) ?xs, [])"
    using read_pack_objects [OF inflate, of ?xs "[]"] by (auto simp: objBlob_def objTree_def objCommit_def)
  also have "map (\<lambda>(ty, d). (nat ty, d)) ?xs = repo_objects contents tree commit"
    by (simp add: repo_objects_def objBlob_def objTree_def objCommit_def comp_def)
  finally have objs: "read_objects inflate (length ?xs) ?objs = Some (repo_objects contents tree commit, [])" .
  show ?thesis by (rule read_pack_framed [OF sha1 body]) (use n objs in simp)
qed

subsection \<open>Trees and commits\<close>

definition until :: "char list \<Rightarrow> string \<Rightarrow> string" where
  "until cs s = takeWhile (\<lambda>c. c \<notin> set cs) s"

text \<open>An entry \<open>mode SP name NUL sha\<close>, and all entries of a tree; the fuel bounds their number.\<close>

definition read_entry :: "string \<Rightarrow> ((string \<times> string) \<times> string) option" where
  "read_entry s =
     (let mode = until '' '' s; r = drop (Suc (length mode)) s; name = until [CHR 0x00] r;
          r' = drop (Suc (length name)) r in
      if mode \<noteq> ''100644'' \<or> length r' < 20 then None else Some ((name, take 20 r'), drop 20 r'))"

fun read_tree :: "nat \<Rightarrow> string \<Rightarrow> (string \<times> string) list option" where
  "read_tree fuel [] = Some []"
| "read_tree 0 s = None"
| "read_tree (Suc n) s =
     (case read_entry s of None \<Rightarrow> None | Some (e, r) \<Rightarrow> map_option ((#) e) (read_tree n r))"

definition read_commit :: "string \<Rightarrow> string option" where
  "read_commit s = (if prefix ''tree '' s then unhex_bytes (until [CHR 0x0A] (drop 5 s)) else None)"

definition type_name :: "nat \<Rightarrow> string" where
  "type_name ty = (if ty = 1 then ''commit'' else if ty = 2 then ''tree'' else ''blob'')"

definition find_object :: "(string \<Rightarrow> string) \<Rightarrow> (nat \<times> string) list \<Rightarrow> nat \<Rightarrow> string \<Rightarrow> string option" where
  "find_object sha1 objs ty sha =
     map_option snd (find (\<lambda>(t, d). t = ty \<and> gitSHA sha1 (type_name t) d = sha) objs)"

text \<open>The working tree of a commit: every name of its tree with the content of its blob.\<close>

definition checkout :: "(string \<Rightarrow> string) \<Rightarrow> (nat \<times> string) list \<Rightarrow> string \<Rightarrow> (string \<times> string) list option" where
  "checkout sha1 objs head =
     (case Option.bind (find_object sha1 objs 1 head) read_commit of
        None \<Rightarrow> None
      | Some t \<Rightarrow>
          (case Option.bind (find_object sha1 objs 2 t) (\<lambda>d. read_tree (length d) d) of
             None \<Rightarrow> None
           | Some entries \<Rightarrow>
               those (map (\<lambda>(name, sha). map_option (Pair name) (find_object sha1 objs 3 sha)) entries)))"

lemma until_append [simp]: "c \<in> set cs \<Longrightarrow> (\<forall>x \<in> set a. x \<notin> set cs) \<Longrightarrow> until cs (a @ c # r) = a"
  by (simp add: until_def takeWhile_append)

lemma read_entry_ok:
  assumes "CHR 0x00 \<notin> set name" "length sha = 20"
  shows "read_entry (''100644 '' @ name @ [CHR 0x00] @ sha @ rest) = Some ((name, sha), rest)"
proof -
  have mode: "until '' '' (''100644 '' @ r) = ''100644''" for r
    using until_append [of "CHR '' ''" "'' ''" "''100644''" r] by simp
  have name: "until [CHR 0x00] (name @ CHR 0x00 # r) = name" for r
    using assms(1) by (intro until_append) auto
  show ?thesis unfolding read_entry_def Let_def mode using name assms(2) by simp
qed

lemma read_tree_entries:
  assumes "\<forall>b \<in> set blobs. CHR 0x00 \<notin> set (blob_name b) \<and> length (blob_sha b) = 20" "length blobs \<le> n"
  shows "read_tree n (tree_bytes blobs) = Some (map (\<lambda>b. (blob_name b, blob_sha b)) blobs)"
  using assms
proof (induction blobs arbitrary: n)
  case (Cons b blobs)
  obtain m where n: "n = Suc m" using Cons.prems(2) by (cases n) auto
  have t: "tree_bytes (b # blobs) = ''100644 '' @ blob_name b @ [CHR 0x00] @ blob_sha b @ tree_bytes blobs"
    by (simp add: tree_bytes_def)
  have "read_entry (tree_bytes (b # blobs)) = Some ((blob_name b, blob_sha b), tree_bytes blobs)"
    unfolding t using Cons.prems(1) by (intro read_entry_ok) auto
  moreover have "read_tree m (tree_bytes blobs) = Some (map (\<lambda>b. (blob_name b, blob_sha b)) blobs)"
    using Cons.prems n by (intro Cons.IH) auto
  moreover obtain c cs where "tree_bytes (b # blobs) = c # cs" by (simp add: t)
  ultimately show ?case using n by simp
qed (simp add: tree_bytes_def)

lemma hex_digit_plain: "n < 16 \<Longrightarrow> hex_digit n \<noteq> CHR 0x0A \<and> hex_digit n \<noteq> CHR 0x00 \<and> hex_digit n \<noteq> CHR '' ''"
  using hex_val_digit [of n] by (auto simp: hex_val_def)

lemma hex_bytes_plain: "c \<in> set (hex_bytes s) \<Longrightarrow> c \<noteq> CHR 0x0A \<and> c \<noteq> CHR 0x00 \<and> c \<noteq> CHR '' ''"
  using hex_digit_plain by (auto simp: hex_bytes_def Let_def less_mult_imp_div_less)

lemma read_commit_bytes: "read_commit (commit_bytes sha) = Some sha"
proof -
  have "\<exists>r. commit_bytes sha = ''tree '' @ hex_bytes sha @ CHR 0x0A # r" by (simp add: commit_bytes_def)
  then obtain r where "drop 5 (commit_bytes sha) = hex_bytes sha @ CHR 0x0A # r" by auto
  then have "until [CHR 0x0A] (drop 5 (commit_bytes sha)) = hex_bytes sha"
    using hex_bytes_plain [of _ sha] by (metis until_append list.set_intros(1) empty_iff set_ConsD list.set(1))
  moreover have "prefix ''tree '' (commit_bytes sha)" by (simp add: commit_bytes_def)
  ultimately show ?thesis by (simp add: read_commit_def)
qed

lemma gitObjectData_inj: "gitObjectData ty c = gitObjectData ty d \<Longrightarrow> c = d"
proof -
  assume "gitObjectData ty c = gitObjectData ty d"
  then have e: "show_int (int (length c)) @ CHR 0x00 # c = show_int (int (length d)) @ CHR 0x00 # d"
    by (simp add: gitObjectData_def)
  have "CHR 0x00 \<notin> set (show_int (int n))" for n by (rule show_int_no_char) auto
  then have "until [CHR 0x00] (show_int (int n) @ CHR 0x00 # r) = show_int (int n)" for n r
    by (intro until_append) auto
  with e have "show_int (int (length c)) = show_int (int (length d))" by metis
  with e show "c = d" by simp
qed

lemma nth_mem_eq: "i < length xs \<Longrightarrow> xs ! i = x \<Longrightarrow> x \<in> set xs"
  by auto

lemma find_object_ok:
  assumes "inj_on sha1 ((\<lambda>(t, d). gitObjectData (type_name t) d) ` set objs)" "(ty, d) \<in> set objs"
  shows "find_object sha1 objs ty (gitSHA sha1 (type_name ty) d) = Some d"
proof -
  let ?P = "\<lambda>(t, e). t = ty \<and> gitSHA sha1 (type_name t) e = gitSHA sha1 (type_name ty) d"
  have "find ?P objs \<noteq> None" using assms(2) by (auto simp: find_None_iff)
  then obtain t e where f: "find ?P objs = Some (t, e)" by auto
  then have "?P (t, e)" "(t, e) \<in> set objs" by (auto simp: find_Some_iff intro: nth_mem_eq)
  with assms have "t = ty" "gitObjectData (type_name t) e = gitObjectData (type_name ty) d"
    by (auto simp: gitSHA_def dest!: inj_onD)
  then have "e = d" using gitObjectData_inj by blast
  with f show ?thesis by (simp add: find_object_def)
qed

lemma those_map: "(\<And>x. x \<in> set xs \<Longrightarrow> f x = Some (g x)) \<Longrightarrow> those (map f xs) = Some (map g xs)"
  by (induction xs) auto

subsection \<open>Cloning\<close>

text \<open>The commit the advertisement names as \<open>HEAD\<close>.\<close>

definition head_ref :: "string \<Rightarrow> string option" where
  "head_ref body =
     (case read_section body of
        Some ([service], r) \<Rightarrow>
          if service \<noteq> ''# service=git-upload-pack'' @ [CHR 0x0A] then None
          else (case read_section r of
            Some (l # ls, r') \<Rightarrow>
              if until [CHR 0x00] (drop 40 l) = '' HEAD'' then unhex_bytes (take 40 l) else None
          | _ \<Rightarrow> None)
      | _ \<Rightarrow> None)"

text \<open>
  The pack in the answer to a request: after the shallow section of a shallow clone comes \<open>NAK\<close>, then
  the pack, as it is or in packets of band 1.
\<close>

definition receive_pack :: "bool \<Rightarrow> bool \<Rightarrow> string \<Rightarrow> string option" where
  "receive_pack deepen side_band body =
     (case (if deepen then map_option snd (read_section body) else Some body) of
        None \<Rightarrow> None
      | Some r \<Rightarrow>
          (case read_pkt r of
             Some (Some l, r') \<Rightarrow>
               if l \<noteq> ''NAK'' @ [CHR 0x0A] then None
               else if \<not> side_band then Some r'
               else (case read_section r' of
                 Some (ls, []) \<Rightarrow> if list_all (prefix [CHR 0x01]) ls then Some (concat (map tl ls)) else None
               | _ \<Rightarrow> None)
           | _ \<Rightarrow> None))"

definition git_clone ::
  "(string \<Rightarrow> string) \<Rightarrow> (string \<Rightarrow> (string \<times> string) option) \<Rightarrow> (string \<Rightarrow> string \<Rightarrow> string)
   \<Rightarrow> string \<Rightarrow> string \<Rightarrow> (string \<times> string) list option" where
  "git_clone sha1 inflate serve url request =
     (case head_ref (serve (url @ ''/info/refs'') '''') of
        None \<Rightarrow> None
      | Some head \<Rightarrow>
          (case receive_pack (contains request ''deepen'') (contains request ''side-band'')
                  (serve (url @ ''/git-upload-pack'') request) of
             None \<Rightarrow> None
           | Some pack \<Rightarrow>
               (case read_pack sha1 inflate pack of
                  None \<Rightarrow> None
                | Some objs \<Rightarrow> checkout sha1 objs head)))"

lemma band_chunks_split:
  "\<exists>ds. band_chunks data = map pktLine (map ((#) (CHR 0x01)) ds) \<and> concat ds = data
      \<and> (\<forall>d \<in> set ds. d \<noteq> [] \<and> length d \<le> chunkSize)"
proof (induction data rule: band_chunks.induct)
  case (1 data)
  show ?case
  proof (cases "data = []")
    case True
    then show ?thesis by (intro exI [of _ "[]"]) (simp add: band_chunks.simps)
  next
    case False
    define n where "n = (if length data > chunkSize then chunkSize else length data)"
    have n: "0 < n" "n \<le> chunkSize" using False by (auto simp: n_def chunkSize_def)
    obtain ds where ds: "band_chunks (drop n data) = map pktLine (map ((#) (CHR 0x01)) ds)"
        "concat ds = drop n data" "\<forall>d \<in> set ds. d \<noteq> [] \<and> length d \<le> chunkSize"
      using 1 [OF _ n_def] False by auto
    have "band_chunks data = pktLine (CHR 0x01 # take n data) # band_chunks (drop n data)"
      using False by (simp add: band_chunks.simps [of data] n_def)
    then show ?thesis using ds n False by (intro exI [of _ "take n data # ds"]) auto
  qed
qed

lemma receive_pack_ok:
  assumes "length (commitSHA snap) = 20"
  shows "receive_pack (contains request ''deepen'') (contains request ''side-band'')
      (resp_body (serveUploadPack snap request)) = Some (packData snap)"
proof -
  define shallow where "shallow = ''shallow '' @ hex_bytes (commitSHA snap) @ [CHR 0x0A]"
  define rest where "rest = (if contains request ''side-band'' then concat (band_chunks (packData snap)) @ pktFlush
           else packData snap)"
  obtain ds where ds: "band_chunks (packData snap) = map pktLine (map ((#) (CHR 0x01)) ds)"
      "concat ds = packData snap" "\<forall>d \<in> set ds. d \<noteq> [] \<and> length d \<le> chunkSize"
    using band_chunks_split by blast
  have l: "length shallow < 65532" using assms by (simp add: shallow_def)
  have sec: "read_section (pktLine shallow @ pktFlush @ r) = Some ([shallow], r)" for r
    using read_section_lines [of "[shallow]" r] l by simp
  have bands: "read_section (concat (band_chunks (packData snap)) @ pktFlush) = Some (map ((#) (CHR 0x01)) ds, [])"
  proof -
    have "\<forall>l \<in> set (map ((#) (CHR 0x01)) ds). length l < 65532" using ds(3) by (auto simp: chunkSize_def)
    from read_section_lines [OF this, of "[]"] show ?thesis by (simp add: ds(1))
  qed
  have nak: "read_pkt (pktLine (''NAK'' @ [CHR 0x0A]) @ r) = Some (Some (''NAK'' @ [CHR 0x0A]), r)" for r
    by (rule read_pktLine) simp
  have "resp_body (serveUploadPack snap request)
      = (if contains request ''deepen'' then pktLine shallow @ pktFlush else []) @ pktLine (''NAK'' @ [CHR 0x0A]) @ rest"
    by (simp add: serveUploadPack_def shallow_def rest_def)
  moreover have "list_all (prefix [CHR 0x01]) (map ((#) (CHR 0x01)) ds)"
    "concat (map tl (map ((#) (CHR 0x01)) ds)) = packData snap"
    using ds(2) by (simp_all add: list_all_iff comp_def)
  ultimately show ?thesis
    unfolding receive_pack_def rest_def by (simp only: sec nak bands append.simps split: if_split) (auto simp: sec nak bands)
qed

lemma head_ref_ok:
  assumes "length (commitSHA snap) = 20"
  shows "head_ref (resp_body (serveInfoRefs snap)) = Some (commitSHA snap)"
proof -
  define sha where "sha = hex_bytes (commitSHA snap)"
  define head where "head = sha @ '' HEAD'' @ [CHR 0x00]
             @ ''symref=HEAD:refs/heads/main side-band-64k agent=lazy-tcp-proxy'' @ [CHR 0x0A]"
  define main where "main = sha @ '' refs/heads/main'' @ [CHR 0x0A]"
  define service where "service = ''# service=git-upload-pack'' @ [CHR 0x0A]"
  have len: "length sha = 40" using assms by (simp add: sha_def)
  have "read_section (pktLine service @ pktFlush @ r) = Some ([service], r)" for r
    using read_section_lines [of "[service]" r] by (simp add: service_def)
  moreover have "read_section (pktLine head @ pktLine main @ pktFlush) = Some ([head, main], [])"
    using read_section_lines [of "[head, main]" "[]"] len by (simp add: head_def main_def)
  moreover have "resp_body (serveInfoRefs snap) = pktLine service @ pktFlush @ pktLine head @ pktLine main @ pktFlush"
    by (simp add: serveInfoRefs_def Let_def service_def head_def main_def sha_def)
  moreover have "take 40 head = sha" "until [CHR 0x00] (drop 40 head) = '' HEAD''"
    using len until_append [of "CHR 0x00" "[CHR 0x00]" "'' HEAD''"] by (auto simp: head_def)
  ultimately show ?thesis by (simp add: head_ref_def service_def sha_def)
qed

text \<open>The files a repository is to hold: every recipe that can be read, by name.\<close>

definition recipe_contents :: "recipe_files \<Rightarrow> string list \<Rightarrow> (string \<times> string) list" where
  "recipe_contents fs paths =
     List.map_filter (\<lambda>p. map_option (Pair (path_base p)) (read_file fs p)) paths"

lemma read_blobs_contents:
  "map (\<lambda>b. (blob_name b, blob_content b)) (read_blobs sha1 fs paths) = recipe_contents fs paths"
  by (induction paths) (auto simp: recipe_contents_def List.map_filter_simps split: option.splits)

lemma read_blobs_sha: "b \<in> set (read_blobs sha1 fs paths) \<Longrightarrow>
    blob_sha b = gitSHA sha1 ''blob'' (blob_content b) \<and> blob_name b \<in> path_base ` set paths"
  by (induction paths) (auto split: option.splits)

lemma length_read_blobs: "length (read_blobs sha1 fs paths) \<le> length paths"
  by (induction paths) (auto split: option.splits)

text \<open>The objects of the repository over these files.\<close>

definition snapshot_objects :: "(string \<Rightarrow> string) \<Rightarrow> recipe_files \<Rightarrow> string \<Rightarrow> (nat \<times> string) list" where
  "snapshot_objects sha1 fs recipesDir =
     (let blobs = read_blobs sha1 fs (recipe_paths fs recipesDir); tree = tree_bytes blobs
      in repo_objects (map blob_content blobs) tree (commit_bytes (gitSHA sha1 ''tree'' tree)))"

definition no_collision :: "(string \<Rightarrow> string) \<Rightarrow> (nat \<times> string) list \<Rightarrow> bool" where
  "no_collision sha1 objs = inj_on sha1 ((\<lambda>(t, d). gitObjectData (type_name t) d) ` set objs)"

lemma length_tree_bytes: "length blobs \<le> length (tree_bytes blobs)"
  by (induction blobs) (simp_all add: tree_bytes_def)

lemma checkout_snapshot:
  assumes sha1: "\<And>d. length (sha1 d) = 20" and inj: "no_collision sha1 (snapshot_objects sha1 fs dir)"
    and names: "\<And>p. p \<in> set (recipe_paths fs dir) \<Longrightarrow> CHR 0x00 \<notin> set (path_base p)"
  shows "checkout sha1 (snapshot_objects sha1 fs dir) (commitSHA (buildSnapshot sha1 zlib fs dir))
      = Some (recipe_contents fs (recipe_paths fs dir))"
proof -
  define blobs where "blobs = read_blobs sha1 fs (recipe_paths fs dir)"
  define tree where "tree = tree_bytes blobs"
  define commit where "commit = commit_bytes (gitSHA sha1 ''tree'' tree)"
  define objs where "objs = snapshot_objects sha1 fs dir"
  have objs: "objs = repo_objects (map blob_content blobs) tree commit"
    by (simp add: objs_def snapshot_objects_def Let_def blobs_def tree_def commit_def)
  have obj: "find_object sha1 objs ty (gitSHA sha1 (type_name ty) d) = Some d" if "(ty, d) \<in> set objs" for ty d
    using find_object_ok [OF _ that] inj by (simp add: no_collision_def objs_def)
  have head: "commitSHA (buildSnapshot sha1 zlib fs dir) = gitSHA sha1 (type_name 1) commit"
    by (simp add: buildSnapshot_def Let_def blobs_def tree_def commit_def type_name_def)
  have c: "find_object sha1 objs 1 (commitSHA (buildSnapshot sha1 zlib fs dir)) = Some commit"
    unfolding head by (rule obj) (simp add: objs repo_objects_def)
  have t: "find_object sha1 objs 2 (gitSHA sha1 ''tree'' tree) = Some tree"
    using obj [of 2 tree] by (simp add: objs repo_objects_def type_name_def)
  have b: "find_object sha1 objs 3 (blob_sha b) = Some (blob_content b)" if "b \<in> set blobs" for b
    using obj [of 3 "blob_content b"] read_blobs_sha that
    by (fastforce simp: objs repo_objects_def type_name_def blobs_def)
  have "\<forall>b \<in> set blobs. CHR 0x00 \<notin> set (blob_name b) \<and> length (blob_sha b) = 20"
    using read_blobs_sha names unfolding blobs_def by (fastforce simp: gitSHA_def sha1)
  moreover have "length blobs \<le> length tree"
    by (simp add: tree_def length_tree_bytes)
  ultimately have entries: "read_tree (length tree) tree = Some (map (\<lambda>b. (blob_name b, blob_sha b)) blobs)"
    unfolding tree_def by (rule read_tree_entries)
  have "those (map (\<lambda>b. map_option (Pair (blob_name b)) (find_object sha1 objs 3 (blob_sha b))) blobs)
      = Some (map (\<lambda>b. (blob_name b, blob_content b)) blobs)"
    by (rule those_map) (simp add: b)
  then have "those (map (\<lambda>(name, sha). map_option (Pair name) (find_object sha1 objs 3 sha))
        (map (\<lambda>b. (blob_name b, blob_sha b)) blobs)) = Some (map (\<lambda>b. (blob_name b, blob_content b)) blobs)"
    by (simp add: comp_def)
  then show ?thesis
    unfolding checkout_def objs_def [symmetric] using c t entries
    by (simp add: read_commit_bytes commit_def blobs_def read_blobs_contents)
qed

text \<open>
  Stand-ins for the two parameters, to run the code on: a self-delimiting coding in the place of zlib
  and a 20-byte digest in the place of SHA-1.
\<close>

fun marked :: "string \<Rightarrow> string" where
  "marked [] = [CHR 0x00]"
| "marked (c # cs) = CHR 0x01 # c # marked cs"

fun unmarked :: "string \<Rightarrow> (string \<times> string) option" where
  "unmarked [] = None"
| "unmarked [m] = (if m = CHR 0x00 then Some ([], []) else None)"
| "unmarked (m # c # cs) =
     (if m = CHR 0x00 then Some ([], c # cs) else map_option (\<lambda>(d, r). (c # d, r)) (unmarked cs))"

lemma unmarked_marked [simp]: "unmarked (marked d @ r) = Some (d, r)"
proof (induction d)
  case Nil
  then show ?case by (cases r) simp_all
qed simp

definition length_digest :: "string \<Rightarrow> string" where
  "length_digest d = replicate 19 (CHR 0x00) @ [char_of (length d)]"

lemma length_length_digest [simp]: "length (length_digest d) = 20"
  by (simp add: length_digest_def)

definition sample_recipes :: recipe_files where
  "sample_recipes =
     \<lparr>glob_files = (\<lambda>_. Some [''/r/c.yml'', ''/r/b.yml'', ''/r/a.yml'']),
      read_file = map_of [(''/r/a.yml'', ''x''), (''/r/c.yml'', ''zz'')]\<rparr>"

text \<open>
  For every file system, recipe directory and request, a client that reads the advertised head,
  demultiplexes the answer, checks and unpacks the pack and checks out the commit gets exactly the
  readable files under their names, in name order.
\<close>

lemma git_clone_ok:
  assumes "\<And>d r. inflate (zlib d @ r) = Some (d, r)" "\<And>d. length (sha1 d) = 20"
    and "no_collision sha1 (snapshot_objects sha1 fs dir)"
    and "\<And>p. p \<in> set (recipe_paths fs dir) \<Longrightarrow> CHR 0x00 \<notin> set (path_base p)"
    and "length (recipe_paths fs dir) + 2 < 2 ^ 32"
  shows "git_clone sha1 inflate (\<lambda>path body. resp_body (GitHandler sha1 zlib fs dir path body)) url request
      = Some (recipe_contents fs (recipe_paths fs dir))"
proof -
  define snap where "snap = buildSnapshot sha1 zlib fs dir"
  have len: "length (commitSHA snap) = 20" by (simp add: snap_def buildSnapshot_def Let_def gitSHA_def assms(2))
  have refs: "GitHandler sha1 zlib fs dir (url @ ''/info/refs'') b = serveInfoRefs snap" for b
    by (simp add: GitHandler_def snap_def suffix_to_prefix)
  have "\<not> suffix ''/info/refs'' (url @ ''/git-upload-pack'')" by (simp add: suffix_to_prefix)
  then have pack: "GitHandler sha1 zlib fs dir (url @ ''/git-upload-pack'') b = serveUploadPack snap b" for b
    by (simp add: GitHandler_def snap_def suffix_to_prefix)
  have "length (read_blobs sha1 fs (recipe_paths fs dir)) + 2 < 2 ^ 32"
    using assms(5) length_read_blobs [of sha1 fs "recipe_paths fs dir"] by linarith
  then have "read_pack sha1 inflate (packData snap) = Some (snapshot_objects sha1 fs dir)"
    using read_pack_body [where ?sha1.0 = sha1, OF assms(1,2)]
    by (simp add: snap_def buildSnapshot_def snapshot_objects_def Let_def)
  with checkout_snapshot [OF assms(2-4)] show ?thesis
    by (simp add: git_clone_def refs pack head_ref_ok [OF len] receive_pack_ok [OF len]) (simp add: snap_def)
qed

lemma length_digest_eq: "length_digest a = length_digest b \<longleftrightarrow> length a mod 256 = length b mod 256"
  by (simp add: length_digest_def)

lemma no_collisionI:
  "distinct (map (\<lambda>(t, d). sha1 (gitObjectData (type_name t) d)) objs) \<Longrightarrow> no_collision sha1 objs"
  unfolding no_collision_def using distinct_map [of sha1 "map (\<lambda>(t, d). gitObjectData (type_name t) d) objs"]
  by (simp add: comp_def case_prod_unfold)

lemma sample_paths: "recipe_paths sample_recipes ''/r'' = [''/r/a.yml'', ''/r/b.yml'', ''/r/c.yml'']"
  by (simp add: recipe_paths_def sample_recipes_def)

lemma sample_contents:
  "recipe_contents sample_recipes [''/r/a.yml'', ''/r/b.yml'', ''/r/c.yml''] = [(''a.yml'', ''x''), (''c.yml'', ''zz'')]"
  by (simp add: recipe_contents_def List.map_filter_simps sample_recipes_def path_base_def Let_def)

lemma sample_blobs:
  "read_blobs length_digest sample_recipes [''/r/a.yml'', ''/r/b.yml'', ''/r/c.yml''] =
     [\<lparr>blob_name = ''a.yml'', blob_sha = gitSHA length_digest ''blob'' ''x'', blob_content = ''x''\<rparr>,
      \<lparr>blob_name = ''c.yml'', blob_sha = gitSHA length_digest ''blob'' ''zz'', blob_content = ''zz''\<rparr>]"
  by (simp add: sample_recipes_def path_base_def Let_def)

lemma sample_lengths:
  "length (commit_bytes h) = 2 * length h + 118"
  "length (tree_bytes (b # bs)) = length (blob_name b) + length (blob_sha b) + 8 + length (tree_bytes bs)"
  "tree_bytes [] = []"
  "length (gitSHA length_digest ty d) = 20"
  "length (gitObjectData ty d) = length ty + length (show_int (int (length d))) + 2 + length d"
  by (simp_all add: commit_bytes_def tree_bytes_def gitSHA_def gitObjectData_def)

lemma sample_no_collision: "no_collision length_digest (snapshot_objects length_digest sample_recipes ''/r'')"
  unfolding snapshot_objects_def sample_paths sample_blobs Let_def
  by (rule no_collisionI) (simp add: repo_objects_def length_digest_eq sample_lengths type_name_def,
      simp add: show_eval)

text \<open>A full side-band packet has five bytes more than \<open>chunkSize\<close>, one more than git's largest packet (65520).\<close>

lemma full_chunk_length:
  assumes "chunkSize \<le> length data"
  shows "length (hd (band_chunks data)) = 65521"
proof -
  have "band_chunks data = pktLine (CHR 0x01 # take chunkSize data) # band_chunks (drop chunkSize data)"
    using assms by (auto simp: band_chunks.simps [of data] chunkSize_def Let_def min_def)
  moreover have "length (hex4 65521) = 4" by (rule length_hex4) simp
  ultimately show ?thesis using assms by (simp add: pktLine_def chunkSize_def min_def)
qed

end
