(* ===== verification/Portainer_Templates.thy ===== *)
theory Portainer_Templates
  imports Git_Pack
begin

text \<open>
  \<open>internal/portainer/templates.go\<close>: the Portainer app templates built from the recipe files, with the
  scanner for \<open>${VAR}\<close> substitutions. The YAML decoder is an argument: what \<open>x-portainer\<close> holds of a
  file's text.
\<close>

subsection \<open>Data\<close>

record xPortainerMeta =
  meta_Title :: string
  meta_Description :: string
  meta_AdministratorOnly :: bool
  meta_Logo :: string
  meta_Categories :: "string list"
  meta_Note :: string

record Repository =
  repo_URL :: string
  repo_StackFile :: string

record EnvVar =
  env_Name :: string
  env_Label :: string
  env_Default :: "string option"

record Template =
  tmpl_Type :: int
  tmpl_Title :: string
  tmpl_Description :: string
  tmpl_AdministratorOnly :: bool
  tmpl_Logo :: string
  tmpl_Categories :: "string list"
  tmpl_Note :: string
  tmpl_Repository :: Repository
  tmpl_Env :: "EnvVar list"

record AppTemplates =
  at_Version :: string
  at_Templates :: "Template list"

subsection \<open>The scanner\<close>

text \<open>
  The regular expression \<open>\$\{([A-Za-z_][A-Za-z0-9_]*)(?::?-([^}]*))?\}\<close>. No character of a name can
  follow the name, so the longest name is the only one that can match, and the default is what stands
  before the first closing brace. An absent second group is the empty string, as in the source.
\<close>

definition var_start :: "char \<Rightarrow> bool" where
  "var_start c =
     (let n = of_char c :: nat in 65 \<le> n \<and> n \<le> 90 \<or> 97 \<le> n \<and> n \<le> 122 \<or> c = CHR ''_'')"

definition var_char :: "char \<Rightarrow> bool" where
  "var_char c = (let n = of_char c :: nat in var_start c \<or> 48 \<le> n \<and> n \<le> 57)"

definition default_part :: "string \<Rightarrow> (string \<times> string) option" where
  "default_part t =
     (if prefix ''}'' t then Some ('''', drop 1 t)
      else case (if prefix '':-'' t then Some (drop 2 t) else if prefix ''-'' t then Some (drop 1 t) else None) of
        None \<Rightarrow> None
      | Some d \<Rightarrow>
          if CHR ''}'' \<in> set d
          then Some (takeWhile (\<lambda>c. c \<noteq> CHR ''}'') d, drop 1 (dropWhile (\<lambda>c. c \<noteq> CHR ''}'') d))
          else None)"

definition match_env_var :: "string \<Rightarrow> ((string \<times> string) \<times> string) option" where
  "match_env_var s =
     (if \<not> prefix ''${'' s then None
      else case drop 2 s of
        [] \<Rightarrow> None
      | c # cs \<Rightarrow>
          if var_start c
          then map_option (\<lambda>(d, rest). ((c # takeWhile var_char cs, d), rest)) (default_part (dropWhile var_char cs))
          else None)"

lemma drop_while_shorter: "length (dropWhile P (drop k t)) - n \<le> length t"
  using length_dropWhile_le [of P "drop k t"] by simp

lemma default_part_shorter: "default_part t = Some (d, rest) \<Longrightarrow> length rest \<le> length t"
  by (auto simp: default_part_def drop_while_shorter split: if_splits)

lemma match_env_var_shorter: "match_env_var s = Some (m, rest) \<Longrightarrow> length rest < length s"
proof -
  assume "match_env_var s = Some (m, rest)"
  then obtain c cs d where s: "s = ''${'' @ c # cs" and "default_part (dropWhile var_char cs) = Some (d, rest)"
    by (auto simp: match_env_var_def prefix_def split: if_splits list.splits)
  then have "length rest \<le> length cs"
    using default_part_shorter length_dropWhile_le [of var_char cs] le_trans by blast
  with s show ?thesis by simp
qed

text \<open>\<open>FindAllStringSubmatch\<close>: leftmost matches that do not overlap.\<close>

function scan_env_vars :: "string \<Rightarrow> (string \<times> string) list" where
  "scan_env_vars s =
     (case s of
        [] \<Rightarrow> []
      | _ # cs \<Rightarrow> (case match_env_var s of None \<Rightarrow> scan_env_vars cs | Some (m, rest) \<Rightarrow> m # scan_env_vars rest))"
  by pat_completeness auto
termination by (relation "measure length") (auto dest: match_env_var_shorter)

declare scan_env_vars.simps [simp del]

definition env_step :: "string set \<times> EnvVar list \<Rightarrow> string \<times> string \<Rightarrow> string set \<times> EnvVar list" where
  "env_step st m =
     (case st of (seen, evs) \<Rightarrow> case m of (name, d) \<Rightarrow>
        if name \<in> seen then (seen, evs)
        else (insert name seen,
          evs @ [\<lparr>env_Name = name, env_Label = name, env_Default = (if d \<noteq> '''' then Some d else None)\<rparr>]))"

definition parseEnvVars :: "string \<Rightarrow> EnvVar list" where
  "parseEnvVars content = snd (foldl env_step ({}, []) (scan_env_vars content))"

subsection \<open>Templates\<close>

definition build_template :: "(string \<Rightarrow> xPortainerMeta) \<Rightarrow> string \<Rightarrow> string \<Rightarrow> string \<Rightarrow> Template" where
  "build_template parseXPortainer baseURL path data =
     (let filename = path_base path; meta = parseXPortainer data in
      \<lparr>tmpl_Type = 3,
       tmpl_Title = (if meta_Title meta \<noteq> '''' then meta_Title meta else trim_suffix filename ''.yml''),
       tmpl_Description = meta_Description meta,
       tmpl_AdministratorOnly = meta_AdministratorOnly meta,
       tmpl_Logo = meta_Logo meta,
       tmpl_Categories = meta_Categories meta,
       tmpl_Note = meta_Note meta,
       tmpl_Repository = \<lparr>repo_URL = baseURL @ ''/portainer/git'', repo_StackFile = filename\<rparr>,
       tmpl_Env = parseEnvVars data\<rparr>)"

fun build_templates ::
  "(string \<Rightarrow> xPortainerMeta) \<Rightarrow> recipe_files \<Rightarrow> string \<Rightarrow> string list \<Rightarrow> Template list" where
  "build_templates parseXPortainer fs baseURL [] = []"
| "build_templates parseXPortainer fs baseURL (path # paths) =
     (case read_file fs path of
        None \<Rightarrow> build_templates parseXPortainer fs baseURL paths
      | Some data \<Rightarrow>
          build_template parseXPortainer baseURL path data # build_templates parseXPortainer fs baseURL paths)"

definition BuildTemplates ::
  "(string \<Rightarrow> xPortainerMeta) \<Rightarrow> recipe_files \<Rightarrow> string \<Rightarrow> string \<Rightarrow> AppTemplates" where
  "BuildTemplates parseXPortainer fs recipesDir baseURL =
     (case glob_files fs (path_join [recipesDir, ''*.yml'']) of
        None \<Rightarrow> \<lparr>at_Version = ''3'', at_Templates = []\<rparr>
      | Some entries \<Rightarrow>
          if entries = [] then \<lparr>at_Version = ''3'', at_Templates = []\<rparr>
          else \<lparr>at_Version = ''3'', at_Templates = build_templates parseXPortainer fs baseURL (sort entries)\<rparr>)"

text \<open>\<open>encode\<close> is the indenting JSON encoder.\<close>

definition TemplatesHandler ::
  "(AppTemplates \<Rightarrow> string) \<Rightarrow> (string \<Rightarrow> xPortainerMeta) \<Rightarrow> recipe_files \<Rightarrow> string \<Rightarrow> string \<Rightarrow> http_response" where
  "TemplatesHandler encode parseXPortainer fs recipesDir baseURL =
     \<lparr>resp_status = 200, resp_headers = [(''Content-Type'', ''application/json'')],
      resp_body = encode (BuildTemplates parseXPortainer fs recipesDir baseURL)\<rparr>"

subsection \<open>What the scanner finds\<close>

definition valid_ident :: "string \<Rightarrow> bool" where
  "valid_ident n \<longleftrightarrow> n \<noteq> '''' \<and> var_start (hd n) \<and> list_all var_char n"

lemma default_part_brace: "default_part t = Some (d, rest) \<Longrightarrow> CHR ''}'' \<notin> set d"
  by (auto simp: default_part_def split: if_splits dest: set_takeWhileD)

lemma match_env_var_sound:
  assumes "match_env_var s = Some ((n, d), rest)"
  shows "valid_ident n \<and> CHR ''}'' \<notin> set d \<and> prefix (''${'' @ n) s"
proof -
  from assms obtain c cs where s: "s = ''${'' @ c # cs" and c: "var_start c"
      and n: "n = c # takeWhile var_char cs" and d: "default_part (dropWhile var_char cs) = Some (d, rest)"
    by (auto simp: match_env_var_def prefix_def split: if_splits list.splits)
  have "list_all var_char n" using c by (auto simp: n list_all_iff var_char_def Let_def dest: set_takeWhileD)
  moreover have "prefix (takeWhile var_char cs) cs" by (metis prefixI takeWhile_dropWhile_id)
  ultimately show ?thesis using s c n default_part_brace [OF d] by (simp add: valid_ident_def)
qed

lemma default_part_suffix: "default_part t = Some (d, rest) \<Longrightarrow> suffix rest t"
proof -
  have "suffix (drop 1 (dropWhile P (drop k t))) t" for P :: "char \<Rightarrow> bool" and k
    by (meson suffix_drop suffix_dropWhile suffix_order.order_trans)
  then show "default_part t = Some (d, rest) \<Longrightarrow> suffix rest t"
    using suffix_drop [of 1 t] by (auto simp: default_part_def split: if_splits)
qed

lemma match_env_var_suffix: "match_env_var s = Some (m, rest) \<Longrightarrow> suffix rest s"
proof -
  assume "match_env_var s = Some (m, rest)"
  then obtain c cs d where s: "s = ''${'' @ c # cs" and "default_part (dropWhile var_char cs) = Some (d, rest)"
    by (auto simp: match_env_var_def prefix_def split: if_splits list.splits)
  then have "suffix rest cs" using default_part_suffix suffix_dropWhile suffix_order.order_trans by blast
  with s show ?thesis by (simp add: suffix_Cons)
qed

lemma scan_env_vars_Nil [simp]: "scan_env_vars [] = []"
  by (simp add: scan_env_vars.simps)

lemma scan_env_vars_skip: "match_env_var (c # cs) = None \<Longrightarrow> scan_env_vars (c # cs) = scan_env_vars cs"
  by (simp add: scan_env_vars.simps [of "c # cs"])

lemma scan_env_vars_match: "match_env_var s = Some (m, rest) \<Longrightarrow> scan_env_vars s = m # scan_env_vars rest"
proof (cases s)
  case (Cons c cs)
  then show "match_env_var s = Some (m, rest) \<Longrightarrow> ?thesis" by (simp add: scan_env_vars.simps [of "c # cs"])
qed (simp add: match_env_var_def)

lemma scan_env_vars_sound:
  "(n, d) \<in> set (scan_env_vars s) \<Longrightarrow> valid_ident n \<and> CHR ''}'' \<notin> set d \<and> sublist (''${'' @ n) s"
proof (induction s rule: scan_env_vars.induct)
  case (1 s)
  show ?case
  proof (cases s)
    case (Cons c cs)
    show ?thesis
    proof (cases "match_env_var s")
      case None
      then have "scan_env_vars s = scan_env_vars cs" using Cons None by (simp add: scan_env_vars_skip)
      then have "valid_ident n \<and> CHR ''}'' \<notin> set d \<and> sublist (''${'' @ n) cs"
        using 1(1) [OF Cons None] 1(3) by simp
      then show ?thesis using Cons by (simp add: sublist_Cons_right)
    next
      case (Some x)
      obtain m e rest where x: "x = ((m, e), rest)" by (metis prod.collapse)
      from Some have match: "match_env_var s = Some ((m, e), rest)" by (simp add: x)
      have scan: "scan_env_vars s = (m, e) # scan_env_vars rest" using match by (rule scan_env_vars_match)
      have rest: "sublist rest s" using match_env_var_suffix [OF match] by (rule suffix_imp_sublist)
      show ?thesis
      proof (cases "(n, d) = (m, e)")
        case True
        then show ?thesis using match_env_var_sound [OF match] prefix_imp_sublist by auto
      next
        case False
        then have "(n, d) \<in> set (scan_env_vars rest)" using 1(3) scan by auto
        then have "valid_ident n \<and> CHR ''}'' \<notin> set d \<and> sublist (''${'' @ n) rest"
          using 1(2) match Cons by auto
        then show ?thesis using rest by (meson sublist_order.order_trans)
      qed
    qed
  qed (use 1 in simp)
qed

text \<open>Deduplication: what the fold keeps is the first occurrence of each name.\<close>

fun firsts :: "(string \<times> string) list \<Rightarrow> (string \<times> string) list" where
  "firsts [] = []"
| "firsts (m # ms) = m # filter (\<lambda>m'. fst m' \<noteq> fst m) (firsts ms)"

definition env_of :: "string \<times> string \<Rightarrow> EnvVar" where
  "env_of m = \<lparr>env_Name = fst m, env_Label = fst m, env_Default = (if snd m \<noteq> '''' then Some (snd m) else None)\<rparr>"

lemma env_of_simps [simp]:
  "env_Name (env_of m) = fst m" "env_Label (env_of m) = fst m"
  "env_Default (env_of m) = (if snd m \<noteq> '''' then Some (snd m) else None)"
  by (simp_all add: env_of_def)

lemma env_step_eq: "env_step (seen, evs) m =
    (if fst m \<in> seen then (seen, evs) else (insert (fst m) seen, evs @ [env_of m]))"
  by (simp add: env_step_def env_of_def case_prod_unfold)

lemma set_firsts: "set (firsts ms) \<subseteq> set ms"
  by (induction ms) auto

lemma distinct_firsts: "distinct (map fst (firsts ms))"
  by (induction ms) (auto simp: distinct_map_filter)

lemma env_fold:
  "snd (foldl env_step (seen, evs) ms) = evs @ map env_of (filter (\<lambda>m. fst m \<notin> seen) (firsts ms))"
proof (induction ms arbitrary: seen evs)
  case (Cons m ms)
  have "filter (\<lambda>m'. fst m' \<noteq> fst m \<and> fst m' \<notin> seen) (firsts ms) = filter (\<lambda>m'. fst m' \<notin> seen) (firsts ms)"
    if "fst m \<in> seen"
    using that by (intro filter_cong) auto
  then show ?case by (auto simp: env_step_eq Cons.IH conj_commute)
qed simp

lemma parseEnvVars_firsts: "parseEnvVars content = map env_of (firsts (scan_env_vars content))"
  by (simp add: parseEnvVars_def env_fold)


subsection \<open>Reading back written substitutions\<close>

text \<open>A recipe text as its author sees it: text, \<open>${n}\<close>, \<open>${n-d}\<close> and \<open>${n:-d}\<close>.\<close>

datatype piece = Plain string | Subst string | SubstDefault bool string string

fun render :: "piece \<Rightarrow> string" where
  "render (Plain s) = s"
| "render (Subst n) = ''${'' @ n @ ''}''"
| "render (SubstDefault colon n d) = ''${'' @ n @ (if colon then '':-'' else ''-'') @ d @ ''}''"

fun piece_ok :: "piece \<Rightarrow> bool" where
  "piece_ok (Plain s) \<longleftrightarrow> CHR ''$'' \<notin> set s"
| "piece_ok (Subst n) \<longleftrightarrow> valid_ident n"
| "piece_ok (SubstDefault colon n d) \<longleftrightarrow> valid_ident n \<and> CHR ''}'' \<notin> set d"

fun substitution :: "piece \<Rightarrow> (string \<times> string) list" where
  "substitution (Plain s) = []"
| "substitution (Subst n) = [(n, '''')]"
| "substitution (SubstDefault colon n d) = [(n, d)]"

lemma not_var_char: "\<not> var_char (CHR ''}'')" "\<not> var_char (CHR '':'')" "\<not> var_char (CHR ''-'')"
  by (simp_all add: var_char_def var_start_def Let_def)

lemma match_env_var_name:
  assumes "valid_ident n" "\<not> var_char c" "default_part (c # t) = Some (d, rest)"
  shows "match_env_var (''${'' @ n @ c # t) = Some ((n, d), rest)"
proof -
  obtain x xs where n: "n = x # xs" "var_start x" "\<forall>y \<in> set xs. var_char y"
    using assms(1) by (cases n) (auto simp: valid_ident_def list_all_iff)
  have "takeWhile var_char (xs @ c # t) = xs" "dropWhile var_char (xs @ c # t) = c # t"
    using n(3) assms(2) by (auto simp: takeWhile_append dropWhile_append)
  then show ?thesis using n assms(3) by (simp add: match_env_var_def)
qed

lemma default_part_upto:
  assumes "CHR ''}'' \<notin> set d"
  shows "default_part (CHR '':'' # CHR ''-'' # d @ CHR ''}'' # t) = Some (d, t)"
    and "default_part (CHR ''-'' # d @ CHR ''}'' # t) = Some (d, t)"
proof -
  have "takeWhile (\<lambda>c. c \<noteq> CHR ''}'') (d @ CHR ''}'' # t) = d"
    "dropWhile (\<lambda>c. c \<noteq> CHR ''}'') (d @ CHR ''}'' # t) = CHR ''}'' # t"
    using assms by (auto simp: takeWhile_append dropWhile_append)
  then show "default_part (CHR '':'' # CHR ''-'' # d @ CHR ''}'' # t) = Some (d, t)"
    and "default_part (CHR ''-'' # d @ CHR ''}'' # t) = Some (d, t)"
    by (simp_all add: default_part_def)
qed

lemma scan_plain: "CHR ''$'' \<notin> set s \<Longrightarrow> scan_env_vars (s @ t) = scan_env_vars t"
  by (induction s) (auto simp: scan_env_vars_skip match_env_var_def)

lemma scan_render: "piece_ok p \<Longrightarrow> scan_env_vars (render p @ t) = substitution p @ scan_env_vars t"
proof (cases p)
  case (Subst n)
  assume "piece_ok p"
  then have "match_env_var (''${'' @ n @ CHR ''}'' # t) = Some ((n, ''''), t)"
    using Subst by (intro match_env_var_name) (auto simp: not_var_char default_part_def)
  from scan_env_vars_match [OF this] show ?thesis by (simp add: Subst)
next
  case (SubstDefault colon n d)
  assume "piece_ok p"
  then have ok: "valid_ident n" "CHR ''}'' \<notin> set d" by (simp_all add: SubstDefault)
  have "match_env_var (''${'' @ n @ CHR '':'' # CHR ''-'' # d @ CHR ''}'' # t) = Some ((n, d), t)"
    "match_env_var (''${'' @ n @ CHR ''-'' # d @ CHR ''}'' # t) = Some ((n, d), t)"
    using match_env_var_name [OF ok(1)] not_var_char default_part_upto [OF ok(2)] by blast+
  then show ?thesis using scan_env_vars_match by (cases colon) (auto simp: SubstDefault)
qed (simp add: scan_plain)

lemma scan_rendered:
  "list_all piece_ok ps \<Longrightarrow> scan_env_vars (concat (map render ps)) = concat (map substitution ps)"
  by (induction ps) (simp_all add: scan_render)



lemma BuildTemplates_eq:
  "at_Templates (BuildTemplates meta fs dir baseURL) = build_templates meta fs baseURL (recipe_paths fs dir)"
  by (auto simp: BuildTemplates_def recipe_paths_def split: option.splits)


end
