(* ===== verification/Settings.thy ===== *)
theory Settings
  imports Go_Path Traefik_Config
begin

text \<open>
  The \<open>resolve\<close> functions of \<open>main.go\<close>: what the process reads from its environment. The environment is
  a map; \<open>os.LookupEnv\<close> is the map, \<open>os.Getenv\<close> the value or the empty string.
\<close>

type_synonym env = "string \<Rightarrow> string option"

definition Getenv :: "env \<Rightarrow> string \<Rightarrow> string" where
  "Getenv env k = (case env k of None \<Rightarrow> '''' | Some v \<Rightarrow> v)"

definition defaultPollInterval :: duration where "defaultPollInterval = 15 * second"
definition defaultIdleTimeout :: duration where "defaultIdleTimeout = 120 * second"
definition defaultStartTimeout :: duration where "defaultStartTimeout = 30 * second"
definition defaultListenStartPort :: int where "defaultListenStartPort = 8000"
definition defaultWebPort :: int where "defaultWebPort = 8080"
definition defaultAdminPort :: int where "defaultAdminPort = 0"
definition defaultConfigPath :: string where "defaultConfigPath = ''/etc/lazy-tcp-proxy/config.yaml''"

subsection \<open>Durations and ports\<close>

definition resolveIdleTimeout :: "env \<Rightarrow> duration" where
  "resolveIdleTimeout env =
     (let raw = Getenv env ''IDLE_TIMEOUT_SECS'' in
      if raw = '''' then defaultIdleTimeout
      else case atoi raw of
        None \<Rightarrow> defaultIdleTimeout
      | Some n \<Rightarrow> if n < 0 then defaultIdleTimeout else secs n)"

definition resolveStartTimeout :: "env \<Rightarrow> duration" where
  "resolveStartTimeout env =
     (let raw = Getenv env ''START_TIMEOUT_SECS'' in
      if raw = '''' then defaultStartTimeout
      else case atoi raw of
        None \<Rightarrow> defaultStartTimeout
      | Some n \<Rightarrow> if n < 0 then defaultStartTimeout else secs n)"

definition resolvePollInterval :: "env \<Rightarrow> duration" where
  "resolvePollInterval env =
     (let raw = Getenv env ''POLL_INTERVAL_SECS'' in
      if raw = '''' then defaultPollInterval
      else case atoi raw of
        None \<Rightarrow> defaultPollInterval
      | Some n \<Rightarrow> if n \<le> 0 then defaultPollInterval else secs n)"

definition resolveListenStartPort :: "env \<Rightarrow> int" where
  "resolveListenStartPort env =
     (let raw = Getenv env ''LISTEN_START_PORT'' in
      if raw = '''' then defaultListenStartPort
      else case atoi raw of
        None \<Rightarrow> defaultListenStartPort
      | Some n \<Rightarrow> if n \<le> 0 then defaultListenStartPort else n)"

text \<open>\<open>WEB_PORT\<close> and, when it is absent or invalid, its former name.\<close>

definition port_setting :: "env \<Rightarrow> string \<Rightarrow> int option" where
  "port_setting env k =
     (let raw = Getenv env k in
      if raw = '''' then None
      else case atoi raw of None \<Rightarrow> None | Some n \<Rightarrow> if 0 \<le> n then Some n else None)"

definition resolveWebPort :: "env \<Rightarrow> int" where
  "resolveWebPort env =
     (case port_setting env ''WEB_PORT'' of
        Some n \<Rightarrow> n
      | None \<Rightarrow> (case port_setting env ''STATUS_PORT'' of Some n \<Rightarrow> n | None \<Rightarrow> defaultWebPort))"

definition resolveWebHost :: "env \<Rightarrow> string" where
  "resolveWebHost env = Getenv env ''WEB_HOST''"

definition resolveAdminPort :: "env \<Rightarrow> int" where
  "resolveAdminPort env =
     (let raw = Getenv env ''ADMIN_PORT'' in
      if raw = '''' then defaultAdminPort
      else case atoi raw of
        None \<Rightarrow> defaultAdminPort
      | Some n \<Rightarrow> if n < 0 then defaultAdminPort else n)"

subsection \<open>Paths, hosts and the rest\<close>

definition resolveConfigPath :: "env \<Rightarrow> string" where
  "resolveConfigPath env = (let v = Getenv env ''CONFIG_PATH'' in if v \<noteq> '''' then v else defaultConfigPath)"

text \<open>\<open>url_ok\<close> says whether \<open>url.Parse\<close> accepts the value; the redacted copy is only logged.\<close>

definition resolveMetricsPostgresURL :: "(string \<Rightarrow> bool) \<Rightarrow> env \<Rightarrow> string" where
  "resolveMetricsPostgresURL url_ok env =
     (let raw = Getenv env ''METRICS_POSTGRES_URL'' in
      if raw = '''' then '''' else if \<not> url_ok raw then '''' else raw)"

definition resolveComposeDir :: "env \<Rightarrow> string \<Rightarrow> string" where
  "resolveComposeDir env configPath =
     (let v = Getenv env ''COMPOSE_DIR'' in if v \<noteq> '''' then v else path_join [path_dir configPath, ''compose''])"

definition resolveRecipesDir :: "env \<Rightarrow> string \<Rightarrow> string" where
  "resolveRecipesDir env configPath =
     (let v = Getenv env ''RECIPES_DIR'' in if v \<noteq> '''' then v else path_join [path_dir configPath, ''recipes''])"

definition resolveTraefikProxyHost :: "env \<Rightarrow> string" where
  "resolveTraefikProxyHost env =
     (let v = Getenv env ''TRAEFIK_PROXY_HOST'' in if v \<noteq> '''' then v else ''lazy-tcp-proxy'')"

definition resolveTraefikEntryPoint :: "env \<Rightarrow> string" where
  "resolveTraefikEntryPoint env = (case env ''TRAEFIK_ENTRYPOINT'' of Some v \<Rightarrow> v | None \<Rightarrow> ''websecure'')"

definition resolveTraefikCertResolver :: "env \<Rightarrow> string" where
  "resolveTraefikCertResolver env = (case env ''TRAEFIK_CERTRESOLVER'' of Some v \<Rightarrow> v | None \<Rightarrow> ''myresolver'')"

definition or_default :: "string \<Rightarrow> string \<Rightarrow> string" where
  "or_default v d = (if v = '''' then d else v)"

definition resolveTraefikTransportTimeouts :: "env \<Rightarrow> TransportTimeouts" where
  "resolveTraefikTransportTimeouts env =
     \<lparr>tt_DialTimeout = or_default (Getenv env ''TRAEFIK_DIAL_TIMEOUT'') ''30s'',
      tt_ResponseHeaderTimeout = or_default (Getenv env ''TRAEFIK_RESPONSE_HEADER_TIMEOUT'') ''15m'',
      tt_IdleConnTimeout = or_default (Getenv env ''TRAEFIK_IDLE_CONN_TIMEOUT'') ''90s''\<rparr>"

definition resolveCORSAllowOrigins :: "env \<Rightarrow> string" where
  "resolveCORSAllowOrigins env = Getenv env ''CORS_ALLOW_ORIGINS''"

subsection \<open>Ranges\<close>

text \<open>The largest number of seconds a duration holds.\<close>

definition max_secs :: int where "max_secs = 9223372036"

definition secs_setting_ok :: "env \<Rightarrow> string \<Rightarrow> bool" where
  "secs_setting_ok env k \<longleftrightarrow> (case atoi (Getenv env k) of None \<Rightarrow> True | Some n \<Rightarrow> n \<le> max_secs)"

lemma secs_exact: "0 \<le> n \<Longrightarrow> n \<le> max_secs \<Longrightarrow> secs n = n * second"
  by (simp add: secs_def max_secs_def in_int64_def)


definition demo_environment :: env where
  "demo_environment = [''POLL_INTERVAL_SECS'' \<mapsto> ''60'', ''IDLE_TIMEOUT_SECS'' \<mapsto> ''0'', ''WEB_PORT'' \<mapsto> ''-1'']"


text \<open>A poll interval one second past the range passes the check and becomes negative.\<close>

theorem poll_interval_overflows:
  "resolvePollInterval [''POLL_INTERVAL_SECS'' \<mapsto> show_int (max_secs + 1)] < 0"
  by (simp add: resolvePollInterval_def Getenv_def atoi_show_int max_secs_def in_int64_def secs_def wrap64_def)

text \<open>
  The directories beside the configuration file: for an absolute configuration path in a directory
  \<open>d\<close>, the compose and recipe directories are \<open>d/compose\<close> and \<open>d/recipes\<close>.
\<close>

lemma directories_beside_config:
  assumes "list_all plain_component cs" "cs \<noteq> []" "slash \<notin> set f"
    and "Getenv env ''COMPOSE_DIR'' = ''''" "Getenv env ''RECIPES_DIR'' = ''''"
  shows "resolveComposeDir env (slash # join ''/'' cs @ slash # f) = slash # join ''/'' cs @ ''/compose''"
    and "resolveRecipesDir env (slash # join ''/'' cs @ slash # f) = slash # join ''/'' cs @ ''/recipes''"
  using path_dir_file [OF assms(1-3)] path_join_absolute [OF assms(1,2)] assms(4,5)
  by (simp_all add: resolveComposeDir_def resolveRecipesDir_def plain_component_def)

end
