(* ===== verification/Web_Server.thy ===== *)
theory Web_Server
  imports Settings Portainer_Templates Docker_Discovery
begin

text \<open>
  \<open>runStatusServer\<close> of \<open>main.go\<close>: the HTTP server with the status, metrics, Traefik and Portainer
  endpoints, and the CORS wrapper. A response body is the value that is encoded; the dashboard page is
  an argument.
\<close>

subsection \<open>Responses\<close>

record StatusPayload =
  sp_services :: "TargetSnapshot list"
  sp_memory_used :: "int option"
  sp_memory_total :: "int option"
  sp_containers :: "ContainerMemoryStat list option"
  sp_disk_used :: "int option"
  sp_disk_total :: "int option"

datatype 'r web_body = RawBody string | StatusBody StatusPayload | MetricsBody "'r list" | ErrorBody string
  | TraefikBody TraefikConfig | NoBody

record 'r web_response =
  wr_status :: nat
  wr_headers :: "(string \<times> string) list"
  wr_body :: "'r web_body"

definition json_response :: "nat \<Rightarrow> 'r web_body \<Rightarrow> 'r web_response" where
  "json_response status b =
     \<lparr>wr_status = status, wr_headers = [(''Content-Type'', ''application/json'')], wr_body = b\<rparr>"

definition raw_response :: "http_response \<Rightarrow> 'r web_response" where
  "raw_response r = \<lparr>wr_status = resp_status r, wr_headers = resp_headers r, wr_body = RawBody (resp_body r)\<rparr>"

subsection \<open>Handlers\<close>

text \<open>
  What \<open>statfs\<close> reports for the root file system: \<open>f_blocks\<close>, \<open>f_bavail\<close> (unsigned 64-bit) and
  \<open>f_bsize\<close>. The products wrap.
\<close>

definition diskUsage :: "(int \<times> int \<times> int) option \<Rightarrow> (int \<times> int) option" where
  "diskUsage stat =
     (case stat of
        None \<Rightarrow> None
      | Some (blocks, bavail, bsize) \<Rightarrow>
          (let tot = wrap64 (wrap64 blocks * wrap64 bsize);
               used = wrap64 (tot - wrap64 (wrap64 bavail * wrap64 bsize))
           in Some (used, tot)))"

definition handle_status ::
  "(int \<times> int \<times> ContainerMemoryStat list) option \<Rightarrow> (int \<times> int \<times> int) option \<Rightarrow> TargetSnapshot list \<Rightarrow> 'r web_response" where
  "handle_status memory stat services =
     json_response 200 (StatusBody
       \<lparr>sp_services = services,
        sp_memory_used = map_option (\<lambda>(used, tot, per). used) memory,
        sp_memory_total = map_option (\<lambda>(used, tot, per). tot) memory,
        sp_containers = (case memory of None \<Rightarrow> None | Some (used, tot, per) \<Rightarrow> if per \<noteq> [] then Some per else None),
        sp_disk_used = map_option fst (diskUsage stat),
        sp_disk_total = map_option snd (diskUsage stat)\<rparr>)"

text \<open>The collector is absent until the database is connected; it answers an error text or rows.\<close>

definition handle_metrics :: "(string + 'r list) option \<Rightarrow> 'r web_response" where
  "handle_metrics activity =
     (case activity of
        None \<Rightarrow> json_response 503 (ErrorBody ''metrics not configured'')
      | Some (Inl e) \<Rightarrow> json_response 500 (ErrorBody e)
      | Some (Inr rows) \<Rightarrow> json_response 200 (MetricsBody rows))"

definition traefik_snapshot :: "TargetSnapshot \<Rightarrow> Traefik_Config.Snapshot" where
  "traefik_snapshot s =
     \<lparr>sn_ListenPort = tsn_ListenPort s, sn_TraefikHosts = elems (tsn_TraefikHosts s),
      sn_TraefikTCPHosts = elems (tsn_TraefikTCPHosts s), sn_ALPNProtocols = elems (tsn_ALPNProtocols s),
      sn_MinTLSVersion = tsn_MinTLSVersion s\<rparr>"

definition traefik_answer :: "env \<Rightarrow> TargetSnapshot list \<Rightarrow> TraefikConfig" where
  "traefik_answer env raw =
     BuildConfig (map traefik_snapshot raw) (resolveTraefikProxyHost env) (resolveTraefikEntryPoint env)
       (resolveTraefikCertResolver env) (resolveWebHost env) (resolveWebPort env)
       (Some (resolveTraefikTransportTimeouts env))"

definition handle_traefik :: "env \<Rightarrow> TargetSnapshot list \<Rightarrow> 'r web_response" where
  "handle_traefik env raw = json_response 200 (TraefikBody (traefik_answer env raw))"

definition portainerBaseURL :: "env \<Rightarrow> string" where
  "portainerBaseURL env = ''http://'' @ resolveTraefikProxyHost env @ '':'' @ show_int (resolveWebPort env)"

definition handle_health :: "'r web_response" where
  "handle_health = \<lparr>wr_status = 200, wr_headers = [], wr_body = RawBody ''ok''\<rparr>"

definition handle_root :: "string \<Rightarrow> string \<Rightarrow> 'r web_response" where
  "handle_root dashboard path =
     (if path \<noteq> ''/'' then raw_response not_found
      else \<lparr>wr_status = 200, wr_headers = [(''Content-Type'', ''text/html; charset=utf-8'')], wr_body = RawBody dashboard\<rparr>)"

subsection \<open>Routing\<close>

text \<open>
  \<open>http.ServeMux\<close> on a cleaned path: an exact pattern, then the subtree \<open>/portainer/git/\<close> (whose name
  without the slash is redirected), then the root.
\<close>

datatype route = StatusRoute | MetricsRoute | TraefikRoute | TemplatesRoute | GitRoute | GitRedirect | HealthRoute | RootRoute

definition web_route :: "string \<Rightarrow> route" where
  "web_route path =
     (if path = ''/status'' then StatusRoute
      else if path = ''/metrics'' then MetricsRoute
      else if path = ''/traefik'' then TraefikRoute
      else if path = ''/portainer/templates'' then TemplatesRoute
      else if path = ''/health'' then HealthRoute
      else if prefix ''/portainer/git/'' path then GitRoute
      else if path = ''/portainer/git'' then GitRedirect
      else RootRoute)"

text \<open>What the handlers read when a request arrives.\<close>

record 'r web_env =
  we_env :: env
  we_services :: "TargetSnapshot list"
  we_memory :: "(int \<times> int \<times> ContainerMemoryStat list) option"
  we_statfs :: "(int \<times> int \<times> int) option"
  we_activity :: "(string + 'r list) option"
  we_recipes :: recipe_files
  we_sha1 :: "string \<Rightarrow> string"
  we_zlib :: "string \<Rightarrow> string"
  we_x_portainer :: "string \<Rightarrow> xPortainerMeta"
  we_encode :: "AppTemplates \<Rightarrow> string"
  we_dashboard :: string

definition web_recipes_dir :: "'r web_env \<Rightarrow> string" where
  "web_recipes_dir e = resolveRecipesDir (we_env e) (resolveConfigPath (we_env e))"

definition web_mux :: "'r web_env \<Rightarrow> string \<Rightarrow> string \<Rightarrow> 'r web_response" where
  "web_mux e path body =
     (case web_route path of
        StatusRoute \<Rightarrow> handle_status (we_memory e) (we_statfs e) (we_services e)
      | MetricsRoute \<Rightarrow> handle_metrics (we_activity e)
      | TraefikRoute \<Rightarrow> handle_traefik (we_env e) (we_services e)
      | TemplatesRoute \<Rightarrow>
          raw_response (TemplatesHandler (we_encode e) (we_x_portainer e) (we_recipes e) (web_recipes_dir e) (portainerBaseURL (we_env e)))
      | GitRoute \<Rightarrow> raw_response (GitHandler (we_sha1 e) (we_zlib e) (we_recipes e) (web_recipes_dir e) path body)
      | GitRedirect \<Rightarrow> \<lparr>wr_status = 301, wr_headers = [(''Location'', ''/portainer/git/'')], wr_body = NoBody\<rparr>
      | HealthRoute \<Rightarrow> handle_health
      | RootRoute \<Rightarrow> handle_root (we_dashboard e) path)"

definition cors_headers :: "string \<Rightarrow> (string \<times> string) list" where
  "cors_headers origins =
     [(''Access-Control-Allow-Origin'', origins),
      (''Access-Control-Allow-Methods'', ''GET, POST, PUT, DELETE, OPTIONS''),
      (''Access-Control-Allow-Headers'', ''Content-Type, X-API-Key, Authorization'')]"

definition corsMiddleware :: "string \<Rightarrow> string \<Rightarrow> 'r web_response \<Rightarrow> 'r web_response" where
  "corsMiddleware origins meth response =
     (if meth = ''OPTIONS'' then \<lparr>wr_status = 204, wr_headers = cors_headers origins, wr_body = NoBody\<rparr>
      else response\<lparr>wr_headers := cors_headers origins @ wr_headers response\<rparr>)"

definition web_server :: "'r web_env \<Rightarrow> string \<Rightarrow> string \<Rightarrow> string \<Rightarrow> 'r web_response" where
  "web_server e meth path body =
     (let origins = resolveCORSAllowOrigins (we_env e) in
      if origins \<noteq> '''' then corsMiddleware origins meth (web_mux e path body) else web_mux e path body)"

subsection \<open>What Traefik is told\<close>

lemma resolveWebPort_nonneg: "0 \<le> resolveWebPort env"
  by (auto simp: resolveWebPort_def port_setting_def defaultWebPort_def Let_def split: option.split if_splits)

lemma tcp_target_in_snapshot:
  assumes "bound s (False, p) = Some i"
  obtains t where "t \<in> set (Snapshot_of_targets stat now s)" "tsn_ListenPort t = p"
    "tsn_TraefikHosts t = TraefikHosts i"
proof -
  obtain ts where ts: "map_of (srv_targets s) p = Some ts" "ts_info ts = i"
    using assms by (auto simp: bound_def)
  then have "tcp_snapshot stat now s (p, ts) \<in> set (Snapshot_of_targets stat now s)"
    by (auto simp: Snapshot_of_targets_def dest: map_of_SomeD)
  then show thesis by (rule that) (simp_all add: tcp_snapshot_def ts Let_def split: prod.split)
qed

text \<open>
  C13: What is served is routed. For every target served on a TCP port and every host \<open>domain:port\<close> of its
  configuration that names this port, the answer to \<open>/traefik\<close> has an HTTP router matching exactly this
  domain whose service sends to this port of the proxy, when the hosts of one port name one domain (as
  the port allocator assigns them) and no port is the web server's. Names cannot clash: the name of a
  router ends in its port.
\<close>

theorem served_hosts_are_routed:
  assumes "bound s (False, p) = Some i" and "domain @ '':'' @ show_int p \<in> set (elems (TraefikHosts i))"
    and "domain \<noteq> ''''" and "0 \<le> p" and "p < 65536" and "p \<noteq> resolveWebPort (we_env e)"
    and "we_services e = Snapshot_of_targets stat now s" and "meth \<noteq> ''OPTIONS''"
    and "\<And>d q. (d, q) \<in> wanted_hosts (map traefik_snapshot (we_services e)) \<Longrightarrow> 0 \<le> q \<and> (q = p \<longrightarrow> d = domain)"
  shows "\<exists>cfg r se. wr_status (web_server e meth ''/traefik'' body) = 200
      \<and> wr_body (web_server e meth ''/traefik'' body) = TraefikBody cfg
      \<and> map_of (Routers (HTTP cfg)) (route_name domain p @ ''-router'') = Some r
      \<and> ro_Rule r = host_rule ''Host'' domain
      \<and> map_of (Services (HTTP cfg)) (ro_Service r) = Some se
      \<and> se_Servers se = [''http://'' @ host_port (resolveTraefikProxyHost (we_env e)) p]"
proof -
  let ?snaps = "map traefik_snapshot (we_services e)"
  obtain t where t: "t \<in> set (we_services e)" "tsn_ListenPort t = p" "tsn_TraefikHosts t = TraefikHosts i"
    using tcp_target_in_snapshot [OF assms(1)] unfolding assms(7) by blast
  define snap where "snap = traefik_snapshot t"
  have snap: "snap \<in> set ?snaps" "sn_ListenPort snap = p" "sn_TraefikHosts snap = elems (TraefikHosts i)"
    using t by (simp_all add: snap_def) (simp_all add: traefik_snapshot_def)
  have one: "d = domain \<and> q = p"
    if w: "(d, q) \<in> wanted_hosts ?snaps \<or> resolveWebHost (we_env e) \<noteq> '''' \<and> (d, q) = (resolveWebHost (we_env e), resolveWebPort (we_env e))"
      and n: "route_name d q = route_name domain p" for d q
  proof -
    have "0 \<le> q" using w assms(9) resolveWebPort_nonneg by auto
    then have "q = p" using assms(4) n by (rule route_name_port)
    with w assms(6,9) show ?thesis by auto
  qed
  have answer: "wr_status (web_server e meth ''/traefik'' body) = 200"
    "wr_body (web_server e meth ''/traefik'' body) = TraefikBody (traefik_answer (we_env e) (we_services e))"
    using assms(8) by (simp_all add: web_server_def web_mux_def web_route_def corsMiddleware_def handle_traefik_def
        json_response_def Let_def)
  have "in_int64 p" using assms(4,5) by (simp add: in_int64_def)
  then show ?thesis
    using every_host_is_routed [OF snap(1), of domain "resolveWebHost (we_env e)" "resolveWebPort (we_env e)"]
      assms(2,3) one answer unfolding snap(2,3) traefik_answer_def by blast
qed

definition demo_routed :: targetState where
  "demo_routed =
     \<lparr>ts_info = demo_web\<lparr>TraefikHosts := Some [''app'' @ '':'' @ show_int 9000]\<rparr>, ts_listenPort = 9000, ts_targetPort = 80,
      ts_tlsListener = False, ts_lastActive = 0, ts_activeConns = 0, ts_idleTimeout = None, ts_startTimeout = second,
      ts_httpHealthCheck = '''', ts_hasHealthCheck = False, ts_running = True, ts_missing = False, ts_removed = False,
      ts_tlsEnabled = False, ts_apiKey = None, ts_basicAuth = None\<rparr>"

definition demo_routing_server :: ProxyServer where
  "demo_routing_server = NewServer 0 0 0 0 False\<lparr>srv_targets := [(9000, demo_routed)]\<rparr>"

definition demo_web_env :: "unit web_env" where
  "demo_web_env =
     \<lparr>we_env = Map.empty, we_services = Snapshot_of_targets (\<lambda>_ _. False) 0 demo_routing_server, we_memory = None,
      we_statfs = None, we_activity = None, we_recipes = \<lparr>glob_files = (\<lambda>_. None), read_file = (\<lambda>_. None)\<rparr>,
      we_sha1 = (\<lambda>s. s), we_zlib = (\<lambda>s. s),
      we_x_portainer = (\<lambda>_. \<lparr>meta_Title = '''', meta_Description = '''', meta_AdministratorOnly = False,
        meta_Logo = '''', meta_Categories = [], meta_Note = ''''\<rparr>),
      we_encode = (\<lambda>_. ''''), we_dashboard = ''''\<rparr>"

lemma demo_wanted: "wanted_hosts (map traefik_snapshot (we_services demo_web_env)) = {(''app'', 9000)}"
proof -
  have "map traefik_snapshot (we_services demo_web_env) =
      [\<lparr>sn_ListenPort = 9000, sn_TraefikHosts = [''app'' @ '':'' @ show_int 9000],
        sn_TraefikTCPHosts = elems (TraefikTCPHosts demo_web), sn_ALPNProtocols = elems (ALPNProtocols demo_web),
        sn_MinTLSVersion = MinTLSVersion demo_web\<rparr>]"
    by (simp add: demo_web_env_def Snapshot_of_targets_def demo_routing_server_def NewServer_def tcp_snapshot_def
        demo_routed_def traefik_snapshot_def Let_def split: prod.split)
  moreover have "route_entry snap (''app'' @ '':'' @ show_int 9000) = Some (''app'', 9000)" if "sn_ListenPort snap = 9000" for snap
    using route_entry_printed [of "''app''" snap] that by (simp add: in_int64_def)
  ultimately show ?thesis by (auto simp: wanted_hosts_def simp del: append.simps)
qed

theorem served_hosts_are_routed_witness:
  "\<exists>cfg r. wr_body (web_server demo_web_env ''GET'' ''/traefik'' '''') = TraefikBody cfg
     \<and> map_of (Routers (HTTP cfg)) (route_name ''app'' 9000 @ ''-router'') = Some r
     \<and> ro_Rule r = host_rule ''Host'' ''app''"
proof -
  have b: "bound demo_routing_server (False, 9000) = Some (demo_web\<lparr>TraefikHosts := Some [''app'' @ '':'' @ show_int 9000]\<rparr>)"
    by (simp add: bound_def demo_routing_server_def demo_routed_def)
  have p: "9000 \<noteq> resolveWebPort (we_env demo_web_env)"
    by (simp add: resolveWebPort_def port_setting_def Getenv_def defaultWebPort_def demo_web_env_def)
  have s: "we_services demo_web_env = Snapshot_of_targets (\<lambda>_ _. False) 0 demo_routing_server"
    by (simp add: demo_web_env_def)
  have w: "0 \<le> q \<and> (q = 9000 \<longrightarrow> d = ''app'')" if "(d, q) \<in> wanted_hosts (map traefik_snapshot (we_services demo_web_env))" for d q
    using that unfolding demo_wanted by simp
  from served_hosts_are_routed [where meth = "''GET''" and body = "''''", OF b _ _ _ _ p s _ w] show ?thesis by auto
qed

end
