(* ===== verification/Tls_Config.thy ===== *)
theory Tls_Config
  imports Go_Prelude
begin

text \<open>
  \<open>internal/proxy/tls.go\<close>: the self-signed certificate of the TLS listeners. Key generation and the
  encoder of \<open>crypto/x509\<close> are parameters; the template they get is the code's.
\<close>

datatype key_usage = KeyUsageDigitalSignature
datatype ext_key_usage = ExtKeyUsageServerAuth

record x509_template =
  xt_SerialNumber :: int
  xt_CommonName :: string
  xt_NotBefore :: instant
  xt_NotAfter :: instant
  xt_KeyUsage :: key_usage
  xt_ExtKeyUsage :: "ext_key_usage list"
  xt_BasicConstraintsValid :: bool

record 'k tls_certificate =
  tc_Certificate :: "string list"
  tc_PrivateKey :: 'k

datatype tls_error = GenerateKeyFailed | CreateCertificateFailed

definition certificate_template :: "instant \<Rightarrow> x509_template" where
  "certificate_template now =
     \<lparr>xt_SerialNumber = 1, xt_CommonName = ''lazy-tcp-proxy'', xt_NotBefore = now - minute,
      xt_NotAfter = now + 10 * 365 * 24 * hour, xt_KeyUsage = KeyUsageDigitalSignature,
      xt_ExtKeyUsage = [ExtKeyUsageServerAuth], xt_BasicConstraintsValid = True\<rparr>"

text \<open>
  \<open>generate\<close> is \<open>ecdsa.GenerateKey\<close>; \<open>create\<close> is \<open>x509.CreateCertificate\<close> with the template, the
  parent that signs and the key. The result is the list of certificates of the configuration.
\<close>

definition GenerateSelfSignedTLSConfig ::
  "'k option \<Rightarrow> (x509_template \<Rightarrow> x509_template \<Rightarrow> 'k \<Rightarrow> string option) \<Rightarrow> instant \<Rightarrow> tls_error + 'k tls_certificate list" where
  "GenerateSelfSignedTLSConfig generate create now =
     (case generate of
        None \<Rightarrow> Inl GenerateKeyFailed
      | Some key \<Rightarrow>
          let tmpl = certificate_template now in
          (case create tmpl tmpl key of
             None \<Rightarrow> Inl CreateCertificateFailed
           | Some certDER \<Rightarrow> Inr [\<lparr>tc_Certificate = [certDER], tc_PrivateKey = key\<rparr>]))"

text \<open>\<open>10 * 365 * 24 * time.Hour\<close> fits a \<open>time.Duration\<close>.\<close>

lemma validity_fits: "10 * 365 * 24 * hour \<le> max_duration"
  by (simp add: max_duration_def)

text \<open>
  A configuration that is returned presents one certificate, signed by its own key, and in force from a
  minute before the call until ten years of 365 days after it.
\<close>

theorem self_signed_certificate_in_force:
  assumes "GenerateSelfSignedTLSConfig generate create now = Inr certs"
  shows "\<exists>key der. generate = Some key \<and> create (certificate_template now) (certificate_template now) key = Some der
    \<and> certs = [\<lparr>tc_Certificate = [der], tc_PrivateKey = key\<rparr>]
    \<and> (\<forall>t. xt_NotBefore (certificate_template now) \<le> t \<and> t \<le> xt_NotAfter (certificate_template now)
          \<longleftrightarrow> now - minute \<le> t \<and> t \<le> now + 3650 * 24 * hour)"
proof -
  have "xt_NotBefore (certificate_template now) = now - minute" "xt_NotAfter (certificate_template now) = now + 3650 * 24 * hour"
    by (simp_all add: certificate_template_def)
  with assms show ?thesis by (auto simp: GenerateSelfSignedTLSConfig_def Let_def split: option.splits)
qed

end
