(* ===== verification/Program.thy ===== *)
theory Program
  imports Web_Server Git_Clone Reload Tls_Config
begin

text \<open>
  \<open>main.go\<close> put together: the start-up of the process, and the properties that span components: what
  the web server says of the recipes and what a running proxy was configured with.
\<close>

subsection \<open>Portainer\<close>

definition raw_body :: "'r web_response \<Rightarrow> string" where
  "raw_body r = (case wr_body r of RawBody b \<Rightarrow> b | _ \<Rightarrow> '''')"

lemma web_git:
  assumes "meth \<noteq> ''OPTIONS''" "web_route path = GitRoute"
  shows "raw_body (web_server e meth path body)
      = resp_body (GitHandler (we_sha1 e) (we_zlib e) (we_recipes e) (web_recipes_dir e) path body)"
  using assms by (simp add: web_server_def web_mux_def corsMiddleware_def raw_response_def raw_body_def Let_def)

lemma git_routes:
  "web_route (''/portainer/git'' @ ''/info/refs'') = GitRoute"
  "web_route (''/portainer/git'' @ ''/git-upload-pack'') = GitRoute"
  by (simp_all add: web_route_def)

text \<open>One template per readable recipe, in the same order, whatever the title.\<close>

lemma templates_of_contents:
  "map (\<lambda>t. (repo_URL (tmpl_Repository t), repo_StackFile (tmpl_Repository t), tmpl_Env t)) (build_templates meta fs baseURL paths)
     = map (\<lambda>(name, text). (baseURL @ ''/portainer/git'', name, parseEnvVars text)) (recipe_contents fs paths)"
  by (induction paths) (auto simp: build_template_def recipe_contents_def List.map_filter_simps Let_def split: option.splits)


definition demo_recipe_env :: "unit web_env" where
  "demo_recipe_env = demo_web_env
     \<lparr>we_env := [''RECIPES_DIR'' \<mapsto> ''/r''], we_recipes := sample_recipes, we_sha1 := length_digest, we_zlib := marked\<rparr>"


subsection \<open>Start-up\<close>

datatype startup_error = BackendFailed | TLSFailed | ConfigFailed io_error | AdminKeyMissing

text \<open>
  What runs when \<open>main\<close> has started: the world the requests of \<open>Reload\<close> act on, the web port and the
  administration port with its key, when they are enabled.
\<close>

record 'b process =
  pr_world :: "'b world"
  pr_web :: "int option"
  pr_admin :: "(int \<times> string) option"

definition new_server :: "env \<Rightarrow> instant \<Rightarrow> ProxyServer" where
  "new_server env startTime =
     SetComposeDir
       (SetScheduler (NewServer startTime (resolveIdleTimeout env) (resolvePollInterval env) (resolveStartTimeout env) True))
       (resolveComposeDir env (resolveConfigPath env))"

text \<open>\<open>connect\<close> says whether the metrics database can be reached.\<close>

definition start_metrics :: "(string \<Rightarrow> bool) \<Rightarrow> (string \<Rightarrow> bool) \<Rightarrow> env \<Rightarrow> instant \<Rightarrow> 'b world \<Rightarrow> 'b world" where
  "start_metrics url_ok connect env now w =
     (let pgURL = resolveMetricsPostgresURL url_ok env in
      if pgURL \<noteq> '''' \<and> connect pgURL
      then (case w_system w of (alloc, b, s) \<Rightarrow> w\<lparr>w_system := (alloc, b, fst (SetCollector now s))\<rparr>)
      else w)"

text \<open>
  \<open>main\<close> up to the point where it waits. \<open>mgr\<close> is the backend, when it could be made, \<open>tls\<close> whether the
  certificate could, \<open>setComposeDir\<close> the backend's \<open>SetComposeDir\<close>. A fatal error ends the process with the
  files as they are then; a failed discovery is only logged.
\<close>

definition main_start ::
  "'b request_env \<Rightarrow> (string \<Rightarrow> bool) \<Rightarrow> (string \<Rightarrow> bool) \<Rightarrow> env \<Rightarrow> instant \<Rightarrow> instant \<Rightarrow> (string \<Rightarrow> 'b \<Rightarrow> 'b) \<Rightarrow> 'b option \<Rightarrow> bool
     \<Rightarrow> disk \<Rightarrow> startup_error \<times> disk + 'b process" where
  "main_start renv url_ok connect env startTime now setComposeDir mgr tls disk =
     (case mgr of
        None \<Rightarrow> Inl (BackendFailed, disk)
      | Some b \<Rightarrow>
          if \<not> tls then Inl (TLSFailed, disk)
          else
            let configPath = resolveConfigPath env;
                s = new_server env startTime;
                b1 = setComposeDir (resolveComposeDir env configPath) b;
                alloc = Some (NewPortAllocator (resolveListenStartPort env))
            in (case Load (re_unmarshal renv) (re_placeholder renv) (re_readable renv) (re_writable renv) disk (New_Store configPath) of
                  (d, st, Some e) \<Rightarrow> Inl (ConfigFailed e, d)
                | (d, st, None) \<Rightarrow>
                    let adminPort = resolveAdminPort env; adminKey = Getenv env ''ADMIN_API_KEY'' in
                    if adminPort \<noteq> 0 \<and> adminKey = '''' then Inl (AdminKeyMissing, d)
                    else
                      let w = fst (reload_world renv \<lparr>w_disk = d, w_store = st, w_system = (alloc, b1, s)\<rparr>) in
                      Inr \<lparr>pr_world = start_metrics url_ok connect env now w,
                           pr_web = (if resolveWebPort env = 0 then None else Some (resolveWebPort env)),
                           pr_admin = (if adminPort = 0 then None else Some (adminPort, adminKey))\<rparr>))"

text \<open>The fields of a server that registrations leave alone.\<close>

definition server_settings :: "ProxyServer \<Rightarrow> duration \<times> duration \<times> duration \<times> instant \<times> string" where
  "server_settings s = (srv_idleTimeout s, srv_pollInterval s, srv_startTimeout s, srv_startTime s, srv_composeDir s)"

lemma server_settings_parts:
  "server_settings (fst (register_tcp listen info s m)) = server_settings s"
  "server_settings (fst (register_udp listen info s m)) = server_settings s"
  "server_settings (fst (RemoveTarget s cid)) = server_settings s"
  by (simp_all add: server_settings_def register_tcp_def register_udp_def RemoveTarget_def Let_def split: option.split)

lemma server_settings_register: "server_settings (fst (RegisterTarget listen s info)) = server_settings s"
proof -
  let ?s1 = "fst (run_each (register_tcp listen info) s (elems (Ports info)))"
  let ?s2 = "fst (run_each (register_udp listen info) ?s1 (elems (UDPPorts info)))"
  have "server_settings ?s1 = server_settings s" "server_settings ?s2 = server_settings ?s1"
    by (rule run_each_unchanged, simp add: server_settings_parts)+
  then have "server_settings ?s2 = server_settings s" by simp
  moreover have "RegisterTarget listen s info = (s, []) \<or> server_settings (fst (RegisterTarget listen s info)) = server_settings ?s2"
    by (simp add: RegisterTarget_def Let_def case_prod_unfold server_settings_def)
  ultimately show ?thesis by auto
qed

lemma server_settings_update: "server_settings (fst (Update listen s ts)) = server_settings s"
proof -
  have "server_settings (fst (remove_absent new s c)) = server_settings s" for new s c
    by (simp add: remove_absent_def server_settings_parts)
  moreover have "server_settings (fst (register_changed listen cur s c)) = server_settings s" for cur s c
    by (simp add: register_changed_def case_prod_unfold server_settings_parts server_settings_register split: option.split)
  ultimately show ?thesis
    by (simp add: Update_def reconcile_def case_prod_unfold run_each_unchanged)
qed

lemma reload_world_settings:
  "server_settings (snd (snd (w_system (fst (reload_world renv w))))) = server_settings (snd (snd (w_system w)))"
proof -
  obtain alloc b s where w: "w_system w = (alloc, b, s)" by (rule prod_cases3)
  obtain a' b' s' eff ok where r: "discoverAndApply (re_ops renv) (re_uri_ok renv) (re_listen renv) (w_store w) (alloc, b, s)
      = ((a', b', s'), eff, ok)" by (metis prod.exhaust)
  have "server_settings s' = server_settings s"
    using r
  proof (cases rule: discoverAndApply_steps)
    case (reloaded x y z m)
    then show ?thesis using server_settings_update [of "re_listen renv" s m] by simp
  qed simp
  then show ?thesis by (simp add: reload_world_def w r)
qed

lemma start_metrics_frame:
  "w_store (start_metrics url_ok connect env now w) = w_store w"
  "w_disk (start_metrics url_ok connect env now w) = w_disk w"
  "server_settings (snd (snd (w_system (start_metrics url_ok connect env now w)))) = server_settings (snd (snd (w_system w)))"
  by (simp_all add: start_metrics_def SetCollector_def server_settings_def Let_def case_prod_unfold)

lemma new_server_settings:
  "server_settings (new_server env startTime) =
     (resolveIdleTimeout env, resolvePollInterval env, resolveStartTimeout env, startTime,
      resolveComposeDir env (resolveConfigPath env))"
  by (simp add: server_settings_def new_server_def SetComposeDir_def SetScheduler_def NewServer_def)




text \<open>\<open>main_start\<close> with the certificate it makes; a failure ends the process before any file is read.\<close>

definition main_with_certificate ::
  "'k option \<Rightarrow> (x509_template \<Rightarrow> x509_template \<Rightarrow> 'k \<Rightarrow> string option) \<Rightarrow> instant
     \<Rightarrow> 'b request_env \<Rightarrow> (string \<Rightarrow> bool) \<Rightarrow> (string \<Rightarrow> bool) \<Rightarrow> env \<Rightarrow> instant \<Rightarrow> instant \<Rightarrow> (string \<Rightarrow> 'b \<Rightarrow> 'b) \<Rightarrow> 'b option
     \<Rightarrow> disk \<Rightarrow> startup_error \<times> disk + 'b process" where
  "main_with_certificate generate create issued renv url_ok connect env startTime now setComposeDir mgr disk =
     main_start renv url_ok connect env startTime now setComposeDir mgr
       (\<not> isl (GenerateSelfSignedTLSConfig generate create issued)) disk"

theorem running_process_has_certificate:
  assumes "main_with_certificate generate create issued renv url_ok connect env startTime now setComposeDir mgr disk = Inr p"
  shows "\<exists>key der. create (certificate_template issued) (certificate_template issued) key = Some der
    \<and> GenerateSelfSignedTLSConfig generate create issued = Inr [\<lparr>tc_Certificate = [der], tc_PrivateKey = key\<rparr>]"
proof -
  have "\<not> isl (GenerateSelfSignedTLSConfig generate create issued)"
    using assms by (auto simp: main_with_certificate_def main_start_def split: option.splits if_splits)
  then obtain certs where "GenerateSelfSignedTLSConfig generate create issued = Inr certs"
    by (cases "GenerateSelfSignedTLSConfig generate create issued") simp_all
  with self_signed_certificate_in_force [OF this] show ?thesis by blast
qed

end
