(* ===== verification/Spec2Isabelle.thy ===== *)
theory Spec2Isabelle
  imports Target_Types Access_List Port_Alloc Cron_Scheduler Metrics Proxy_Server Server_Registry
    Server_Lifecycle Proxy_Conn Udp_Flow Docker_Manager Target_Handler Proxy_System Conn_Steps Conn_Alone Docker_Discovery K8s_Backend Traefik_Config
    Config_Store Reload Go_Path Git_Pack Git_Clone Portainer_Templates Settings Web_Server Tls_Config Program
begin

text \<open>
  Verification development for lazy-tcp-proxy, a proxy that listens on the ports of Docker containers
  and Kubernetes Deployments, starts a container when a client connects, relays the traffic and stops
  the container when it has been idle. All paths below are under \<open>src/lazy-tcp-proxy\<close>.

  \<^bold>\<open>The program.\<close> A backend (\<open>internal/docker\<close> or \<open>internal/k8s\<close>) finds the containers that carry the
  proxy's labels and turns each into a target description (\<open>internal/types\<close>). Discovery feeds a
  collector, the configuration file (\<open>internal/config\<close>) is laid over the result, and the proxy server
  (\<open>internal/proxy\<close>) is updated to it; later the backend's event loops call the server directly. The
  server keeps a table of TCP listeners, UDP listeners and port-less targets. A connection or datagram
  passes the access lists, makes the server ask the backend to start the container, waits until it is
  ready and relays. Container events set running flags and cascade to dependants; a cron scheduler
  (\<open>internal/scheduler\<close>) and the idle check start and stop containers; a metrics collector
  (\<open>internal/metrics\<close>) counts. A web server (\<open>main.go\<close>) publishes the state, a Traefik configuration
  (\<open>internal/traefik\<close>) and the recipe files as Portainer templates in a git repository
  (\<open>internal/portainer\<close>); an administration server (\<open>internal/admin\<close>) changes the configuration.

  \<^bold>\<open>The theories.\<close> Names are the source's where the logic allows it.
  \<^item> \<open>Go_Prelude\<close>, \<open>Go_Strings\<close>, \<open>Go_Path\<close>, \<open>Go_Net\<close>: the parts of Go the program uses. Integers are \<open>int\<close>
    with \<open>wrap64\<close> and \<open>wrap32\<close> written out, strings are byte strings, maps are association lists in the
    order one iteration picks, a nil-able slice is an option. \<open>Go_Prelude\<close> holds the collections \<open>frame\<close>
    and \<open>keeps\<close> and the facts on maps and folds every component uses.
  \<^item> \<open>Target_Types\<close> (\<open>types/types.go\<close>): the target description and the parsers of labels.
  \<^item> \<open>Port_Alloc\<close> (\<open>types/portalloc.go\<close>): listen ports for Traefik domains; locale \<open>port_source\<close>.
  \<^item> \<open>Access_List\<close> (\<open>ipBlocked\<close> in \<open>proxy/server.go\<close>).
  \<^item> \<open>Cron_Scheduler\<close> (\<open>scheduler/scheduler.go\<close>): entries over a cron table; locale \<open>job_scheduler\<close>.
  \<^item> \<open>Metrics\<close> (\<open>metrics/collector.go\<close>, \<open>postgres.go\<close>): accumulators, rollup, retry buffer, heat map.
  \<^item> \<open>Proxy_Server\<close> (\<open>proxy/server.go\<close>): the server's state and operations; every operation returns the
    state and its effects. \<open>Server_Registry\<close> abstracts the state to which description each port is
    bound to (\<open>bound\<close>, \<open>serves\<close>) and shows that registering, removing and updating act on that view.
    \<open>Server_Lifecycle\<close> has the flags, cascades and idle check, and the locale \<open>container_backend\<close>: starting
    and stopping as the server relies on them.
  \<^item> \<open>Proxy_Conn\<close> (\<open>handleConn\<close>, \<open>handleHTTPProxy\<close>): one connection against an environment that answers.
  \<^item> \<open>Udp_Flow\<close> (\<open>proxy/udp.go\<close>): goroutines of one UDP listener as the step relations \<open>udp_internal\<close> and
    \<open>udp_external\<close> with reachability, an invariant and a bound on the steps.
  \<^item> \<open>Target_Handler\<close>: the \<open>TargetHandler\<close> interface, locales \<open>target_sink\<close> and \<open>target_handler\<close>, interpreted
    on the server and on the collector. \<open>Proxy_System\<close> interleaves all operations of the server, with the
    cascades they launch, as the step relation \<open>proxy_step\<close>; its locale \<open>server_relation\<close> holds what
    operations keep. \<open>Conn_Steps\<close> refines it: connections and the idle check are goroutines that hold
    pointers to target objects and interleave with everything else (\<open>conn_step\<close>). \<open>Conn_Alone\<close> shows that
    without interruption these are \<open>handleConn\<close> and \<open>checkInactivity\<close>, and states what holds in all runs.
  \<^item> \<open>Docker_Manager\<close>, \<open>Docker_Discovery\<close> (\<open>docker/manager.go\<close>, \<open>compose_reprovision.go\<close>) and \<open>K8s_Backend\<close>
    (\<open>k8s/backend.go\<close>): the backends over an API that is a record of functions; both interpret
    \<open>container_backend\<close>.
  \<^item> \<open>Traefik_Config\<close> (\<open>traefik/config.go\<close>), \<open>Config_Store\<close> (\<open>config/store.go\<close>).
  \<^item> \<open>Reload\<close> (\<open>discoverAndApply\<close> of \<open>main.go\<close>, \<open>admin/server.go\<close>): locale \<open>backend_manager\<close>, interpreted on
    both backends; reloads and administration requests.
  \<^item> \<open>Git_Pack\<close>, \<open>Portainer_Templates\<close> (\<open>portainer/git.go\<close>, \<open>templates.go\<close>); \<open>Git_Clone\<close> is git's side of the
    protocol, a client that reads what the endpoint writes.
  \<^item> \<open>Settings\<close> (the \<open>resolve\<close> functions of \<open>main.go\<close>), \<open>Web_Server\<close> (\<open>runStatusServer\<close>), \<open>Tls_Config\<close>
    (\<open>proxy/tls.go\<close>), \<open>Program\<close> (\<open>main\<close> and the properties that span components).

  \<^bold>\<open>What the lemmas show.\<close> Registry: an update makes the server serve exactly the new configuration, a
  registration is all or nothing, ports are not shared. In every run
  the open sockets are those of the registry, only registered containers are started or stopped, each
  target object counts its connections, and the idle check passes over containers in use.
  Connections: a refused client has no effect, a
  forwarded request is authorised, connection counts balance. UDP: one establishing goroutine per
  pending client, every socket owned, establishing settles. Backends: starting and stopping refine one
  contract; event loops keep swarm targets managed and deleted Deployments unserved. Configuration:
  saving is atomic and checked, the overlay keeps identities, a reload serves the merged targets and
  never moves a public port. Publication: every reference of the Traefik configuration resolves, every
  served host is routed to its port, cloning the recipe repository yields the recipe files. Start-up:
  when the process gives up, and with which settings it runs otherwise. Metrics: counters are conserved
  by rollup and retry. The scheduler's jobs are those of the last registration.

  \<^bold>\<open>Bounds and fuel.\<close> \<open>wait_fuel\<close> (32) bounds the polls for a re-provisioned container: the deadline is 30
  seconds away and a poll waits at least one, as \<open>reprovision_wait_ends\<close> shows. The fuel of \<open>unique_from\<close>
  is one more than the options present, so one candidate is free (\<open>option_name_search_ends\<close>). \<open>settle_bound\<close>
  bounds the steps of the UDP goroutines without new input. Retry loops have the budget the code
  computes (\<open>retry_budget\<close>). The fuel of string loops is the length of the string, of which each round
  takes a byte; the readers of \<open>Git_Clone\<close> have the length of their input.

  \<^bold>\<open>Parameters.\<close> Code outside the repository is an argument: the Docker and Kubernetes APIs and Compose,
  the cron library, bcrypt, PostgreSQL, YAML, JSON, SHA-1, zlib, X.509 and URL parsing. Laws on them
  are named (\<open>docker_laws\<close>, \<open>k8s_laws\<close>, \<open>cron_library_ok\<close>, \<open>no_collision\<close>) and every property that has one comes
  with an instance that satisfies it.

  \<^bold>\<open>Not modelled.\<close> The constructors that only build API clients,
  SQL statements and the connection pool, HTTP plumbing (listeners, shutdown, encoders), the dashboard
  page, signals, directory creation and log lines. Server operations run as one step each, as their
  mutex makes them, but for cron jobs and cascades, which call the backend without it and are one step
  here too; connections, the idle check and the goroutines of a UDP listener are interleaved.
\<close>

end
